(* ===== verification/Pg_Prelude.thy ===== *)
theory Pg_Prelude
  imports Main "HOL-Library.Word"
begin

section \<open>Prelude: error results, statement sequencing, ordered windows\<close>

text \<open>
  What every component theory shares: the result type of a C routine that may
  leave through \<^verbatim>\<open>ereport/elog\<close> or a failed \<^verbatim>\<open>Assert\<close>, the sequencing of
  statements over an explicit state, and the interface of an order that is total
  only inside a window (32-bit transaction ids), with the binary search of
  \<^verbatim>\<open>xact.c\<close> proved correct once against that interface.
\<close>

subsection \<open>Results\<close>

text \<open>
  \<^verbatim>\<open>ereport(ERROR)\<close>, \<^verbatim>\<open>ereport(FATAL)\<close> and \<^verbatim>\<open>ereport(PANIC)\<close> leave the routine by
  \<open>longjmp\<close> or process exit; \<open>AssertFail\<close> is the abort of an assertion-enabled build, and
  \<open>UndefinedBehaviour\<close> a memory access outside an object.
  All keep the state reached so far: a C routine that raises has already executed the
  assignments before the raise, and the recovery code sees them.
\<close>

datatype pg_error = ERROR string | FATAL string | PANIC string | AssertFail string
  | UndefinedBehaviour string

type_synonym 's res = "(pg_error \<times> 's) + 's"
type_synonym ('s, 'a) vres = "(pg_error \<times> 's) + ('a \<times> 's)"
type_synonym 's stmt = "'s \<Rightarrow> 's res"

named_theorems stmt_simps \<open>unfolding of statement sequences\<close>

text \<open>A statement that only assigns, and a compound statement \<open>{ s1; s2; \<dots> }\<close>.\<close>

definition upd :: "('s \<Rightarrow> 's) \<Rightarrow> 's stmt" where
  "upd f s = Inr (f s)"

definition raise :: "pg_error \<Rightarrow> 's stmt" where
  "raise e s = Inl (e, s)"

definition assert_that :: "string \<Rightarrow> ('s \<Rightarrow> bool) \<Rightarrow> 's stmt" where
  "assert_that msg P s = (if P s then Inr s else Inl (AssertFail msg, s))"

definition when_do :: "('s \<Rightarrow> bool) \<Rightarrow> 's stmt \<Rightarrow> 's stmt" where
  "when_do P f s = (if P s then f s else Inr s)"

definition if_do :: "('s \<Rightarrow> bool) \<Rightarrow> 's stmt \<Rightarrow> 's stmt \<Rightarrow> 's stmt" where
  "if_do P f g s = (if P s then f s else g s)"

definition let_do :: "('s \<Rightarrow> ('s, 'a) vres) \<Rightarrow> ('a \<Rightarrow> 's stmt) \<Rightarrow> 's stmt" where
  "let_do f g s = (case f s of Inl e \<Rightarrow> Inl e | Inr (x, s') \<Rightarrow> g x s')"

definition with_state :: "('s \<Rightarrow> 's stmt) \<Rightarrow> 's stmt" where
  "with_state f s = f s s"

fun seq :: "'s stmt list \<Rightarrow> 's stmt" where
  "seq [] s = Inr s"
| "seq (f # fs) s = (case f s of Inl e \<Rightarrow> Inl e | Inr s' \<Rightarrow> seq fs s')"

lemmas [stmt_simps] = upd_def raise_def assert_that_def when_do_def if_do_def
  let_do_def with_state_def

lemma seq_append: "seq (fs @ gs) s = (case seq fs s of Inl e \<Rightarrow> Inl e | Inr s' \<Rightarrow> seq gs s')"
  by (induction fs arbitrary: s) (auto split: sum.splits)

subsection \<open>Total correctness triples\<close>

text \<open>
  \<open>runs P f Q\<close>: from every state satisfying \<open>P\<close> the statement returns normally, in a
  state satisfying \<open>Q\<close>. Routines that cannot fail in a state the invariant allows are
  specified this way; the rule for \<^const>\<open>seq\<close> chains the steps.
\<close>

definition runs :: "('s \<Rightarrow> bool) \<Rightarrow> 's stmt \<Rightarrow> ('s \<Rightarrow> bool) \<Rightarrow> bool" where
  "runs P f Q \<longleftrightarrow> (\<forall>s. P s \<longrightarrow> (\<exists>s'. f s = Inr s' \<and> Q s'))"

lemma runsI: "(\<And>s. P s \<Longrightarrow> \<exists>s'. f s = Inr s' \<and> Q s') \<Longrightarrow> runs P f Q"
  by (simp add: runs_def)

lemma runsE:
  assumes "runs P f Q" and "P s"
  obtains s' where "f s = Inr s'" and "Q s'"
  using assms by (auto simp: runs_def)

lemma runs_seq_Nil: "(\<And>s. P s \<Longrightarrow> Q s) \<Longrightarrow> runs P (seq []) Q"
  by (simp add: runs_def)

lemma runs_seq_Cons: "runs P f R \<Longrightarrow> runs R (seq fs) Q \<Longrightarrow> runs P (seq (f # fs)) Q"
  by (fastforce simp: runs_def)

lemma runs_conseq:
  "runs P f Q \<Longrightarrow> (\<And>s. P' s \<Longrightarrow> P s) \<Longrightarrow> (\<And>s. Q s \<Longrightarrow> Q' s) \<Longrightarrow> runs P' f Q'"
  by (fastforce simp: runs_def)

subsection \<open>An order that is total inside a window\<close>

text \<open>
  Transaction ids compare modulo \<open>2^32\<close>, so the comparison is an order only among ids
  less than \<open>2^31\<close> apart. \<open>prec\<close> is the comparison, \<open>W\<close> such a window, \<open>rank\<close> the
  position of an id in it.
\<close>

locale window_order =
  fixes prec :: "'x \<Rightarrow> 'x \<Rightarrow> bool"
    and W :: "'x set"
    and rank :: "'x \<Rightarrow> nat"
  assumes rank_inj: "x \<in> W \<Longrightarrow> y \<in> W \<Longrightarrow> rank x = rank y \<Longrightarrow> x = y"
    and prec_rank: "x \<in> W \<Longrightarrow> y \<in> W \<Longrightarrow> prec x y \<longleftrightarrow> rank x < rank y"
begin

lemma win_irrefl: "x \<in> W \<Longrightarrow> \<not> prec x x"
  by (simp add: prec_rank)

lemma win_trans: "x \<in> W \<Longrightarrow> y \<in> W \<Longrightarrow> z \<in> W \<Longrightarrow> prec x y \<Longrightarrow> prec y z \<Longrightarrow> prec x z"
  by (simp add: prec_rank)

lemma win_total: "x \<in> W \<Longrightarrow> y \<in> W \<Longrightarrow> x \<noteq> y \<Longrightarrow> prec x y \<or> prec y x"
  by (metis prec_rank rank_inj linorder_neqE_nat)

lemma win_sorted_distinct: "set xs \<subseteq> W \<Longrightarrow> sorted_wrt prec xs \<Longrightarrow> distinct xs"
  by (induction xs) (auto simp: win_irrefl)

lemma win_sorted_nth:
  assumes "set xs \<subseteq> W" "sorted_wrt prec xs" "i < length xs" "j < length xs"
  shows "prec (xs ! i) (xs ! j) \<longleftrightarrow> i < j"
proof -
  have mem: "xs ! i \<in> W" "xs ! j \<in> W" using assms by auto
  show ?thesis
  proof (cases "i < j")
    case True
    then show ?thesis using assms by (simp add: sorted_wrt_nth_less)
  next
    case False
    then consider "i = j" | "j < i" by linarith
    then show ?thesis
    proof cases
      case 1
      then show ?thesis using win_irrefl mem by simp
    next
      case 2
      then have "prec (xs ! j) (xs ! i)" using assms by (simp add: sorted_wrt_nth_less)
      then have "rank (xs ! j) < rank (xs ! i)" using mem by (simp add: prec_rank)
      then show ?thesis using mem 2 by (simp add: prec_rank)
    qed
  qed
qed

end

text \<open>
  The binary search loop that \<^verbatim>\<open>TransactionIdIsCurrentTransactionId\<close> runs, over the
  comparison it uses. The bounds are C \<open>int\<close>s: \<open>high\<close> starts at \<open>n - 1\<close> and may reach
  \<open>-1\<close>.
\<close>

function xid_bsearch :: "('x \<Rightarrow> 'x \<Rightarrow> bool) \<Rightarrow> 'x list \<Rightarrow> 'x \<Rightarrow> int \<Rightarrow> int \<Rightarrow> bool" where
  "xid_bsearch prec arr xid low high =
     (if low \<le> high then
        (let middle = low + (high - low) div 2; probe = arr ! nat middle in
           if probe = xid then True
           else if prec probe xid then xid_bsearch prec arr xid (middle + 1) high
           else xid_bsearch prec arr xid low (middle - 1))
      else False)"
  by pat_completeness auto
termination
  by (relation "measure (\<lambda>(p, a, x, low, high). nat (high - low + 1))") auto

declare xid_bsearch.simps [simp del]

lemma xid_bsearch_sound:
  "0 \<le> low \<Longrightarrow> high < int (length arr) \<Longrightarrow> xid_bsearch prec arr xid low high \<Longrightarrow> xid \<in> set arr"
proof (induction prec arr xid low high rule: xid_bsearch.induct)
  case (1 prec arr xid low high)
  show ?case
  proof (cases "low \<le> high")
    case False
    then show ?thesis using "1.prems"(3) by (simp add: xid_bsearch.simps)
  next
    case True
    define m where "m = low + (high - low) div 2"
    have m: "low \<le> m" "m \<le> high" using True by (auto simp: m_def)
    have unf: "xid_bsearch prec arr xid low high =
        (if arr ! nat m = xid then True
         else if prec (arr ! nat m) xid then xid_bsearch prec arr xid (m + 1) high
         else xid_bsearch prec arr xid low (m - 1))"
      using True by (subst xid_bsearch.simps) (simp add: m_def Let_def)
    show ?thesis
    proof (cases "arr ! nat m = xid")
      case True
      have "nat m < length arr" using m "1.prems" by linarith
      then show ?thesis using True nth_mem by metis
    next
      case False
      then show ?thesis
        using "1.IH"[OF True m_def refl] "1.prems" unf m by (auto split: if_splits)
    qed
  qed
qed

context window_order
begin

lemma bsearch_range:
  assumes "set arr \<subseteq> W" "sorted_wrt prec arr"
  shows "0 \<le> low \<Longrightarrow> high < int (length arr) \<Longrightarrow> low \<le> int k \<Longrightarrow> int k \<le> high \<Longrightarrow>
         xid_bsearch prec arr (arr ! k) low high"
proof (induction "nat (high - low + 1)" arbitrary: low high rule: less_induct)
  case less
  define m where "m = low + (high - low) div 2"
  have m: "low \<le> m" "m \<le> high" "nat m < length arr" "k < length arr"
    using less.prems by (auto simp: m_def)
  have unf: "xid_bsearch prec arr (arr ! k) low high =
      (if arr ! nat m = arr ! k then True
       else if prec (arr ! nat m) (arr ! k) then xid_bsearch prec arr (arr ! k) (m + 1) high
       else xid_bsearch prec arr (arr ! k) low (m - 1))"
    using less.prems by (subst xid_bsearch.simps) (simp add: m_def Let_def)
  have cmp: "prec (arr ! nat m) (arr ! k) \<longleftrightarrow> nat m < k"
    using win_sorted_nth assms m by blast
  consider "nat m = k" | "nat m < k" | "k < nat m" by linarith
  then show ?case
  proof cases
    case 1
    then show ?thesis using unf by simp
  next
    case 2
    have "xid_bsearch prec arr (arr ! k) (m + 1) high"
      using less.hyps[of high "m + 1"] less.prems m 2 by linarith
    then show ?thesis using unf cmp 2 by simp
  next
    case 3
    have "xid_bsearch prec arr (arr ! k) low (m - 1)"
      using less.hyps[of "m - 1" low] less.prems m 3 by linarith
    then show ?thesis using unf cmp 3 by simp
  qed
qed

lemma bsearch_correct:
  assumes "set arr \<subseteq> W" "sorted_wrt prec arr"
  shows "xid_bsearch prec arr xid 0 (int (length arr) - 1) \<longleftrightarrow> xid \<in> set arr"
proof
  assume "xid_bsearch prec arr xid 0 (int (length arr) - 1)"
  then show "xid \<in> set arr" by (rule xid_bsearch_sound [rotated 2]) auto
next
  assume "xid \<in> set arr"
  then obtain k where "k < length arr" "arr ! k = xid" by (auto simp: in_set_conv_nth)
  then show "xid_bsearch prec arr xid 0 (int (length arr) - 1)"
    using bsearch_range[OF assms, of 0 "int (length arr) - 1" k] by simp
qed

end

end
