(* ===== verification/Xid.thy ===== *)
theory Xid
  imports Pg_Prelude
begin

section \<open>Transaction identifiers (transam.h, transam.c)\<close>

text \<open>
  32-bit \<^verbatim>\<open>TransactionId\<close>s compared modulo \<open>2^32\<close>, the three permanent ids, and the
  64-bit \<^verbatim>\<open>FullTransactionId\<close> (epoch and xid). The window interpretation at the end is
  what every client of \<open>TransactionIdPrecedes\<close> relies on.
\<close>

type_synonym TransactionId = "32 word"
type_synonym FullTransactionId = "64 word"

definition InvalidTransactionId :: TransactionId where "InvalidTransactionId = 0"
definition BootstrapTransactionId :: TransactionId where "BootstrapTransactionId = 1"
definition FrozenTransactionId :: TransactionId where "FrozenTransactionId = 2"
definition FirstNormalTransactionId :: TransactionId where "FirstNormalTransactionId = 3"

definition TransactionIdIsValid :: "TransactionId \<Rightarrow> bool" where
  "TransactionIdIsValid xid \<longleftrightarrow> xid \<noteq> InvalidTransactionId"

definition TransactionIdIsNormal :: "TransactionId \<Rightarrow> bool" where
  "TransactionIdIsNormal xid \<longleftrightarrow> xid \<ge> FirstNormalTransactionId"

lemmas xid_consts = InvalidTransactionId_def BootstrapTransactionId_def FrozenTransactionId_def
  FirstNormalTransactionId_def TransactionIdIsValid_def TransactionIdIsNormal_def

definition TransactionIdPrecedes :: "TransactionId \<Rightarrow> TransactionId \<Rightarrow> bool" where
  "TransactionIdPrecedes id1 id2 =
     (if \<not> TransactionIdIsNormal id1 \<or> \<not> TransactionIdIsNormal id2 then id1 < id2
      else sint (id1 - id2) < 0)"

definition TransactionIdPrecedesOrEquals :: "TransactionId \<Rightarrow> TransactionId \<Rightarrow> bool" where
  "TransactionIdPrecedesOrEquals id1 id2 =
     (if \<not> TransactionIdIsNormal id1 \<or> \<not> TransactionIdIsNormal id2 then id1 \<le> id2
      else sint (id1 - id2) \<le> 0)"

definition TransactionIdFollows :: "TransactionId \<Rightarrow> TransactionId \<Rightarrow> bool" where
  "TransactionIdFollows id1 id2 =
     (if \<not> TransactionIdIsNormal id1 \<or> \<not> TransactionIdIsNormal id2 then id1 > id2
      else sint (id1 - id2) > 0)"

definition TransactionIdFollowsOrEquals :: "TransactionId \<Rightarrow> TransactionId \<Rightarrow> bool" where
  "TransactionIdFollowsOrEquals id1 id2 =
     (if \<not> TransactionIdIsNormal id1 \<or> \<not> TransactionIdIsNormal id2 then id1 \<ge> id2
      else sint (id1 - id2) \<ge> 0)"

text \<open>\<^verbatim>\<open>TransactionIdLatest\<close> scans the array back to front.\<close>

definition TransactionIdLatest :: "TransactionId \<Rightarrow> TransactionId list \<Rightarrow> TransactionId" where
  "TransactionIdLatest mainxid xids =
     foldl (\<lambda>result x. if TransactionIdPrecedes result x then x else result) mainxid (rev xids)"

subsection \<open>64-bit ids\<close>

definition XidFromFullTransactionId :: "FullTransactionId \<Rightarrow> TransactionId" where
  "XidFromFullTransactionId x = ucast x"

definition EpochFromFullTransactionId :: "FullTransactionId \<Rightarrow> 32 word" where
  "EpochFromFullTransactionId x = ucast (drop_bit 32 x)"

definition FullTransactionIdFromEpochAndXid :: "32 word \<Rightarrow> TransactionId \<Rightarrow> FullTransactionId" where
  "FullTransactionIdFromEpochAndXid epoch xid = or (push_bit 32 (ucast epoch)) (ucast xid)"

definition InvalidFullTransactionId :: FullTransactionId where
  "InvalidFullTransactionId = FullTransactionIdFromEpochAndXid 0 InvalidTransactionId"

definition FirstNormalFullTransactionId :: FullTransactionId where
  "FirstNormalFullTransactionId = FullTransactionIdFromEpochAndXid 0 FirstNormalTransactionId"

definition FullTransactionIdIsValid :: "FullTransactionId \<Rightarrow> bool" where
  "FullTransactionIdIsValid x \<longleftrightarrow> TransactionIdIsValid (XidFromFullTransactionId x)"

definition TransactionIdAdvance :: "TransactionId \<Rightarrow> TransactionId" where
  "TransactionIdAdvance dest =
     (let d = dest + 1 in if d < FirstNormalTransactionId then FirstNormalTransactionId else d)"

lemma take_bit_plus_cut: "take_bit 32 (take_bit 64 a + take_bit 64 b) = take_bit 32 (a + b)"
  for a b :: int
proof -
  have cut: "take_bit 32 (take_bit 64 x) = take_bit 32 x" for x :: int
    by (simp add: take_bit_take_bit)
  have "take_bit 32 (take_bit 64 a + take_bit 64 b)
      = take_bit 32 (take_bit 32 (take_bit 64 a) + take_bit 32 (take_bit 64 b))"
    by (simp only: take_bit_add)
  then show ?thesis by (simp only: cut take_bit_add)
qed

lemma XidFrom_add: "XidFromFullTransactionId (d + e) = XidFromFullTransactionId d + ucast e"
  unfolding XidFromFullTransactionId_def by transfer (simp add: take_bit_plus_cut)

lemma unat_xid_succ:
  fixes d :: FullTransactionId
  assumes "XidFromFullTransactionId d < FirstNormalTransactionId"
  shows "unat (XidFromFullTransactionId (d + 1)) = Suc (unat (XidFromFullTransactionId d))"
proof -
  have a: "XidFromFullTransactionId (d + 1) = XidFromFullTransactionId d + 1"
    by (simp add: XidFrom_add)
  show ?thesis
    using assms unfolding a FirstNormalTransactionId_def
    by (subst unat_word_ariths) (simp add: word_less_nat_alt)
qed

text \<open>
  The loop \<^verbatim>\<open>while (XidFromFullTransactionId(*dest) < FirstNormalTransactionId) dest->value++\<close>
  runs at most three times.
\<close>

function skip_special_up :: "FullTransactionId \<Rightarrow> FullTransactionId" where
  "skip_special_up d =
     (if XidFromFullTransactionId d < FirstNormalTransactionId then skip_special_up (d + 1) else d)"
  by pat_completeness auto
termination
  by (relation "measure (\<lambda>d. 3 - unat (XidFromFullTransactionId d))")
     (auto simp: unat_xid_succ FirstNormalTransactionId_def word_less_nat_alt)

declare skip_special_up.simps [simp del]

definition FullTransactionIdAdvance :: "FullTransactionId \<Rightarrow> FullTransactionId" where
  "FullTransactionIdAdvance dest =
     (let d = dest + 1 in
        if d < FirstNormalFullTransactionId then d else skip_special_up d)"

subsection \<open>The comparison is an order inside a half-range window\<close>

definition xid_window :: "TransactionId \<Rightarrow> TransactionId set" where
  "xid_window base = {x. TransactionIdIsNormal x \<and> unat (x - base) < 2 ^ 31}"

definition xid_rank :: "TransactionId \<Rightarrow> TransactionId \<Rightarrow> nat" where
  "xid_rank base x = unat (x - base)"

lemma unat_eqD: "unat a = unat b \<Longrightarrow> a = b"
  by (simp add: word_unat_eq_iff)

lemma uint_small: "unat w < 2 ^ 31 \<Longrightarrow> uint w < 2 ^ 31" for w :: "32 word"
proof -
  assume "unat w < 2 ^ 31"
  then have "int (unat w) < int (2 ^ 31)" by (rule of_nat_less_iff[THEN iffD2])
  then show ?thesis by simp
qed

lemma sint_small: "unat w < 2 ^ 31 \<Longrightarrow> sint w = uint w" for w :: "32 word"
proof -
  assume "unat w < 2 ^ 31"
  then have "uint w < 2 ^ 31" by (rule uint_small)
  moreover have "- (2 ^ 31) \<le> uint w" by (rule order_trans[of _ 0]) simp_all
  ultimately have "signed_take_bit 31 (uint w) = uint w"
    by (intro signed_take_bit_int_eq_self) simp_all
  then show ?thesis by (simp add: sint_uint)
qed

lemma sint_diff_small:
  fixes a b :: "32 word"
  assumes "unat a < 2 ^ 31" "unat b < 2 ^ 31"
  shows "sint (a - b) = int (unat a) - int (unat b)"
proof -
  have "uint a < 2 ^ 31" "uint b < 2 ^ 31" using assms by (blast intro: uint_small)+
  moreover have "0 \<le> uint a" "0 \<le> uint b" by simp_all
  ultimately have "- (2 ^ 31) \<le> uint a - uint b" "uint a - uint b < 2 ^ 31" by linarith+
  then have "signed_take_bit 31 (uint a - uint b) = uint a - uint b"
    by (rule signed_take_bit_int_eq_self)
  moreover have "sint (a - b) = signed_take_bit 31 (sint a - sint b)"
    by (simp add: sint_word_ariths)
  ultimately show ?thesis using assms by (simp add: sint_small)
qed

lemma TransactionIdPrecedes_window:
  assumes "x \<in> xid_window base" "y \<in> xid_window base"
  shows "TransactionIdPrecedes x y \<longleftrightarrow> xid_rank base x < xid_rank base y"
proof -
  have "x - y = (x - base) - (y - base)" by simp
  then have "sint (x - y) = int (xid_rank base x) - int (xid_rank base y)"
    using assms sint_diff_small[of "x - base" "y - base"]
    by (simp add: xid_window_def xid_rank_def)
  then show ?thesis
    using assms by (auto simp: TransactionIdPrecedes_def xid_window_def)
qed

interpretation xw: window_order TransactionIdPrecedes "xid_window base" "xid_rank base" for base
  by unfold_locales
     (auto simp: TransactionIdPrecedes_window xid_rank_def dest: unat_eqD)

text \<open>
  \<^verbatim>\<open>ParallelCurrentXids\<close> is kept in plain numeric order: the same search interface holds
  for the unsigned comparison, with no window.
\<close>

interpretation xn: window_order "(<) :: TransactionId \<Rightarrow> TransactionId \<Rightarrow> bool" UNIV unat
  by unfold_locales (auto simp: word_less_nat_alt dest: unat_eqD)

end
