(* ===== verification/Transam.thy ===== *)
theory Transam
  imports Xid
begin

section \<open>Transaction status (transam.c)\<close>

text \<open>
  The commit status of transactions as \<^verbatim>\<open>transam.c\<close> presents it. \<open>pg_xact\<close> is the commit
  log as a map from xid to status and \<open>pg_subtrans\<close> the parent of a subtransaction id; the
  page layout of both (\<^verbatim>\<open>clog.c\<close>, \<^verbatim>\<open>subtrans.c\<close>) is below this interface. The one-entry
  cache of \<^verbatim>\<open>TransactionLogFetch\<close> is kept.
\<close>

datatype XidStatus =
    TRANSACTION_STATUS_IN_PROGRESS | TRANSACTION_STATUS_COMMITTED
  | TRANSACTION_STATUS_ABORTED | TRANSACTION_STATUS_SUB_COMMITTED

type_synonym clog = "TransactionId \<Rightarrow> XidStatus"
type_synonym subtrans = "TransactionId \<rightharpoonup> TransactionId"

text \<open>The single-item cache: \<^verbatim>\<open>cachedFetchXid\<close> and \<^verbatim>\<open>cachedFetchXidStatus\<close>.\<close>

record fetch_cache =
  cachedFetchXid :: TransactionId
  cachedFetchXidStatus :: XidStatus

definition TransactionLogFetch ::
    "clog \<Rightarrow> TransactionId \<Rightarrow> fetch_cache \<Rightarrow> XidStatus \<times> fetch_cache" where
  "TransactionLogFetch clog xid c =
     (if xid = cachedFetchXid c then (cachedFetchXidStatus c, c)
      else if \<not> TransactionIdIsNormal xid then
        (if xid = BootstrapTransactionId then (TRANSACTION_STATUS_COMMITTED, c)
         else if xid = FrozenTransactionId then (TRANSACTION_STATUS_COMMITTED, c)
         else (TRANSACTION_STATUS_ABORTED, c))
      else
        (let xidstatus = clog xid in
           (xidstatus,
            if xidstatus \<noteq> TRANSACTION_STATUS_IN_PROGRESS \<and>
               xidstatus \<noteq> TRANSACTION_STATUS_SUB_COMMITTED
            then c\<lparr>cachedFetchXid := xid, cachedFetchXidStatus := xidstatus\<rparr> else c)))"

text \<open>
  \<^verbatim>\<open>TransactionIdDidCommit\<close> and \<^verbatim>\<open>TransactionIdDidAbort\<close> follow \<open>pg_subtrans\<close> upwards from a
  sub-committed id. \<open>pg_subtrans\<close> is shared data, so nothing in the routine itself bounds
  the walk: not returning is \<open>None\<close>.
\<close>

partial_function (option) TransactionIdDidCommit ::
    "clog \<Rightarrow> subtrans \<Rightarrow> TransactionId \<Rightarrow> TransactionId \<Rightarrow> fetch_cache \<Rightarrow>
     (bool \<times> fetch_cache) option" where
  "TransactionIdDidCommit clog subt xmin xid c =
     (let (xidstatus, c') = TransactionLogFetch clog xid c in
      if xidstatus = TRANSACTION_STATUS_COMMITTED then Some (True, c')
      else if xidstatus = TRANSACTION_STATUS_SUB_COMMITTED then
        (if TransactionIdPrecedes xid xmin then Some (False, c')
         else case subt xid of
             None \<Rightarrow> Some (False, c')
           | Some parentXid \<Rightarrow>
               if \<not> TransactionIdIsValid parentXid then Some (False, c')
               else TransactionIdDidCommit clog subt xmin parentXid c')
      else Some (False, c'))"

partial_function (option) TransactionIdDidAbort ::
    "clog \<Rightarrow> subtrans \<Rightarrow> TransactionId \<Rightarrow> TransactionId \<Rightarrow> fetch_cache \<Rightarrow>
     (bool \<times> fetch_cache) option" where
  "TransactionIdDidAbort clog subt xmin xid c =
     (let (xidstatus, c') = TransactionLogFetch clog xid c in
      if xidstatus = TRANSACTION_STATUS_ABORTED then Some (True, c')
      else if xidstatus = TRANSACTION_STATUS_SUB_COMMITTED then
        (if TransactionIdPrecedes xid xmin then Some (True, c')
         else case subt xid of
             None \<Rightarrow> Some (True, c')
           | Some parentXid \<Rightarrow>
               if \<not> TransactionIdIsValid parentXid then Some (True, c')
               else TransactionIdDidAbort clog subt xmin parentXid c')
      else Some (False, c'))"

text \<open>
  The effect of \<^verbatim>\<open>TransactionIdSetTreeStatus\<close> that its callers rely on: the main xid and
  the given children take the status.
\<close>

definition set_tree_status ::
    "XidStatus \<Rightarrow> TransactionId \<Rightarrow> TransactionId list \<Rightarrow> clog \<Rightarrow> clog" where
  "set_tree_status st xid xids clog = (\<lambda>x. if x = xid \<or> x \<in> set xids then st else clog x)"

definition TransactionIdCommitTree :: "TransactionId \<Rightarrow> TransactionId list \<Rightarrow> clog \<Rightarrow> clog" where
  "TransactionIdCommitTree xid xids = set_tree_status TRANSACTION_STATUS_COMMITTED xid xids"

text \<open>The LSN argument of the asynchronous variant only delays the page write.\<close>

definition TransactionIdAsyncCommitTree ::
    "TransactionId \<Rightarrow> TransactionId list \<Rightarrow> nat \<Rightarrow> clog \<Rightarrow> clog" where
  "TransactionIdAsyncCommitTree xid xids lsn =
     set_tree_status TRANSACTION_STATUS_COMMITTED xid xids"

definition TransactionIdAbortTree :: "TransactionId \<Rightarrow> TransactionId list \<Rightarrow> clog \<Rightarrow> clog" where
  "TransactionIdAbortTree xid xids = set_tree_status TRANSACTION_STATUS_ABORTED xid xids"

end
