(* ===== verification/Xact_State.thy ===== *)
theory Xact_State
  imports Transam
begin

section \<open>Transaction state of a backend (xact.c): data and queries\<close>

text \<open>
  The stack of \<^verbatim>\<open>TransactionStateData\<close> blocks, the file-level variables of
  \<^verbatim>\<open>xact.c\<close>, and the read-only routines over them. \<^verbatim>\<open>CurrentTransactionState\<close> is the
  field \<open>cur\<close>; the \<open>parent\<close> links are the list \<open>parents\<close>, nearest first, so
  \<^verbatim>\<open>TopTransactionStateData\<close> is the last element of \<open>cur # parents\<close> and
  \<open>parent == NULL\<close> is \<open>parents = []\<close>. Calls into other modules of the server are
  recorded in the field \<open>trace\<close>, in order; memory contexts, timestamps and statement
  sampling are not represented.
\<close>

datatype TransState =
    TRANS_DEFAULT | TRANS_START | TRANS_INPROGRESS | TRANS_COMMIT | TRANS_ABORT | TRANS_PREPARE

datatype TBlockState =
    TBLOCK_DEFAULT | TBLOCK_STARTED
  | TBLOCK_BEGIN | TBLOCK_INPROGRESS | TBLOCK_IMPLICIT_INPROGRESS | TBLOCK_PARALLEL_INPROGRESS
  | TBLOCK_END | TBLOCK_ABORT | TBLOCK_ABORT_END | TBLOCK_ABORT_PENDING | TBLOCK_PREPARE
  | TBLOCK_SUBBEGIN | TBLOCK_SUBINPROGRESS | TBLOCK_SUBRELEASE | TBLOCK_SUBCOMMIT
  | TBLOCK_SUBABORT | TBLOCK_SUBABORT_END | TBLOCK_SUBABORT_PENDING
  | TBLOCK_SUBRESTART | TBLOCK_SUBABORT_RESTART

type_synonym SubTransactionId = "32 word"
type_synonym CommandId = "32 word"
type_synonym owner = nat

definition InvalidSubTransactionId :: SubTransactionId where "InvalidSubTransactionId = 0"
definition TopSubTransactionId :: SubTransactionId where "TopSubTransactionId = 1"
definition FirstCommandId :: CommandId where "FirstCommandId = 0"
definition InvalidCommandId :: CommandId where "InvalidCommandId = not 0"

record TransactionStateData =
  fullTransactionId :: FullTransactionId
  subTransactionId :: SubTransactionId
  name :: "string option"
  savepointLevel :: nat
  state :: TransState
  blockState :: TBlockState
  nestingLevel :: nat
  gucNestLevel :: nat
  curTransactionOwner :: "owner option"
  childXids :: "TransactionId list"
  maxChildXids :: nat
  prevUser :: nat
  prevSecContext :: nat
  prevXactReadOnly :: bool
  startedInRecovery :: bool
  didLogXid :: bool
  parallelModeLevel :: nat
  chain :: bool
  assigned :: bool

text \<open>
  The statically initialised \<^verbatim>\<open>TopTransactionStateData\<close>, and the zero-filled block that
  \<^verbatim>\<open>PushTransaction\<close> allocates (\<^verbatim>\<open>MemoryContextAllocZero\<close>): every field is zero.
\<close>

definition zero_TransactionStateData :: TransactionStateData where
  "zero_TransactionStateData =
     \<lparr> fullTransactionId = 0, subTransactionId = 0, name = None, savepointLevel = 0,
       state = TRANS_DEFAULT, blockState = TBLOCK_DEFAULT, nestingLevel = 0, gucNestLevel = 0,
       curTransactionOwner = None, childXids = [], maxChildXids = 0, prevUser = 0,
       prevSecContext = 0, prevXactReadOnly = False, startedInRecovery = False,
       didLogXid = False, parallelModeLevel = 0, chain = False, assigned = False \<rparr>"

subsection \<open>Calls into other modules\<close>

datatype xarg = ABool bool | ANat nat | AXid "32 word" | AXids "TransactionId list"
  | AOwner "owner option"

datatype release_phase =
    RESOURCE_RELEASE_BEFORE_LOCKS | RESOURCE_RELEASE_LOCKS | RESOURCE_RELEASE_AFTER_LOCKS

datatype xcall =
    Call string "xarg list"
  | XactLogCommitRecord TransactionId "TransactionId list"
  | XactLogAbortRecord TransactionId "TransactionId list"
  | XLogFlush nat
  | SetTreeStatus XidStatus TransactionId "TransactionId list" "nat option"
  | ProcArrayEndTransaction TransactionId
  | ResourceOwnerRelease "owner option" release_phase bool bool
  | Warning string

text \<open>
  \<open>SetTreeStatus\<close> records the call that sets the status of a transaction tree in \<open>pg_xact\<close>, with the WAL
  position an asynchronous commit has to wait for.

  \<open>xenv\<close> collects what the routines read from elsewhere: configuration variables, the
  answers of other modules, and \<open>raises\<close>, the names of the routines called before the
  point of no return that will raise an \<^verbatim>\<open>ERROR\<close> (deferred triggers and the like run
  user-defined code).
\<close>

record xenv =
  DefaultXactReadOnly :: bool
  DefaultXactDeferrable :: bool
  DefaultXactIsoLevel :: nat
  RecoveryInProgress :: bool
  IsParallelWorker :: bool
  XLogStandbyInfoActive :: bool
  XLogLogicalInfoActive :: bool
  synchronous_commit_on :: bool
  replorigin :: bool
  nrels :: nat
  nmsgs :: nat
  XactHasExportedSnapshots :: bool
  FirstSnapshotSet :: bool
  portal_rounds :: nat
  TransactionXmin :: TransactionId
  raises :: "string list"

record backend =
  cur :: TransactionStateData
  parents :: "TransactionStateData list"
  XactTopFullTransactionId :: FullTransactionId
  ParallelCurrentXids :: "TransactionId list"
  currentSubTransactionId :: SubTransactionId
  currentCommandId :: CommandId
  currentCommandIdUsed :: bool
  unreportedXids :: "TransactionId list"
  XactIsoLevel :: nat
  XactReadOnly :: bool
  XactDeferrable :: bool
  save_XactIsoLevel :: nat
  save_XactReadOnly :: bool
  save_XactDeferrable :: bool
  forceSyncCommit :: bool
  MyXactFlags :: "32 word"
  prepareGID :: "string option"
  CurrentResourceOwner :: "owner option"
  CurTransactionResourceOwner :: "owner option"
  TopTransactionResourceOwner :: "owner option"
  wal_pos :: nat
  XactLastRecEnd :: nat
  XactLastCommitEnd :: nat
  CurrentUserId :: nat
  SecurityRestrictionContext :: nat
  GUCNestLevel :: nat
  owner_seq :: owner
  xid_source :: "FullTransactionId list"
  pg_xact :: "TransactionId \<Rightarrow> XidStatus"
  pg_subtrans :: "TransactionId \<rightharpoonup> TransactionId"
  xact_cache :: fetch_cache
  trace :: "xcall list"
  env :: xenv

type_synonym xstmt = "backend stmt"

subsection \<open>Access to the stack\<close>

definition stack :: "backend \<Rightarrow> TransactionStateData list" where
  "stack b = cur b # parents b"

definition top :: "backend \<Rightarrow> TransactionStateData" where
  "top b = last (stack b)"

definition set_cur :: "(TransactionStateData \<Rightarrow> TransactionStateData) \<Rightarrow> backend \<Rightarrow> backend" where
  "set_cur f b = b\<lparr>cur := f (cur b)\<rparr>"

definition set_stack :: "TransactionStateData list \<Rightarrow> backend \<Rightarrow> backend" where
  "set_stack ss b = (case ss of [] \<Rightarrow> b | s # ps \<Rightarrow> b\<lparr>cur := s, parents := ps\<rparr>)"

definition set_top :: "(TransactionStateData \<Rightarrow> TransactionStateData) \<Rightarrow> backend \<Rightarrow> backend" where
  "set_top f b =
     (if parents b = [] then b\<lparr>cur := f (cur b)\<rparr>
      else b\<lparr>parents := butlast (parents b) @ [f (last (parents b))]\<rparr>)"

text \<open>\<open>s->parent\<close>, where the routine dereferences it.\<close>

definition parent :: "backend \<Rightarrow> TransactionStateData" where
  "parent b = hd (parents b)"

definition emit :: "(backend \<Rightarrow> xcall list) \<Rightarrow> xstmt" where
  "emit f b = Inr (b\<lparr>trace := trace b @ f b\<rparr>)"

text \<open>A call that may run user-defined code, and so may raise.\<close>

definition ext :: "string \<Rightarrow> xarg list \<Rightarrow> xstmt" where
  "ext f args b =
     (if f \<in> set (raises (env b)) then Inl (ERROR f, b)
      else Inr (b\<lparr>trace := trace b @ [Call f args]\<rparr>))"

definition set_state :: "TransState \<Rightarrow> xstmt" where
  "set_state st b = Inr (b\<lparr>cur := (cur b)\<lparr>state := st\<rparr>\<rparr>)"

definition set_blockState :: "TBlockState \<Rightarrow> xstmt" where
  "set_blockState bs b = Inr (b\<lparr>cur := (cur b)\<lparr>blockState := bs\<rparr>\<rparr>)"

lemmas [stmt_simps] = emit_def ext_def set_state_def set_blockState_def set_cur_def

lemma top_cur [simp]: "parents b = [] \<Longrightarrow> top b = cur b"
  by (simp add: top_def stack_def)

subsection \<open>Queries\<close>

definition IsTransactionState :: "backend \<Rightarrow> bool" where
  "IsTransactionState b \<longleftrightarrow> state (cur b) = TRANS_INPROGRESS"

definition IsAbortedTransactionBlockState :: "backend \<Rightarrow> bool" where
  "IsAbortedTransactionBlockState b \<longleftrightarrow>
     blockState (cur b) = TBLOCK_ABORT \<or> blockState (cur b) = TBLOCK_SUBABORT"

definition GetTopTransactionIdIfAny :: "backend \<Rightarrow> TransactionId" where
  "GetTopTransactionIdIfAny b = XidFromFullTransactionId (XactTopFullTransactionId b)"

definition GetCurrentTransactionIdIfAny :: "backend \<Rightarrow> TransactionId" where
  "GetCurrentTransactionIdIfAny b = XidFromFullTransactionId (fullTransactionId (cur b))"

definition GetTopFullTransactionIdIfAny :: "backend \<Rightarrow> FullTransactionId" where
  "GetTopFullTransactionIdIfAny b = XactTopFullTransactionId b"

definition GetCurrentFullTransactionIdIfAny :: "backend \<Rightarrow> FullTransactionId" where
  "GetCurrentFullTransactionIdIfAny b = fullTransactionId (cur b)"

definition MarkCurrentTransactionIdLoggedIfAny :: "backend \<Rightarrow> backend" where
  "MarkCurrentTransactionIdLoggedIfAny b =
     (if FullTransactionIdIsValid (fullTransactionId (cur b))
      then b\<lparr>cur := (cur b)\<lparr>didLogXid := True\<rparr>\<rparr> else b)"

definition GetCurrentSubTransactionId :: "backend \<Rightarrow> SubTransactionId" where
  "GetCurrentSubTransactionId b = subTransactionId (cur b)"

definition SubTransactionIsActive :: "SubTransactionId \<Rightarrow> backend \<Rightarrow> bool" where
  "SubTransactionIsActive subxid b =
     list_ex (\<lambda>s. state s \<noteq> TRANS_ABORT \<and> subTransactionId s = subxid) (stack b)"

definition GetCurrentCommandId :: "bool \<Rightarrow> backend \<Rightarrow> (backend, CommandId) vres" where
  "GetCurrentCommandId used b =
     (if used \<and> IsParallelWorker (env b) then Inl (AssertFail ''!IsParallelWorker()'', b)
      else Inr (currentCommandId b, if used then b\<lparr>currentCommandIdUsed := True\<rparr> else b))"

definition GetCurrentTransactionNestLevel :: "backend \<Rightarrow> nat" where
  "GetCurrentTransactionNestLevel b = nestingLevel (cur b)"

definition IsInParallelMode :: "backend \<Rightarrow> bool" where
  "IsInParallelMode b \<longleftrightarrow> parallelModeLevel (cur b) \<noteq> 0"

definition EnterParallelMode :: "backend \<Rightarrow> backend" where
  "EnterParallelMode b =
     b\<lparr>cur := (cur b)\<lparr>parallelModeLevel := parallelModeLevel (cur b) + 1\<rparr>\<rparr>"

text \<open>\<^verbatim>\<open>ExitParallelMode\<close> asserts a positive level; \<open>active\<close> is \<^verbatim>\<open>ParallelContextActive()\<close>.\<close>

definition ExitParallelMode :: "bool \<Rightarrow> xstmt" where
  "ExitParallelMode active = seq
     [ assert_that ''s->parallelModeLevel > 0'' (\<lambda>b. parallelModeLevel (cur b) > 0),
       assert_that ''s->parallelModeLevel > 1 || !ParallelContextActive()''
         (\<lambda>b. parallelModeLevel (cur b) > 1 \<or> \<not> active),
       upd (set_cur (\<lambda>s. s\<lparr>parallelModeLevel := parallelModeLevel s - 1\<rparr>)) ]"

definition IsTransactionBlock :: "backend \<Rightarrow> bool" where
  "IsTransactionBlock b \<longleftrightarrow>
     \<not> (blockState (cur b) = TBLOCK_DEFAULT \<or> blockState (cur b) = TBLOCK_STARTED)"

definition IsTransactionOrTransactionBlock :: "backend \<Rightarrow> bool" where
  "IsTransactionOrTransactionBlock b \<longleftrightarrow> blockState (cur b) \<noteq> TBLOCK_DEFAULT"

definition IsSubTransaction :: "backend \<Rightarrow> bool" where
  "IsSubTransaction b \<longleftrightarrow> nestingLevel (cur b) \<ge> 2"

fun block_status_code :: "TBlockState \<Rightarrow> char" where
  "block_status_code TBLOCK_DEFAULT = CHR ''I''"
| "block_status_code TBLOCK_STARTED = CHR ''I''"
| "block_status_code TBLOCK_BEGIN = CHR ''T''"
| "block_status_code TBLOCK_SUBBEGIN = CHR ''T''"
| "block_status_code TBLOCK_INPROGRESS = CHR ''T''"
| "block_status_code TBLOCK_IMPLICIT_INPROGRESS = CHR ''T''"
| "block_status_code TBLOCK_PARALLEL_INPROGRESS = CHR ''T''"
| "block_status_code TBLOCK_SUBINPROGRESS = CHR ''T''"
| "block_status_code TBLOCK_END = CHR ''T''"
| "block_status_code TBLOCK_SUBRELEASE = CHR ''T''"
| "block_status_code TBLOCK_SUBCOMMIT = CHR ''T''"
| "block_status_code TBLOCK_PREPARE = CHR ''T''"
| "block_status_code TBLOCK_ABORT = CHR ''E''"
| "block_status_code TBLOCK_SUBABORT = CHR ''E''"
| "block_status_code TBLOCK_ABORT_END = CHR ''E''"
| "block_status_code TBLOCK_SUBABORT_END = CHR ''E''"
| "block_status_code TBLOCK_ABORT_PENDING = CHR ''E''"
| "block_status_code TBLOCK_SUBABORT_PENDING = CHR ''E''"
| "block_status_code TBLOCK_SUBRESTART = CHR ''E''"
| "block_status_code TBLOCK_SUBABORT_RESTART = CHR ''E''"

definition TransactionBlockStatusCode :: "backend \<Rightarrow> char" where
  "TransactionBlockStatusCode b = block_status_code (blockState (cur b))"

text \<open>
  \<^verbatim>\<open>TransactionIdIsCurrentTransactionId\<close>: the loop over the state stack, one binary search
  per live entry that has an xid.
\<close>

fun xid_in_stack :: "TransactionId \<Rightarrow> TransactionStateData list \<Rightarrow> bool" where
  "xid_in_stack xid [] = False"
| "xid_in_stack xid (s # ss) =
     (if state s = TRANS_ABORT then xid_in_stack xid ss
      else if \<not> FullTransactionIdIsValid (fullTransactionId s) then xid_in_stack xid ss
      else if xid = XidFromFullTransactionId (fullTransactionId s) then True
      else if xid_bsearch TransactionIdPrecedes (childXids s) xid 0 (int (length (childXids s)) - 1)
      then True
      else xid_in_stack xid ss)"

definition TransactionIdIsCurrentTransactionId :: "TransactionId \<Rightarrow> backend \<Rightarrow> bool" where
  "TransactionIdIsCurrentTransactionId xid b =
     (if \<not> TransactionIdIsNormal xid then False
      else if xid = GetTopTransactionIdIfAny b then True
      else if length (ParallelCurrentXids b) > 0
      then xid_bsearch (<) (ParallelCurrentXids b) xid 0 (int (length (ParallelCurrentXids b)) - 1)
      else xid_in_stack xid (stack b))"

end
