(* ===== verification/Xact_Core.thy ===== *)
theory Xact_Core
  imports Xact_State
begin

section \<open>Low-level transaction and subtransaction processing (xact.c)\<close>

text \<open>
  XID assignment, the command counter, child-XID bookkeeping, the commit and abort
  records, and the routines that start, commit, prepare, abort and clean up a
  transaction or a subtransaction. Each is one definition over the backend state; the
  calls into other modules are emitted in the order of the source.
\<close>

subsection \<open>Resource owners, GUC nesting, WAL position\<close>

text \<open>\<^verbatim>\<open>ResourceOwnerCreate\<close> hands out a fresh handle; \<^verbatim>\<open>XLogInsert\<close> advances the end of WAL
  and remembers it in \<^verbatim>\<open>XactLastRecEnd\<close> (positions are counted in records).\<close>

definition ResourceOwnerCreate :: "backend \<Rightarrow> owner \<times> backend" where
  "ResourceOwnerCreate b = (owner_seq b, b\<lparr>owner_seq := owner_seq b + 1\<rparr>)"

definition XLogInsert :: "backend \<Rightarrow> backend" where
  "XLogInsert b = b\<lparr>wal_pos := wal_pos b + 1, XactLastRecEnd := wal_pos b + 1\<rparr>"

definition AtStart_ResourceOwner :: xstmt where
  "AtStart_ResourceOwner = seq
     [ assert_that ''TopTransactionResourceOwner == NULL''
         (\<lambda>b. TopTransactionResourceOwner b = None),
       upd (\<lambda>b. let (r, b') = ResourceOwnerCreate b in
              b'\<lparr>cur := (cur b')\<lparr>curTransactionOwner := Some r\<rparr>,
                 TopTransactionResourceOwner := Some r,
                 CurTransactionResourceOwner := Some r,
                 CurrentResourceOwner := Some r\<rparr>) ]"

definition AtSubStart_ResourceOwner :: xstmt where
  "AtSubStart_ResourceOwner = seq
     [ assert_that ''s->parent != NULL'' (\<lambda>b. parents b \<noteq> []),
       upd (\<lambda>b. let (r, b') = ResourceOwnerCreate b in
              b'\<lparr>cur := (cur b')\<lparr>curTransactionOwner := Some r\<rparr>,
                 CurTransactionResourceOwner := Some r,
                 CurrentResourceOwner := Some r\<rparr>) ]"

definition AtAbort_ResourceOwner :: "backend \<Rightarrow> backend" where
  "AtAbort_ResourceOwner b = b\<lparr>CurrentResourceOwner := TopTransactionResourceOwner b\<rparr>"

definition AtSubAbort_ResourceOwner :: "backend \<Rightarrow> backend" where
  "AtSubAbort_ResourceOwner b = b\<lparr>CurrentResourceOwner := curTransactionOwner (cur b)\<rparr>"

definition NewGUCNestLevel :: "backend \<Rightarrow> nat \<times> backend" where
  "NewGUCNestLevel b = (GUCNestLevel b + 1, b\<lparr>GUCNestLevel := GUCNestLevel b + 1\<rparr>)"

definition AtEOXact_GUC :: "bool \<Rightarrow> nat \<Rightarrow> backend \<Rightarrow> backend" where
  "AtEOXact_GUC isCommit nestLevel b =
     b\<lparr>GUCNestLevel := nestLevel - 1,
       trace := trace b @ [Call ''AtEOXact_GUC'' [ABool isCommit, ANat nestLevel]]\<rparr>"

subsection \<open>Command counter\<close>

definition CommandCounterIncrement :: xstmt where
  "CommandCounterIncrement =
     when_do currentCommandIdUsed (seq
       [ when_do (\<lambda>b. IsInParallelMode b \<or> IsParallelWorker (env b))
           (raise (ERROR ''cannot start commands during a parallel operation'')),
         with_state (\<lambda>b. if currentCommandId b + 1 = InvalidCommandId
           then raise (ERROR ''cannot have more than 2^32-2 commands in a transaction'')
           else upd (\<lambda>b. b\<lparr>currentCommandId := currentCommandId b + 1\<rparr>)),
         upd (\<lambda>b. b\<lparr>currentCommandIdUsed := False\<rparr>),
         emit (\<lambda>b. [Call ''SnapshotSetCommandId'' [AXid (currentCommandId b)],
                    Call ''AtCCI_LocalCache'' []]) ])"

subsection \<open>XID assignment\<close>

text \<open>
  The ids this backend will be handed by \<^verbatim>\<open>GetNewTransactionId\<close> are the list
  \<open>xid_source\<close>; when it is exhausted the routine raises, as it does near wraparound.
\<close>

definition GetNewTransactionId :: "backend \<Rightarrow> (backend, FullTransactionId) vres" where
  "GetNewTransactionId b =
     (case xid_source b of
        [] \<Rightarrow> Inl (ERROR ''database is not accepting commands to avoid wraparound data loss'', b)
      | x # xs \<Rightarrow> Inr (x, b\<lparr>xid_source := xs\<rparr>))"

definition upd_entry ::
    "nat \<Rightarrow> (TransactionStateData \<Rightarrow> TransactionStateData) \<Rightarrow> backend \<Rightarrow> backend" where
  "upd_entry i f b = set_stack ((stack b)[i := f (stack b ! i)]) b"

definition PGPROC_MAX_CACHED_SUBXIDS :: nat where
  "PGPROC_MAX_CACHED_SUBXIDS = 64"

text \<open>
  The end of \<^verbatim>\<open>AssignTransactionId\<close>: every 64 subtransaction ids a WAL record ties them to the
  top-level xid, which has been assigned by then, so \<^verbatim>\<open>GetTopTransactionId()\<close> only reads it.
\<close>

definition report_subxid :: "bool \<Rightarrow> bool \<Rightarrow> FullTransactionId \<Rightarrow> xstmt" where
  "report_subxid isSubXact log_unknown_top fxid =
     when_do (\<lambda>b. isSubXact \<and> XLogStandbyInfoActive (env b)) (seq
       [ upd (\<lambda>b. b\<lparr>unreportedXids := unreportedXids b @ [XidFromFullTransactionId fxid]\<rparr>),
         when_do (\<lambda>b. length (unreportedXids b) \<ge> PGPROC_MAX_CACHED_SUBXIDS \<or> log_unknown_top) (seq
           [ assert_that ''TransactionIdIsValid(xlrec.xtop)''
               (\<lambda>b. TransactionIdIsValid (GetTopTransactionIdIfAny b)),
             emit (\<lambda>b. [Call ''XLOG_XACT_ASSIGNMENT''
                 [AXid (GetTopTransactionIdIfAny b), AXids (unreportedXids b)]]),
             upd XLogInsert,
             upd (\<lambda>b. b\<lparr>unreportedXids := []\<rparr>),
             upd (set_top (\<lambda>s. s\<lparr>didLogXid := True\<rparr>)) ]) ])"

text \<open>
  The part of \<^verbatim>\<open>AssignTransactionId\<close> after the parents are known to have xids, for the
  stack entry with index \<open>i\<close> (0 is the current one).
\<close>

definition assign_entry :: "nat \<Rightarrow> xstmt" where
  "assign_entry i = with_state (\<lambda>b0.
     let isSubXact = (i + 1 < length (stack b0));
         log_unknown_top = (isSubXact \<and> XLogLogicalInfoActive (env b0) \<and> \<not> didLogXid (top b0)) in
     let_do GetNewTransactionId (\<lambda>fxid. seq
       [ upd (upd_entry i (\<lambda>s. s\<lparr>fullTransactionId := fxid\<rparr>)),
         when_do (\<lambda>b. \<not> isSubXact) (upd (\<lambda>b. b\<lparr>XactTopFullTransactionId := fxid\<rparr>)),
         when_do (\<lambda>b. isSubXact) (upd (\<lambda>b. b\<lparr>pg_subtrans := (pg_subtrans b)
             (XidFromFullTransactionId fxid \<mapsto>
                XidFromFullTransactionId (fullTransactionId (stack b ! (i + 1))))\<rparr>)),
         when_do (\<lambda>b. \<not> isSubXact)
           (emit (\<lambda>b. [Call ''RegisterPredicateLockingXid'' [AXid (XidFromFullTransactionId fxid)]])),
         with_state (\<lambda>b. let currentOwner = CurrentResourceOwner b in seq
           [ upd (\<lambda>b. b\<lparr>CurrentResourceOwner := curTransactionOwner (stack b ! i)\<rparr>),
             emit (\<lambda>b. [Call ''XactLockTableInsert'' [AXid (XidFromFullTransactionId fxid),
                          AOwner (CurrentResourceOwner b)]]),
             upd (\<lambda>b. b\<lparr>CurrentResourceOwner := currentOwner\<rparr>) ]),
         report_subxid isSubXact log_unknown_top fxid ]))"

definition assign_checks :: "nat \<Rightarrow> xstmt" where
  "assign_checks i = seq
     [ assert_that ''!FullTransactionIdIsValid(s->fullTransactionId)''
         (\<lambda>b. \<not> FullTransactionIdIsValid (fullTransactionId (stack b ! i))),
       assert_that ''s->state == TRANS_INPROGRESS''
         (\<lambda>b. state (stack b ! i) = TRANS_INPROGRESS),
       when_do (\<lambda>b. IsInParallelMode b \<or> IsParallelWorker (env b))
         (raise (ERROR ''cannot assign XIDs during a parallel operation'')) ]"

text \<open>
  The ancestors without an xid, nearest first. \<^verbatim>\<open>AssignTransactionId\<close> collects them and
  assigns from the outermost inwards; each of those calls finds its own parent assigned,
  so the recursion is one level deep and is unfolded here.
\<close>

definition unassigned_parents :: "nat \<Rightarrow> backend \<Rightarrow> nat list" where
  "unassigned_parents i b =
     takeWhile (\<lambda>j. \<not> FullTransactionIdIsValid (fullTransactionId (stack b ! j)))
       [i + 1..<length (stack b)]"

definition assign_parent :: "nat \<Rightarrow> xstmt" where
  "assign_parent j = seq [assign_checks j, assign_entry j]"

definition AssignTransactionId :: "nat \<Rightarrow> xstmt" where
  "AssignTransactionId i = seq
     [ assign_checks i,
       with_state (\<lambda>b. seq (map assign_parent (rev (unassigned_parents i b)))),
       assign_entry i ]"

definition GetCurrentTransactionId :: "backend \<Rightarrow> (backend, TransactionId) vres" where
  "GetCurrentTransactionId b =
     (if \<not> FullTransactionIdIsValid (fullTransactionId (cur b))
      then (case AssignTransactionId 0 b of Inl e \<Rightarrow> Inl e
            | Inr b' \<Rightarrow> Inr (XidFromFullTransactionId (fullTransactionId (cur b')), b'))
      else Inr (XidFromFullTransactionId (fullTransactionId (cur b)), b))"

definition GetTopTransactionId :: "backend \<Rightarrow> (backend, TransactionId) vres" where
  "GetTopTransactionId b =
     (if \<not> FullTransactionIdIsValid (XactTopFullTransactionId b)
      then (case AssignTransactionId (length (parents b)) b of Inl e \<Rightarrow> Inl e
            | Inr b' \<Rightarrow> Inr (XidFromFullTransactionId (XactTopFullTransactionId b'), b'))
      else Inr (XidFromFullTransactionId (XactTopFullTransactionId b), b))"

subsection \<open>Child XIDs\<close>

text \<open>\<^verbatim>\<open>MaxAllocSize / sizeof(TransactionId)\<close>.\<close>

definition MaxChildXids :: nat where
  "MaxChildXids = 0x3fffffff div 4"

text \<open>
  \<^verbatim>\<open>AtSubCommit_childXids\<close>: the array of the parent grows to twice what is needed, within
  the allocation limit, and receives the xid of the subtransaction before those of its
  own children.
\<close>

definition AtSubCommit_childXids :: xstmt where
  "AtSubCommit_childXids = seq
     [ assert_that ''s->parent != NULL'' (\<lambda>b. parents b \<noteq> []),
       with_state (\<lambda>b.
         let s = cur b; p = parent b;
             new_nChildXids = length (childXids p) + length (childXids s) + 1;
             new_maxChildXids = min (new_nChildXids * 2) MaxChildXids in
         if maxChildXids p < new_nChildXids \<and> new_maxChildXids < new_nChildXids
         then raise (ERROR ''maximum number of committed subtransactions exceeded'')
         else upd (\<lambda>b. b
           \<lparr>parents := p\<lparr>maxChildXids := (if maxChildXids p < new_nChildXids
                                             then new_maxChildXids else maxChildXids p),
                         childXids := childXids p @
                           [XidFromFullTransactionId (fullTransactionId s)] @ childXids s\<rparr>
                       # tl (parents b),
            cur := s\<lparr>childXids := [], maxChildXids := 0\<rparr>\<rparr>)) ]"

definition AtSubAbort_childXids :: "backend \<Rightarrow> backend" where
  "AtSubAbort_childXids b = b\<lparr>cur := (cur b)\<lparr>childXids := [], maxChildXids := 0\<rparr>\<rparr>"

definition xactGetCommittedChildren :: "backend \<Rightarrow> TransactionId list" where
  "xactGetCommittedChildren b = childXids (cur b)"

subsection \<open>Commit and abort records\<close>

text \<open>
  \<^verbatim>\<open>RecordTransactionCommit\<close>: the commit record is written only for a transaction with an
  xid, the log is flushed or the flush left to the WAL writer, and only then the status
  is set in \<open>pg_xact\<close>. The first part writes the record, the second makes it durable and
  sets the status.
\<close>

definition RecordTransactionCommit_log ::
    "TransactionId \<Rightarrow> bool \<Rightarrow> nat \<Rightarrow> nat \<Rightarrow> TransactionId list \<Rightarrow> xstmt" where
  "RecordTransactionCommit_log xid markXidCommitted n_rels n_msgs children = if_do (\<lambda>b. \<not> markXidCommitted)
     (seq
       [ when_do (\<lambda>b. n_rels \<noteq> 0)
           (raise (ERROR ''cannot commit a transaction that deleted files but has no xid'')),
         assert_that ''nchildren == 0'' (\<lambda>b. children = []),
         when_do (\<lambda>b. n_msgs \<noteq> 0) (seq
           [ emit (\<lambda>b. [Call ''LogStandbyInvalidations'' [ANat n_msgs]]), upd XLogInsert ]) ])
     (seq
       [ emit (\<lambda>b. [Call ''BufmgrCommit'' [], XactLogCommitRecord xid children]),
         upd XLogInsert,
         when_do (\<lambda>b. replorigin (env b))
           (emit (\<lambda>b. [Call ''replorigin_session_advance'' [ANat (XactLastRecEnd b)]])),
         emit (\<lambda>b. [Call ''TransactionTreeSetCommitTsData'' [AXid xid, AXids children]]) ])"

definition RecordTransactionCommit_mark ::
    "TransactionId \<Rightarrow> bool \<Rightarrow> bool \<Rightarrow> nat \<Rightarrow> TransactionId list \<Rightarrow> xstmt" where
  "RecordTransactionCommit_mark xid markXidCommitted wrote_xlog n_rels children = seq
     [ if_do (\<lambda>b. (wrote_xlog \<and> markXidCommitted \<and> synchronous_commit_on (env b)) \<or>
                  forceSyncCommit b \<or> n_rels > 0)
         (seq [ emit (\<lambda>b. [XLogFlush (XactLastRecEnd b)]),
                when_do (\<lambda>b. markXidCommitted) (upd (\<lambda>b. b
                  \<lparr>trace := trace b @ [SetTreeStatus TRANSACTION_STATUS_COMMITTED xid children None],
                   pg_xact := TransactionIdCommitTree xid children (pg_xact b)\<rparr>)) ])
         (seq [ emit (\<lambda>b. [Call ''XLogSetAsyncXactLSN'' [ANat (XactLastRecEnd b)]]),
                when_do (\<lambda>b. markXidCommitted) (upd (\<lambda>b. b
                  \<lparr>trace := trace b @ [SetTreeStatus TRANSACTION_STATUS_COMMITTED xid children (Some (XactLastRecEnd b))],
                   pg_xact := TransactionIdAsyncCommitTree xid children (XactLastRecEnd b) (pg_xact b)\<rparr>)) ]),
       when_do (\<lambda>b. wrote_xlog \<and> markXidCommitted)
         (emit (\<lambda>b. [Call ''SyncRepWaitForLSN'' [ANat (XactLastRecEnd b), ABool True]])),
       upd (\<lambda>b. b\<lparr>XactLastCommitEnd := XactLastRecEnd b, XactLastRecEnd := 0\<rparr>) ]"

definition RecordTransactionCommit :: "backend \<Rightarrow> (backend, TransactionId) vres" where
  "RecordTransactionCommit b0 =
     (let xid = GetTopTransactionIdIfAny b0;
          markXidCommitted = TransactionIdIsValid xid;
          b1 = (if XLogLogicalInfoActive (env b0)
                then b0\<lparr>trace := trace b0 @ [Call ''LogLogicalInvalidations'' []]\<rparr> else b0);
          n_rels = nrels (env b1);
          children = xactGetCommittedChildren b1;
          n_msgs = (if XLogStandbyInfoActive (env b1) then nmsgs (env b1) else 0);
          wrote_xlog = (XactLastRecEnd b1 \<noteq> 0 \<or> \<not> markXidCommitted \<and> n_msgs \<noteq> 0) in
      case RecordTransactionCommit_log xid markXidCommitted n_rels n_msgs children b1 of
        Inl e \<Rightarrow> Inl e
      | Inr b2 \<Rightarrow>
          if \<not> markXidCommitted \<and> \<not> wrote_xlog then Inr (InvalidTransactionId, b2)
          else case RecordTransactionCommit_mark xid markXidCommitted wrote_xlog n_rels children b2 of
              Inl e \<Rightarrow> Inl e
            | Inr b3 \<Rightarrow> Inr (TransactionIdLatest xid children, b3))"

definition RecordTransactionAbort :: "bool \<Rightarrow> backend \<Rightarrow> (backend, TransactionId) vres" where
  "RecordTransactionAbort isSubXact b0 =
     (let xid = GetCurrentTransactionIdIfAny b0 in
      if \<not> TransactionIdIsValid xid
      then Inr (InvalidTransactionId, if \<not> isSubXact then b0\<lparr>XactLastRecEnd := 0\<rparr> else b0)
      else case TransactionIdDidCommit (pg_xact b0) (pg_subtrans b0) (TransactionXmin (env b0)) xid
                  (xact_cache b0) of
          None \<Rightarrow> Inl (PANIC ''TransactionIdDidCommit does not return'', b0)
        | Some (True, c) \<Rightarrow>
            Inl (PANIC ''cannot abort transaction, it was already committed'', b0\<lparr>xact_cache := c\<rparr>)
        | Some (False, c) \<Rightarrow>
            (let b1 = b0\<lparr>xact_cache := c\<rparr>;
                 children = xactGetCommittedChildren b1;
                 b2 = XLogInsert (b1\<lparr>trace := trace b1 @ [XactLogAbortRecord xid children]\<rparr>);
                 b3 = (if \<not> isSubXact
                       then b2\<lparr>trace := trace b2 @
                              [Call ''XLogSetAsyncXactLSN'' [ANat (XactLastRecEnd b2)]]\<rparr> else b2);
                 b4 = b3\<lparr>trace := trace b3 @ [SetTreeStatus TRANSACTION_STATUS_ABORTED xid children None],
                          pg_xact := TransactionIdAbortTree xid children (pg_xact b3)\<rparr>;
                 latestXid = TransactionIdLatest xid children;
                 b5 = (if isSubXact
                       then b4\<lparr>trace := trace b4 @ [Call ''XidCacheRemoveRunningXids''
                              [AXid xid, AXids children, AXid latestXid]]\<rparr> else b4) in
             Inr (latestXid, if \<not> isSubXact then b5\<lparr>XactLastRecEnd := 0\<rparr> else b5)))"

subsection \<open>Starting a transaction\<close>

definition StartTransaction :: xstmt where
  "StartTransaction = seq
     [ upd (\<lambda>b. b\<lparr>cur := top b, parents := []\<rparr>),
       assert_that ''!FullTransactionIdIsValid(XactTopFullTransactionId)''
         (\<lambda>b. \<not> FullTransactionIdIsValid (XactTopFullTransactionId b)),
       assert_that ''s->state == TRANS_DEFAULT'' (\<lambda>b. state (cur b) = TRANS_DEFAULT),
       set_state TRANS_START,
       upd (set_cur (\<lambda>s. s\<lparr>fullTransactionId := InvalidFullTransactionId\<rparr>)),
       upd (set_cur (\<lambda>s. s\<lparr>nestingLevel := 1, gucNestLevel := 1, childXids := [],
                           maxChildXids := 0\<rparr>)),
       upd (\<lambda>b. b\<lparr>cur := (cur b)\<lparr>prevUser := CurrentUserId b,
                                  prevSecContext := SecurityRestrictionContext b\<rparr>\<rparr>),
       assert_that ''s->prevSecContext == 0'' (\<lambda>b. prevSecContext (cur b) = 0),
       if_do (\<lambda>b. RecoveryInProgress (env b))
         (upd (\<lambda>b. b\<lparr>cur := (cur b)\<lparr>startedInRecovery := True\<rparr>, XactReadOnly := True\<rparr>))
         (upd (\<lambda>b. b\<lparr>cur := (cur b)\<lparr>startedInRecovery := False\<rparr>,
                     XactReadOnly := DefaultXactReadOnly (env b)\<rparr>)),
       upd (\<lambda>b. b\<lparr>XactDeferrable := DefaultXactDeferrable (env b),
                  XactIsoLevel := DefaultXactIsoLevel (env b),
                  forceSyncCommit := False, MyXactFlags := 0\<rparr>),
       upd (\<lambda>b. b\<lparr>cur := (cur b)\<lparr>subTransactionId := TopSubTransactionId\<rparr>,
                  currentSubTransactionId := TopSubTransactionId,
                  currentCommandId := FirstCommandId,
                  currentCommandIdUsed := False\<rparr>),
       upd (\<lambda>b. b\<lparr>cur := (cur b)\<lparr>didLogXid := False\<rparr>, unreportedXids := []\<rparr>),
       emit (\<lambda>b. [Call ''AtStart_Memory'' []]),
       AtStart_ResourceOwner,
       emit (\<lambda>b. [Call ''VirtualXactLockTableInsert'' [],
                  Call ''pgstat_report_xact_timestamp'' []]),
       upd (\<lambda>b. b\<lparr>GUCNestLevel := 1\<rparr>),
       emit (\<lambda>b. [Call ''AtStart_GUC'' [], Call ''AtStart_Cache'' [],
                  Call ''AfterTriggerBeginXact'' []]),
       set_state TRANS_INPROGRESS ]"

subsection \<open>Committing\<close>

text \<open>
  The loop that fires deferred triggers and closes portals until no portal was open:
  \<open>n\<close> is the number of rounds in which \<^verbatim>\<open>PreCommit_Portals\<close> reports that it closed some.
\<close>

fun precommit_portals :: "bool \<Rightarrow> nat \<Rightarrow> xstmt" where
  "precommit_portals isPrepare 0 = seq
     [ ext ''AfterTriggerFireDeferred'' [], ext ''PreCommit_Portals'' [ABool isPrepare] ]"
| "precommit_portals isPrepare (Suc n) = seq
     [ ext ''AfterTriggerFireDeferred'' [], ext ''PreCommit_Portals'' [ABool isPrepare],
       precommit_portals isPrepare n ]"

text \<open>The work before the point of no return.\<close>

definition CommitTransaction_precommit :: "bool \<Rightarrow> xstmt" where
  "CommitTransaction_precommit is_parallel_worker = seq
     [ when_do (\<lambda>b. is_parallel_worker) (upd EnterParallelMode),
       when_do (\<lambda>b. state (cur b) \<noteq> TRANS_INPROGRESS)
         (emit (\<lambda>b. [Warning ''CommitTransaction while in unexpected state''])),
       assert_that ''s->parent == NULL'' (\<lambda>b. parents b = []),
       with_state (\<lambda>b. precommit_portals False (portal_rounds (env b))),
       ext ''CallXactCallbacks_PRE_COMMIT'' [ABool is_parallel_worker],
       when_do IsInParallelMode (emit (\<lambda>b. [Call ''AtEOXact_Parallel'' [ABool True]])),
       ext ''AfterTriggerEndXact'' [ABool True],
       ext ''PreCommit_on_commit_actions'' [],
       ext ''smgrDoPendingSyncs'' [ABool True, ABool is_parallel_worker],
       ext ''AtEOXact_LargeObject'' [ABool True],
       ext ''PreCommit_Notify'' [],
       when_do (\<lambda>b. \<not> is_parallel_worker) (ext ''PreCommit_CheckForSerializationFailure'' []),
       ext ''AtEOXact_RelationMap'' [ABool True, ABool is_parallel_worker] ]"

text \<open>
  Forgetting the finished transaction: the assignments that end \<^verbatim>\<open>CommitTransaction\<close>,
  \<^verbatim>\<open>PrepareTransaction\<close> and \<^verbatim>\<open>CleanupTransaction\<close> alike.
\<close>

definition clear_owners :: "backend \<Rightarrow> backend" where
  "clear_owners b =
     b\<lparr>CurrentResourceOwner := None,
       cur := (cur b)\<lparr>curTransactionOwner := None\<rparr>,
       CurTransactionResourceOwner := None,
       TopTransactionResourceOwner := None\<rparr>"

definition reset_TransactionState :: "backend \<Rightarrow> backend" where
  "reset_TransactionState b =
     b\<lparr>cur := (cur b)\<lparr>fullTransactionId := InvalidFullTransactionId,
                     subTransactionId := InvalidSubTransactionId,
                     nestingLevel := 0, gucNestLevel := 0, childXids := [],
                     maxChildXids := 0\<rparr>,
       XactTopFullTransactionId := InvalidFullTransactionId,
       ParallelCurrentXids := []\<rparr>"

text \<open>Everything after the commit is recorded; \<open>latestXid\<close> is the result of recording it.\<close>

definition CommitTransaction_postcommit :: "bool \<Rightarrow> TransactionId \<Rightarrow> xstmt" where
  "CommitTransaction_postcommit is_parallel_worker latestXid = seq
     [ emit (\<lambda>b. [ProcArrayEndTransaction latestXid]),
       emit (\<lambda>b. [Call ''CallXactCallbacks_COMMIT'' [ABool is_parallel_worker],
         ResourceOwnerRelease (TopTransactionResourceOwner b) RESOURCE_RELEASE_BEFORE_LOCKS True True,
         Call ''AtEOXact_Buffers'' [ABool True],
         Call ''AtEOXact_RelationCache'' [ABool True],
         Call ''AtEOXact_Inval'' [ABool True],
         Call ''AtEOXact_MultiXact'' [],
         ResourceOwnerRelease (TopTransactionResourceOwner b) RESOURCE_RELEASE_LOCKS True True,
         ResourceOwnerRelease (TopTransactionResourceOwner b) RESOURCE_RELEASE_AFTER_LOCKS True True,
         Call ''smgrDoPendingDeletes'' [ABool True],
         Call ''AtCommit_Notify'' []]),
       upd (AtEOXact_GUC True 1),
       emit (\<lambda>b. [Call ''AtEOXact_SPI'' [ABool True], Call ''AtEOXact_Enum'' [],
         Call ''AtEOXact_on_commit_actions'' [ABool True],
         Call ''AtEOXact_Namespace'' [ABool True, ABool is_parallel_worker],
         Call ''AtEOXact_SMgr'' [], Call ''AtEOXact_Files'' [ABool True],
         Call ''AtEOXact_ComboCid'' [], Call ''AtEOXact_HashTables'' [ABool True],
         Call ''AtEOXact_PgStat'' [ABool True, ABool is_parallel_worker],
         Call ''AtEOXact_Snapshot'' [ABool True, ABool False],
         Call ''AtEOXact_ApplyLauncher'' [ABool True],
         Call ''pgstat_report_xact_timestamp'' []]),
       emit (\<lambda>b. [Call ''ResourceOwnerDelete'' [AOwner (TopTransactionResourceOwner b)]]),
       upd clear_owners,
       emit (\<lambda>b. [Call ''AtCommit_Memory'' []]),
       upd reset_TransactionState,
       set_state TRANS_DEFAULT ]"

definition CommitTransaction :: xstmt where
  "CommitTransaction = with_state (\<lambda>b0.
     let is_parallel_worker = (blockState (cur b0) = TBLOCK_PARALLEL_INPROGRESS) in seq
     [ CommitTransaction_precommit is_parallel_worker,
       set_state TRANS_COMMIT,
       upd (set_cur (\<lambda>s. s\<lparr>parallelModeLevel := 0\<rparr>)),
       if_do (\<lambda>b. \<not> is_parallel_worker)
         (let_do RecordTransactionCommit (CommitTransaction_postcommit is_parallel_worker))
         (seq [ emit (\<lambda>b. [Call ''ParallelWorkerReportLastRecEnd'' [ANat (XactLastRecEnd b)]]),
                CommitTransaction_postcommit is_parallel_worker InvalidTransactionId ]) ])"

subsection \<open>Preparing (two-phase commit)\<close>

definition XACT_FLAGS_ACCESSEDTEMPNAMESPACE :: "32 word" where
  "XACT_FLAGS_ACCESSEDTEMPNAMESPACE = push_bit 0 1"
definition XACT_FLAGS_NEEDIMMEDIATECOMMIT :: "32 word" where
  "XACT_FLAGS_NEEDIMMEDIATECOMMIT = push_bit 2 1"
definition XACT_FLAGS_PIPELINING :: "32 word" where
  "XACT_FLAGS_PIPELINING = push_bit 3 1"

definition PrepareTransaction_preprepare :: xstmt where
  "PrepareTransaction_preprepare = seq
     [ assert_that ''!IsInParallelMode()'' (\<lambda>b. \<not> IsInParallelMode b),
       when_do (\<lambda>b. state (cur b) \<noteq> TRANS_INPROGRESS)
         (emit (\<lambda>b. [Warning ''PrepareTransaction while in unexpected state''])),
       assert_that ''s->parent == NULL'' (\<lambda>b. parents b = []),
       with_state (\<lambda>b. precommit_portals True (portal_rounds (env b))),
       ext ''CallXactCallbacks_PRE_PREPARE'' [],
       ext ''AfterTriggerEndXact'' [ABool True],
       ext ''PreCommit_on_commit_actions'' [],
       ext ''smgrDoPendingSyncs'' [ABool True, ABool False],
       ext ''AtEOXact_LargeObject'' [ABool True],
       ext ''PreCommit_CheckForSerializationFailure'' [],
       when_do (\<lambda>b. and (MyXactFlags b) XACT_FLAGS_ACCESSEDTEMPNAMESPACE \<noteq> 0)
         (raise (ERROR ''cannot PREPARE a transaction that has operated on temporary objects'')),
       when_do (\<lambda>b. XactHasExportedSnapshots (env b))
         (raise (ERROR ''cannot PREPARE a transaction that has exported snapshots'')) ]"

definition PrepareTransaction_prepare :: "TransactionId \<Rightarrow> xstmt" where
  "PrepareTransaction_prepare xid = seq
     [ set_state TRANS_PREPARE,
       emit (\<lambda>b. [Call ''BufmgrCommit'' []]),
       ext ''MarkAsPreparing'' [AXid xid],
       upd (\<lambda>b. b\<lparr>prepareGID := None\<rparr>),
       ext ''StartPrepare'' [],
       ext ''AtPrepare_Notify'' [], ext ''AtPrepare_Locks'' [], ext ''AtPrepare_PredicateLocks'' [],
       ext ''AtPrepare_PgStat'' [], ext ''AtPrepare_MultiXact'' [], ext ''AtPrepare_RelationMap'' [],
       ext ''EndPrepare'' [] ]"

definition PrepareTransaction_cleanup :: "TransactionId \<Rightarrow> xstmt" where
  "PrepareTransaction_cleanup xid = seq
     [ upd (\<lambda>b. b\<lparr>XactLastRecEnd := 0\<rparr>),
       emit (\<lambda>b. [Call ''PostPrepare_Locks'' [AXid xid],
         Call ''ProcArrayClearTransaction'' [],
         Call ''CallXactCallbacks_PREPARE'' [],
         ResourceOwnerRelease (TopTransactionResourceOwner b) RESOURCE_RELEASE_BEFORE_LOCKS True True,
         Call ''AtEOXact_Buffers'' [ABool True],
         Call ''AtEOXact_RelationCache'' [ABool True],
         Call ''PostPrepare_PgStat'' [], Call ''PostPrepare_Inval'' [], Call ''PostPrepare_smgr'' [],
         Call ''PostPrepare_MultiXact'' [AXid xid], Call ''PostPrepare_PredicateLocks'' [AXid xid],
         ResourceOwnerRelease (TopTransactionResourceOwner b) RESOURCE_RELEASE_LOCKS True True,
         ResourceOwnerRelease (TopTransactionResourceOwner b) RESOURCE_RELEASE_AFTER_LOCKS True True,
         Call ''PostPrepare_Twophase'' []]),
       upd (AtEOXact_GUC True 1),
       emit (\<lambda>b. [Call ''AtEOXact_SPI'' [ABool True], Call ''AtEOXact_Enum'' [],
         Call ''AtEOXact_on_commit_actions'' [ABool True],
         Call ''AtEOXact_Namespace'' [ABool True, ABool False],
         Call ''AtEOXact_SMgr'' [], Call ''AtEOXact_Files'' [ABool True],
         Call ''AtEOXact_ComboCid'' [], Call ''AtEOXact_HashTables'' [ABool True],
         Call ''AtEOXact_Snapshot'' [ABool True, ABool True],
         Call ''pgstat_report_xact_timestamp'' []]),
       emit (\<lambda>b. [Call ''ResourceOwnerDelete'' [AOwner (TopTransactionResourceOwner b)]]),
       upd clear_owners,
       emit (\<lambda>b. [Call ''AtCommit_Memory'' []]),
       upd reset_TransactionState,
       set_state TRANS_DEFAULT ]"

definition PrepareTransaction :: xstmt where
  "PrepareTransaction = let_do GetCurrentTransactionId (\<lambda>xid. seq
     [ PrepareTransaction_preprepare, PrepareTransaction_prepare xid,
       PrepareTransaction_cleanup xid ])"

subsection \<open>Aborting\<close>

text \<open>The calls that open both kinds of abort processing.\<close>

definition abort_prologue :: "xcall list" where
  "abort_prologue =
     [Call ''LWLockReleaseAll'' [], Call ''pgstat_report_wait_end'' [],
      Call ''pgstat_progress_end_command'' [], Call ''AbortBufferIO'' [], Call ''UnlockBuffers'' [],
      Call ''XLogResetInsertion'' [], Call ''ConditionVariableCancelSleep'' [],
      Call ''LockErrorCleanup'' [], Call ''reschedule_timeouts'' [], Call ''PG_SETMASK'' []]"

definition AbortTransaction_begin :: "bool \<Rightarrow> xstmt" where
  "AbortTransaction_begin is_parallel_worker = seq
     [ emit (\<lambda>b. [Call ''AtAbort_Memory'' []]),
       upd AtAbort_ResourceOwner,
       emit (\<lambda>b. abort_prologue),
       when_do (\<lambda>b. state (cur b) \<noteq> TRANS_INPROGRESS \<and> state (cur b) \<noteq> TRANS_PREPARE)
         (emit (\<lambda>b. [Warning ''AbortTransaction while in unexpected state''])),
       assert_that ''s->parent == NULL'' (\<lambda>b. parents b = []),
       set_state TRANS_ABORT,
       upd (\<lambda>b. b\<lparr>CurrentUserId := prevUser (cur b),
                  SecurityRestrictionContext := prevSecContext (cur b)\<rparr>),
       emit (\<lambda>b. [Call ''ResetReindexState'' [ANat (nestingLevel (cur b))],
         Call ''ResetLogicalStreamingState'' [], Call ''SnapBuildResetExportedSnapshotState'' []]),
       when_do IsInParallelMode (seq
         [ emit (\<lambda>b. [Call ''AtEOXact_Parallel'' [ABool False]]),
           upd (set_cur (\<lambda>s. s\<lparr>parallelModeLevel := 0\<rparr>)) ]),
       emit (\<lambda>b. [Call ''AfterTriggerEndXact'' [ABool False], Call ''AtAbort_Portals'' [],
         Call ''smgrDoPendingSyncs'' [ABool False, ABool is_parallel_worker],
         Call ''AtEOXact_LargeObject'' [ABool False], Call ''AtAbort_Notify'' [],
         Call ''AtEOXact_RelationMap'' [ABool False, ABool is_parallel_worker],
         Call ''AtAbort_Twophase'' []]) ]"

definition AbortTransaction_end :: "bool \<Rightarrow> TransactionId \<Rightarrow> xstmt" where
  "AbortTransaction_end is_parallel_worker latestXid = seq
     [ emit (\<lambda>b. [ProcArrayEndTransaction latestXid]),
       when_do (\<lambda>b. TopTransactionResourceOwner b \<noteq> None) (seq
         [ emit (\<lambda>b. [Call ''CallXactCallbacks_ABORT'' [ABool is_parallel_worker],
             ResourceOwnerRelease (TopTransactionResourceOwner b) RESOURCE_RELEASE_BEFORE_LOCKS False True,
             Call ''AtEOXact_Buffers'' [ABool False],
             Call ''AtEOXact_RelationCache'' [ABool False],
             Call ''AtEOXact_Inval'' [ABool False],
             Call ''AtEOXact_MultiXact'' [],
             ResourceOwnerRelease (TopTransactionResourceOwner b) RESOURCE_RELEASE_LOCKS False True,
             ResourceOwnerRelease (TopTransactionResourceOwner b) RESOURCE_RELEASE_AFTER_LOCKS False True,
             Call ''smgrDoPendingDeletes'' [ABool False]]),
           upd (AtEOXact_GUC False 1),
           emit (\<lambda>b. [Call ''AtEOXact_SPI'' [ABool False], Call ''AtEOXact_Enum'' [],
             Call ''AtEOXact_on_commit_actions'' [ABool False],
             Call ''AtEOXact_Namespace'' [ABool False, ABool is_parallel_worker],
             Call ''AtEOXact_SMgr'' [], Call ''AtEOXact_Files'' [ABool False],
             Call ''AtEOXact_ComboCid'' [], Call ''AtEOXact_HashTables'' [ABool False],
             Call ''AtEOXact_PgStat'' [ABool False, ABool is_parallel_worker],
             Call ''AtEOXact_ApplyLauncher'' [ABool False],
             Call ''pgstat_report_xact_timestamp'' []]) ]) ]"

definition AbortTransaction :: xstmt where
  "AbortTransaction = with_state (\<lambda>b0.
     let is_parallel_worker = (blockState (cur b0) = TBLOCK_PARALLEL_INPROGRESS) in seq
     [ AbortTransaction_begin is_parallel_worker,
       if_do (\<lambda>b. \<not> is_parallel_worker)
         (let_do (RecordTransactionAbort False) (AbortTransaction_end is_parallel_worker))
         (seq [ emit (\<lambda>b. [Call ''XLogSetAsyncXactLSN'' [ANat (XactLastRecEnd b)]]),
                AbortTransaction_end is_parallel_worker InvalidTransactionId ]) ])"

definition CleanupTransaction :: xstmt where
  "CleanupTransaction = seq
     [ when_do (\<lambda>b. state (cur b) \<noteq> TRANS_ABORT)
         (raise (FATAL ''CleanupTransaction: unexpected state'')),
       emit (\<lambda>b. [Call ''AtCleanup_Portals'' [],
                  Call ''AtEOXact_Snapshot'' [ABool False, ABool True]]),
       when_do (\<lambda>b. TopTransactionResourceOwner b \<noteq> None)
         (emit (\<lambda>b. [Call ''ResourceOwnerDelete'' [AOwner (TopTransactionResourceOwner b)]])),
       upd clear_owners,
       emit (\<lambda>b. [Call ''AtCleanup_Memory'' []]),
       upd reset_TransactionState,
       upd (set_cur (\<lambda>s. s\<lparr>parallelModeLevel := 0\<rparr>)),
       set_state TRANS_DEFAULT ]"

subsection \<open>The state stack\<close>

definition PushTransaction :: xstmt where
  "PushTransaction = seq
     [ with_state (\<lambda>b. if currentSubTransactionId b + 1 = InvalidSubTransactionId
         then raise (ERROR ''cannot have more than 2^32-1 subtransactions in a transaction'')
         else upd (\<lambda>b. b\<lparr>currentSubTransactionId := currentSubTransactionId b + 1\<rparr>)),
       upd (\<lambda>b. let p = cur b; (lvl, b') = NewGUCNestLevel b in
          b'\<lparr>parents := p # parents b',
             cur := zero_TransactionStateData
               \<lparr>fullTransactionId := InvalidFullTransactionId,
                subTransactionId := currentSubTransactionId b',
                nestingLevel := nestingLevel p + 1,
                gucNestLevel := lvl,
                savepointLevel := savepointLevel p,
                state := TRANS_DEFAULT,
                blockState := TBLOCK_SUBBEGIN,
                prevUser := CurrentUserId b',
                prevSecContext := SecurityRestrictionContext b',
                prevXactReadOnly := XactReadOnly b',
                parallelModeLevel := 0,
                assigned := False\<rparr>\<rparr>) ]"

definition PopTransaction :: xstmt where
  "PopTransaction = seq
     [ when_do (\<lambda>b. state (cur b) \<noteq> TRANS_DEFAULT)
         (emit (\<lambda>b. [Warning ''PopTransaction while in unexpected state''])),
       when_do (\<lambda>b. parents b = []) (raise (FATAL ''PopTransaction with no parent'')),
       upd (\<lambda>b. let p = parent b in
          b\<lparr>cur := p, parents := tl (parents b),
            CurTransactionResourceOwner := curTransactionOwner p,
            CurrentResourceOwner := curTransactionOwner p\<rparr>) ]"

subsection \<open>Subtransactions\<close>

definition subid_args :: "backend \<Rightarrow> xarg list" where
  "subid_args b = [AXid (subTransactionId (cur b)), AXid (subTransactionId (parent b))]"

definition StartSubTransaction :: xstmt where
  "StartSubTransaction = seq
     [ when_do (\<lambda>b. state (cur b) \<noteq> TRANS_DEFAULT)
         (emit (\<lambda>b. [Warning ''StartSubTransaction while in unexpected state''])),
       set_state TRANS_START,
       emit (\<lambda>b. [Call ''AtSubStart_Memory'' []]),
       AtSubStart_ResourceOwner,
       emit (\<lambda>b. [Call ''AfterTriggerBeginSubXact'' []]),
       set_state TRANS_INPROGRESS,
       emit (\<lambda>b. [Call ''CallSubXactCallbacks_START_SUB'' (subid_args b)]) ]"

text \<open>The part of \<^verbatim>\<open>CommitSubTransaction\<close> after the child xids are handed over cannot fail.\<close>

definition CommitSubTransaction_end :: xstmt where
  "CommitSubTransaction_end = seq
     [ emit (\<lambda>b. [Call ''AfterTriggerEndSubXact'' [ABool True],
         Call ''AtSubCommit_Portals'' (subid_args b @
           [ANat (nestingLevel (parent b)), AOwner (curTransactionOwner (parent b))]),
         Call ''AtEOSubXact_LargeObject'' (ABool True # subid_args b),
         Call ''AtSubCommit_Notify'' [],
         Call ''CallSubXactCallbacks_COMMIT_SUB'' (subid_args b),
         ResourceOwnerRelease (curTransactionOwner (cur b)) RESOURCE_RELEASE_BEFORE_LOCKS True False,
         Call ''AtEOSubXact_RelationCache'' (ABool True # subid_args b),
         Call ''AtEOSubXact_Inval'' [ABool True],
         Call ''AtSubCommit_smgr'' []]),
       upd (\<lambda>b. b\<lparr>CurrentResourceOwner := curTransactionOwner (cur b)\<rparr>),
       when_do (\<lambda>b. FullTransactionIdIsValid (fullTransactionId (cur b)))
         (emit (\<lambda>b. [Call ''XactLockTableDelete''
             [AXid (XidFromFullTransactionId (fullTransactionId (cur b)))]])),
       emit (\<lambda>b. [
         ResourceOwnerRelease (curTransactionOwner (cur b)) RESOURCE_RELEASE_LOCKS True False,
         ResourceOwnerRelease (curTransactionOwner (cur b)) RESOURCE_RELEASE_AFTER_LOCKS True False]),
       with_state (\<lambda>b. upd (AtEOXact_GUC True (gucNestLevel (cur b)))),
       emit (\<lambda>b. [Call ''AtEOSubXact_SPI'' [ABool True, AXid (subTransactionId (cur b))],
         Call ''AtEOSubXact_on_commit_actions'' (ABool True # subid_args b),
         Call ''AtEOSubXact_Namespace'' (ABool True # subid_args b),
         Call ''AtEOSubXact_Files'' (ABool True # subid_args b),
         Call ''AtEOSubXact_HashTables'' [ABool True, ANat (nestingLevel (cur b))],
         Call ''AtEOSubXact_PgStat'' [ABool True, ANat (nestingLevel (cur b))],
         Call ''AtSubCommit_Snapshot'' [ANat (nestingLevel (cur b))]]),
       upd (\<lambda>b. b\<lparr>XactReadOnly := prevXactReadOnly (cur b)\<rparr>),
       upd (\<lambda>b. b\<lparr>CurrentResourceOwner := curTransactionOwner (parent b),
                  CurTransactionResourceOwner := curTransactionOwner (parent b)\<rparr>),
       emit (\<lambda>b. [Call ''ResourceOwnerDelete'' [AOwner (curTransactionOwner (cur b))]]),
       upd (set_cur (\<lambda>s. s\<lparr>curTransactionOwner := None\<rparr>)),
       emit (\<lambda>b. [Call ''AtSubCommit_Memory'' []]),
       set_state TRANS_DEFAULT,
       PopTransaction ]"

definition CommitSubTransaction :: xstmt where
  "CommitSubTransaction = seq
     [ when_do (\<lambda>b. state (cur b) \<noteq> TRANS_INPROGRESS)
         (emit (\<lambda>b. [Warning ''CommitSubTransaction while in unexpected state''])),
       emit (\<lambda>b. [Call ''CallSubXactCallbacks_PRE_COMMIT_SUB'' (subid_args b)]),
       when_do IsInParallelMode (seq
         [ emit (\<lambda>b. [Call ''AtEOSubXact_Parallel'' [ABool True, AXid (subTransactionId (cur b))]]),
           upd (set_cur (\<lambda>s. s\<lparr>parallelModeLevel := 0\<rparr>)) ]),
       set_state TRANS_COMMIT,
       CommandCounterIncrement,
       when_do (\<lambda>b. FullTransactionIdIsValid (fullTransactionId (cur b))) AtSubCommit_childXids,
       CommitSubTransaction_end ]"

text \<open>The part of \<^verbatim>\<open>AbortSubTransaction\<close> that runs only if a resource owner was created.\<close>

definition AbortSubTransaction_owned :: xstmt where
  "AbortSubTransaction_owned = seq
     [ emit (\<lambda>b. [Call ''AfterTriggerEndSubXact'' [ABool False],
         Call ''AtSubAbort_Portals'' (subid_args b @
           [AOwner (curTransactionOwner (cur b)), AOwner (curTransactionOwner (parent b))]),
         Call ''AtEOSubXact_LargeObject'' (ABool False # subid_args b),
         Call ''AtSubAbort_Notify'' []]),
       let_do (RecordTransactionAbort True) (\<lambda>_. seq []),
       when_do (\<lambda>b. FullTransactionIdIsValid (fullTransactionId (cur b)))
         (upd AtSubAbort_childXids),
       emit (\<lambda>b. [Call ''CallSubXactCallbacks_ABORT_SUB'' (subid_args b),
         ResourceOwnerRelease (curTransactionOwner (cur b)) RESOURCE_RELEASE_BEFORE_LOCKS False False,
         Call ''AtEOSubXact_RelationCache'' (ABool False # subid_args b),
         Call ''AtEOSubXact_Inval'' [ABool False],
         ResourceOwnerRelease (curTransactionOwner (cur b)) RESOURCE_RELEASE_LOCKS False False,
         ResourceOwnerRelease (curTransactionOwner (cur b)) RESOURCE_RELEASE_AFTER_LOCKS False False,
         Call ''AtSubAbort_smgr'' []]),
       with_state (\<lambda>b. upd (AtEOXact_GUC False (gucNestLevel (cur b)))),
       emit (\<lambda>b. [Call ''AtEOSubXact_SPI'' [ABool False, AXid (subTransactionId (cur b))],
         Call ''AtEOSubXact_on_commit_actions'' (ABool False # subid_args b),
         Call ''AtEOSubXact_Namespace'' (ABool False # subid_args b),
         Call ''AtEOSubXact_Files'' (ABool False # subid_args b),
         Call ''AtEOSubXact_HashTables'' [ABool False, ANat (nestingLevel (cur b))],
         Call ''AtEOSubXact_PgStat'' [ABool False, ANat (nestingLevel (cur b))],
         Call ''AtSubAbort_Snapshot'' [ANat (nestingLevel (cur b))]]) ]"

definition AbortSubTransaction :: xstmt where
  "AbortSubTransaction = seq
     [ emit (\<lambda>b. [Call ''AtSubAbort_Memory'' []]),
       upd AtSubAbort_ResourceOwner,
       emit (\<lambda>b. abort_prologue),
       when_do (\<lambda>b. state (cur b) \<noteq> TRANS_INPROGRESS)
         (emit (\<lambda>b. [Warning ''AbortSubTransaction while in unexpected state''])),
       set_state TRANS_ABORT,
       upd (\<lambda>b. b\<lparr>CurrentUserId := prevUser (cur b),
                  SecurityRestrictionContext := prevSecContext (cur b)\<rparr>),
       emit (\<lambda>b. [Call ''ResetReindexState'' [ANat (nestingLevel (cur b))],
         Call ''ResetLogicalStreamingState'' []]),
       when_do IsInParallelMode (seq
         [ emit (\<lambda>b. [Call ''AtEOSubXact_Parallel'' [ABool False, AXid (subTransactionId (cur b))]]),
           upd (set_cur (\<lambda>s. s\<lparr>parallelModeLevel := 0\<rparr>)) ]),
       when_do (\<lambda>b. curTransactionOwner (cur b) \<noteq> None) AbortSubTransaction_owned,
       upd (\<lambda>b. b\<lparr>XactReadOnly := prevXactReadOnly (cur b)\<rparr>) ]"

definition CleanupSubTransaction :: xstmt where
  "CleanupSubTransaction = seq
     [ when_do (\<lambda>b. state (cur b) \<noteq> TRANS_ABORT)
         (emit (\<lambda>b. [Warning ''CleanupSubTransaction while in unexpected state''])),
       emit (\<lambda>b. [Call ''AtSubCleanup_Portals'' [AXid (subTransactionId (cur b))]]),
       upd (\<lambda>b. b\<lparr>CurrentResourceOwner := curTransactionOwner (parent b),
                  CurTransactionResourceOwner := curTransactionOwner (parent b)\<rparr>),
       when_do (\<lambda>b. curTransactionOwner (cur b) \<noteq> None)
         (emit (\<lambda>b. [Call ''ResourceOwnerDelete'' [AOwner (curTransactionOwner (cur b))]])),
       upd (set_cur (\<lambda>s. s\<lparr>curTransactionOwner := None\<rparr>)),
       emit (\<lambda>b. [Call ''AtSubCleanup_Memory'' []]),
       set_state TRANS_DEFAULT,
       PopTransaction ]"

end
