(* ===== verification/Xact_Block.thy ===== *)
theory Xact_Block
  imports Xact_Core
begin

section \<open>Transaction blocks (xact.c): commands and error recovery\<close>

text \<open>
  The routines the main loop and the utility commands call: the switch statements over
  \<^verbatim>\<open>TBlockState\<close>, branch by branch. The loops that pop the state stack carry a fuel
  argument, the number of stack entries; running out of it is an assertion failure, and
  the invariant theory shows it cannot happen.
\<close>

definition SaveTransactionCharacteristics :: "backend \<Rightarrow> backend" where
  "SaveTransactionCharacteristics b =
     b\<lparr>save_XactIsoLevel := XactIsoLevel b, save_XactReadOnly := XactReadOnly b,
       save_XactDeferrable := XactDeferrable b\<rparr>"

definition RestoreTransactionCharacteristics :: "backend \<Rightarrow> backend" where
  "RestoreTransactionCharacteristics b =
     b\<lparr>XactIsoLevel := save_XactIsoLevel b, XactReadOnly := save_XactReadOnly b,
       XactDeferrable := save_XactDeferrable b\<rparr>"

definition StartTransactionCommand :: xstmt where
  "StartTransactionCommand b =
     (case blockState (cur b) of
        TBLOCK_DEFAULT \<Rightarrow> seq [StartTransaction, set_blockState TBLOCK_STARTED] b
      | TBLOCK_INPROGRESS \<Rightarrow> Inr b
      | TBLOCK_IMPLICIT_INPROGRESS \<Rightarrow> Inr b
      | TBLOCK_SUBINPROGRESS \<Rightarrow> Inr b
      | TBLOCK_ABORT \<Rightarrow> Inr b
      | TBLOCK_SUBABORT \<Rightarrow> Inr b
      | _ \<Rightarrow> raise (ERROR ''StartTransactionCommand: unexpected state'') b)"

subsection \<open>Savepoints\<close>

definition DefineSavepoint :: "string option \<Rightarrow> xstmt" where
  "DefineSavepoint sp = seq
     [ when_do IsInParallelMode
         (raise (ERROR ''cannot define savepoints during a parallel operation'')),
       with_state (\<lambda>b. case blockState (cur b) of
          TBLOCK_INPROGRESS \<Rightarrow>
            seq [PushTransaction,
                 when_do (\<lambda>b. sp \<noteq> None) (upd (set_cur (\<lambda>s. s\<lparr>name := sp\<rparr>)))]
        | TBLOCK_SUBINPROGRESS \<Rightarrow>
            seq [PushTransaction,
                 when_do (\<lambda>b. sp \<noteq> None) (upd (set_cur (\<lambda>s. s\<lparr>name := sp\<rparr>)))]
        | TBLOCK_IMPLICIT_INPROGRESS \<Rightarrow>
            raise (ERROR ''SAVEPOINT can only be used in transaction blocks'')
        | _ \<Rightarrow> raise (FATAL ''DefineSavepoint: unexpected state'')) ]"

subsection \<open>CommitTransactionCommand\<close>

text \<open>The code that follows every end of a top-level block: \<^verbatim>\<open>if (s->chain) { \<dots> }\<close>.\<close>

definition restart_chain :: xstmt where
  "restart_chain = when_do (\<lambda>b. chain (cur b)) (seq
     [ StartTransaction,
       set_blockState TBLOCK_INPROGRESS,
       upd (set_cur (\<lambda>s. s\<lparr>chain := False\<rparr>)),
       upd RestoreTransactionCharacteristics ])"

text \<open>\<^verbatim>\<open>do { CommitSubTransaction(); s = CurrentTransactionState; } while (s->blockState == bs)\<close>.\<close>

fun commit_subs :: "TBlockState \<Rightarrow> nat \<Rightarrow> xstmt" where
  "commit_subs bs 0 b = raise (AssertFail ''fuel'') b"
| "commit_subs bs (Suc n) b = seq
     [ CommitSubTransaction,
       when_do (\<lambda>b. blockState (cur b) = bs) (commit_subs bs n) ] b"

text \<open>The second half of the \<^verbatim>\<open>SUBRESTART\<close> cases: redefine the savepoint that was rolled back.\<close>

definition redefine_savepoint :: "string option \<Rightarrow> nat \<Rightarrow> xstmt" where
  "redefine_savepoint sp lvl = seq
     [ DefineSavepoint None,
       upd (set_cur (\<lambda>s. s\<lparr>name := sp, savepointLevel := lvl\<rparr>)),
       assert_that ''s->blockState == TBLOCK_SUBBEGIN''
         (\<lambda>b. blockState (cur b) = TBLOCK_SUBBEGIN),
       StartSubTransaction,
       set_blockState TBLOCK_SUBINPROGRESS ]"

text \<open>
  The switch of \<^verbatim>\<open>CommitTransactionCommand\<close>; \<open>again\<close> is the recursive call its two
  \<^verbatim>\<open>SUBABORT\<close> cases make after popping an entry, \<open>n\<close> the bound on the entries.
\<close>

definition commit_switch :: "nat \<Rightarrow> xstmt \<Rightarrow> xstmt" where
  "commit_switch n again = with_state (\<lambda>b. case blockState (cur b) of
          TBLOCK_DEFAULT \<Rightarrow> raise (FATAL ''CommitTransactionCommand: unexpected state'')
        | TBLOCK_PARALLEL_INPROGRESS \<Rightarrow> raise (FATAL ''CommitTransactionCommand: unexpected state'')
        | TBLOCK_STARTED \<Rightarrow> seq [CommitTransaction, set_blockState TBLOCK_DEFAULT]
        | TBLOCK_BEGIN \<Rightarrow> set_blockState TBLOCK_INPROGRESS
        | TBLOCK_INPROGRESS \<Rightarrow> CommandCounterIncrement
        | TBLOCK_IMPLICIT_INPROGRESS \<Rightarrow> CommandCounterIncrement
        | TBLOCK_SUBINPROGRESS \<Rightarrow> CommandCounterIncrement
        | TBLOCK_END \<Rightarrow> seq [CommitTransaction, set_blockState TBLOCK_DEFAULT, restart_chain]
        | TBLOCK_ABORT \<Rightarrow> seq []
        | TBLOCK_SUBABORT \<Rightarrow> seq []
        | TBLOCK_ABORT_END \<Rightarrow> seq [CleanupTransaction, set_blockState TBLOCK_DEFAULT, restart_chain]
        | TBLOCK_ABORT_PENDING \<Rightarrow>
            seq [AbortTransaction, CleanupTransaction, set_blockState TBLOCK_DEFAULT, restart_chain]
        | TBLOCK_PREPARE \<Rightarrow> seq [PrepareTransaction, set_blockState TBLOCK_DEFAULT]
        | TBLOCK_SUBBEGIN \<Rightarrow> seq [StartSubTransaction, set_blockState TBLOCK_SUBINPROGRESS]
        | TBLOCK_SUBRELEASE \<Rightarrow> seq
            [ commit_subs TBLOCK_SUBRELEASE n,
              assert_that ''s->blockState == TBLOCK_INPROGRESS || TBLOCK_SUBINPROGRESS''
                (\<lambda>b. blockState (cur b) = TBLOCK_INPROGRESS \<or>
                     blockState (cur b) = TBLOCK_SUBINPROGRESS) ]
        | TBLOCK_SUBCOMMIT \<Rightarrow> seq
            [ commit_subs TBLOCK_SUBCOMMIT n,
              with_state (\<lambda>b. case blockState (cur b) of
                 TBLOCK_END \<Rightarrow> seq
                   [ assert_that ''s->parent == NULL'' (\<lambda>b. parents b = []),
                     CommitTransaction, set_blockState TBLOCK_DEFAULT, restart_chain ]
               | TBLOCK_PREPARE \<Rightarrow> seq
                   [ assert_that ''s->parent == NULL'' (\<lambda>b. parents b = []),
                     PrepareTransaction, set_blockState TBLOCK_DEFAULT ]
               | _ \<Rightarrow> raise (ERROR ''CommitTransactionCommand: unexpected state'')) ]
        | TBLOCK_SUBABORT_END \<Rightarrow> seq [CleanupSubTransaction, again]
        | TBLOCK_SUBABORT_PENDING \<Rightarrow>
            seq [AbortSubTransaction, CleanupSubTransaction, again]
        | TBLOCK_SUBRESTART \<Rightarrow>
            (let sp = name (cur b); lvl = savepointLevel (cur b) in seq
             [ upd (set_cur (\<lambda>s. s\<lparr>name := None\<rparr>)),
               AbortSubTransaction, CleanupSubTransaction, redefine_savepoint sp lvl ])
        | TBLOCK_SUBABORT_RESTART \<Rightarrow>
            (let sp = name (cur b); lvl = savepointLevel (cur b) in seq
             [ upd (set_cur (\<lambda>s. s\<lparr>name := None\<rparr>)),
               CleanupSubTransaction, redefine_savepoint sp lvl ]))"

primrec commit_cmd :: "nat \<Rightarrow> xstmt" where
  "commit_cmd 0 = raise (AssertFail ''fuel'')"
| "commit_cmd (Suc n) = seq
     [ when_do (\<lambda>b. chain (cur b)) (upd SaveTransactionCharacteristics),
       commit_switch (Suc n) (commit_cmd n) ]"

definition CommitTransactionCommand :: xstmt where
  "CommitTransactionCommand b = commit_cmd (Suc (length (parents b))) b"

subsection \<open>Error recovery\<close>

fun abort_cur :: "nat \<Rightarrow> xstmt" where
  "abort_cur 0 b = raise (AssertFail ''fuel'') b"
| "abort_cur (Suc n) b0 = with_state (\<lambda>b. case blockState (cur b) of
      TBLOCK_DEFAULT \<Rightarrow>
        (if state (cur b) = TRANS_DEFAULT then seq []
         else seq [ when_do (\<lambda>b. state (cur b) = TRANS_START) (set_state TRANS_INPROGRESS),
                    AbortTransaction, CleanupTransaction ])
    | TBLOCK_STARTED \<Rightarrow> seq [AbortTransaction, CleanupTransaction, set_blockState TBLOCK_DEFAULT]
    | TBLOCK_IMPLICIT_INPROGRESS \<Rightarrow>
        seq [AbortTransaction, CleanupTransaction, set_blockState TBLOCK_DEFAULT]
    | TBLOCK_BEGIN \<Rightarrow> seq [AbortTransaction, CleanupTransaction, set_blockState TBLOCK_DEFAULT]
    | TBLOCK_INPROGRESS \<Rightarrow> seq [AbortTransaction, set_blockState TBLOCK_ABORT]
    | TBLOCK_PARALLEL_INPROGRESS \<Rightarrow> seq [AbortTransaction, set_blockState TBLOCK_ABORT]
    | TBLOCK_END \<Rightarrow> seq [AbortTransaction, CleanupTransaction, set_blockState TBLOCK_DEFAULT]
    | TBLOCK_ABORT \<Rightarrow> seq []
    | TBLOCK_SUBABORT \<Rightarrow> seq []
    | TBLOCK_ABORT_END \<Rightarrow> seq [CleanupTransaction, set_blockState TBLOCK_DEFAULT]
    | TBLOCK_ABORT_PENDING \<Rightarrow>
        seq [AbortTransaction, CleanupTransaction, set_blockState TBLOCK_DEFAULT]
    | TBLOCK_PREPARE \<Rightarrow> seq [AbortTransaction, CleanupTransaction, set_blockState TBLOCK_DEFAULT]
    | TBLOCK_SUBINPROGRESS \<Rightarrow> seq [AbortSubTransaction, set_blockState TBLOCK_SUBABORT]
    | TBLOCK_SUBBEGIN \<Rightarrow> seq [AbortSubTransaction, CleanupSubTransaction, abort_cur n]
    | TBLOCK_SUBRELEASE \<Rightarrow> seq [AbortSubTransaction, CleanupSubTransaction, abort_cur n]
    | TBLOCK_SUBCOMMIT \<Rightarrow> seq [AbortSubTransaction, CleanupSubTransaction, abort_cur n]
    | TBLOCK_SUBABORT_PENDING \<Rightarrow> seq [AbortSubTransaction, CleanupSubTransaction, abort_cur n]
    | TBLOCK_SUBRESTART \<Rightarrow> seq [AbortSubTransaction, CleanupSubTransaction, abort_cur n]
    | TBLOCK_SUBABORT_END \<Rightarrow> seq [CleanupSubTransaction, abort_cur n]
    | TBLOCK_SUBABORT_RESTART \<Rightarrow> seq [CleanupSubTransaction, abort_cur n]) b0"

definition AbortCurrentTransaction :: xstmt where
  "AbortCurrentTransaction b = abort_cur (Suc (length (parents b))) b"

text \<open>\<^verbatim>\<open>AbortOutOfAnyTransaction\<close>: the \<^verbatim>\<open>do \<dots> while (s->blockState != TBLOCK_DEFAULT)\<close> loop.\<close>

fun abort_out :: "nat \<Rightarrow> xstmt" where
  "abort_out 0 b = raise (AssertFail ''fuel'') b"
| "abort_out (Suc n) b0 = seq
     [ with_state (\<lambda>b.
         let bs = blockState (cur b) in
         if bs = TBLOCK_DEFAULT then
           (if state (cur b) = TRANS_DEFAULT then seq []
            else seq [ when_do (\<lambda>b. state (cur b) = TRANS_START) (set_state TRANS_INPROGRESS),
                       AbortTransaction, CleanupTransaction ])
         else if bs \<in> {TBLOCK_STARTED, TBLOCK_BEGIN, TBLOCK_INPROGRESS,
                       TBLOCK_IMPLICIT_INPROGRESS, TBLOCK_PARALLEL_INPROGRESS, TBLOCK_END,
                       TBLOCK_ABORT_PENDING, TBLOCK_PREPARE} then
           seq [AbortTransaction, CleanupTransaction, set_blockState TBLOCK_DEFAULT]
         else if bs \<in> {TBLOCK_ABORT, TBLOCK_ABORT_END} then
           seq [ emit (\<lambda>b. [Call ''AtAbort_Portals'' []]),
                 CleanupTransaction, set_blockState TBLOCK_DEFAULT ]
         else if bs \<in> {TBLOCK_SUBBEGIN, TBLOCK_SUBINPROGRESS, TBLOCK_SUBRELEASE,
                       TBLOCK_SUBCOMMIT, TBLOCK_SUBABORT_PENDING, TBLOCK_SUBRESTART} then
           seq [AbortSubTransaction, CleanupSubTransaction]
         else
           seq [ when_do (\<lambda>b. curTransactionOwner (cur b) \<noteq> None)
                   (emit (\<lambda>b. [Call ''AtSubAbort_Portals'' (subid_args b @
                      [AOwner (curTransactionOwner (cur b)),
                       AOwner (curTransactionOwner (parent b))])])),
                 CleanupSubTransaction ]),
       when_do (\<lambda>b. blockState (cur b) \<noteq> TBLOCK_DEFAULT) (abort_out n) ] b0"

definition AbortOutOfAnyTransaction :: xstmt where
  "AbortOutOfAnyTransaction = seq
     [ emit (\<lambda>b. [Call ''AtAbort_Memory'' []]),
       with_state (\<lambda>b. abort_out (Suc (length (parents b)))),
       assert_that ''s->parent == NULL'' (\<lambda>b. parents b = []),
       emit (\<lambda>b. [Call ''AtCleanup_Memory'' []]) ]"

subsection \<open>Checks on the block state\<close>

definition PreventInTransactionBlock :: "bool \<Rightarrow> string \<Rightarrow> xstmt" where
  "PreventInTransactionBlock isTopLevel stmtType = seq
     [ when_do IsTransactionBlock
         (raise (ERROR (stmtType @ '' cannot run inside a transaction block''))),
       when_do IsSubTransaction
         (raise (ERROR (stmtType @ '' cannot run inside a subtransaction''))),
       when_do (\<lambda>b. and (MyXactFlags b) XACT_FLAGS_PIPELINING \<noteq> 0)
         (raise (ERROR (stmtType @ '' cannot be executed within a pipeline''))),
       when_do (\<lambda>b. \<not> isTopLevel)
         (raise (ERROR (stmtType @ '' cannot be executed from a function''))),
       when_do (\<lambda>b. blockState (cur b) \<noteq> TBLOCK_DEFAULT \<and> blockState (cur b) \<noteq> TBLOCK_STARTED)
         (raise (FATAL ''cannot prevent transaction chain'')),
       upd (\<lambda>b. b\<lparr>MyXactFlags := or (MyXactFlags b) XACT_FLAGS_NEEDIMMEDIATECOMMIT\<rparr>) ]"

definition CheckTransactionBlock :: "bool \<Rightarrow> bool \<Rightarrow> string \<Rightarrow> xstmt" where
  "CheckTransactionBlock isTopLevel throwError stmtType b =
     (if IsTransactionBlock b then Inr b
      else if IsSubTransaction b then Inr b
      else if \<not> isTopLevel then Inr b
      else if throwError
      then raise (ERROR (stmtType @ '' can only be used in transaction blocks'')) b
      else emit (\<lambda>b. [Warning (stmtType @ '' can only be used in transaction blocks'')]) b)"

definition WarnNoTransactionBlock :: "bool \<Rightarrow> string \<Rightarrow> xstmt" where
  "WarnNoTransactionBlock isTopLevel stmtType = CheckTransactionBlock isTopLevel False stmtType"

definition RequireTransactionBlock :: "bool \<Rightarrow> string \<Rightarrow> xstmt" where
  "RequireTransactionBlock isTopLevel stmtType = CheckTransactionBlock isTopLevel True stmtType"

definition IsInTransactionBlock :: "bool \<Rightarrow> backend \<Rightarrow> bool" where
  "IsInTransactionBlock isTopLevel b =
     (if IsTransactionBlock b then True
      else if IsSubTransaction b then True
      else if and (MyXactFlags b) XACT_FLAGS_PIPELINING \<noteq> 0 then True
      else if \<not> isTopLevel then True
      else if blockState (cur b) \<noteq> TBLOCK_DEFAULT \<and> blockState (cur b) \<noteq> TBLOCK_STARTED then True
      else False)"

subsection \<open>BEGIN, COMMIT, ROLLBACK, PREPARE\<close>

definition BeginTransactionBlock :: xstmt where
  "BeginTransactionBlock b =
     (case blockState (cur b) of
        TBLOCK_STARTED \<Rightarrow> set_blockState TBLOCK_BEGIN b
      | TBLOCK_IMPLICIT_INPROGRESS \<Rightarrow> set_blockState TBLOCK_BEGIN b
      | TBLOCK_INPROGRESS \<Rightarrow> emit (\<lambda>b. [Warning ''there is already a transaction in progress'']) b
      | TBLOCK_PARALLEL_INPROGRESS \<Rightarrow>
          emit (\<lambda>b. [Warning ''there is already a transaction in progress'']) b
      | TBLOCK_SUBINPROGRESS \<Rightarrow> emit (\<lambda>b. [Warning ''there is already a transaction in progress'']) b
      | TBLOCK_ABORT \<Rightarrow> emit (\<lambda>b. [Warning ''there is already a transaction in progress'']) b
      | TBLOCK_SUBABORT \<Rightarrow> emit (\<lambda>b. [Warning ''there is already a transaction in progress'']) b
      | _ \<Rightarrow> raise (FATAL ''BeginTransactionBlock: unexpected state'') b)"

text \<open>
  The loop \<^verbatim>\<open>while (s->parent != NULL) { \<dots> s = s->parent; }\<close> that marks every subtransaction
  and then the top level: \<open>fs\<close> and \<open>ft\<close> are the block-state changes, undefined where the
  code reports an unexpected state.
\<close>

fun mark_stack ::
    "(TBlockState \<rightharpoonup> TBlockState) \<Rightarrow> (TBlockState \<rightharpoonup> TBlockState) \<Rightarrow>
     TransactionStateData list \<Rightarrow> TransactionStateData list \<times> bool" where
  "mark_stack fs ft [] = ([], True)"
| "mark_stack fs ft [t] =
     (case ft (blockState t) of None \<Rightarrow> ([t], False) | Some x \<Rightarrow> ([t\<lparr>blockState := x\<rparr>], True))"
| "mark_stack fs ft (s # t # ss) =
     (case fs (blockState s) of
        None \<Rightarrow> (s # t # ss, False)
      | Some x \<Rightarrow> (let (r, ok) = mark_stack fs ft (t # ss) in (s\<lparr>blockState := x\<rparr> # r, ok)))"

definition mark_all ::
    "(TBlockState \<rightharpoonup> TBlockState) \<Rightarrow> (TBlockState \<rightharpoonup> TBlockState) \<Rightarrow> string \<Rightarrow> xstmt" where
  "mark_all fs ft msg b =
     (let (ss, ok) = mark_stack fs ft (stack b); b' = set_stack ss b in
      if ok then Inr b' else Inl (FATAL msg, b'))"

definition sub_commit_mark :: "TBlockState \<rightharpoonup> TBlockState" where
  "sub_commit_mark = [TBLOCK_SUBINPROGRESS \<mapsto> TBLOCK_SUBCOMMIT]"
definition top_commit_mark :: "TBlockState \<rightharpoonup> TBlockState" where
  "top_commit_mark = [TBLOCK_INPROGRESS \<mapsto> TBLOCK_END]"
definition sub_abort_mark :: "TBlockState \<rightharpoonup> TBlockState" where
  "sub_abort_mark = [TBLOCK_SUBINPROGRESS \<mapsto> TBLOCK_SUBABORT_PENDING,
                     TBLOCK_SUBABORT \<mapsto> TBLOCK_SUBABORT_END]"
definition top_abort_mark :: "TBlockState \<rightharpoonup> TBlockState" where
  "top_abort_mark = [TBLOCK_INPROGRESS \<mapsto> TBLOCK_ABORT_PENDING, TBLOCK_ABORT \<mapsto> TBLOCK_ABORT_END]"

text \<open>
  The end of \<^verbatim>\<open>EndTransactionBlock\<close> and \<^verbatim>\<open>UserAbortTransactionBlock\<close>: the assertion on the
  block state and \<^verbatim>\<open>s->chain = chain\<close>, where \<open>s\<close> is the current entry, or the top one after
  the loop.
\<close>

definition block_tail :: "bool \<Rightarrow> TBlockState list \<Rightarrow> bool \<Rightarrow> xstmt" where
  "block_tail atTop oks chain' = seq
     [ assert_that ''s->blockState''
         (\<lambda>b. blockState (if atTop then top b else cur b) \<in> set oks),
       upd (if atTop then set_top (\<lambda>s. s\<lparr>chain := chain'\<rparr>) else set_cur (\<lambda>s. s\<lparr>chain := chain'\<rparr>)) ]"

definition end_block_states :: "TBlockState list" where
  "end_block_states = [TBLOCK_STARTED, TBLOCK_END, TBLOCK_ABORT_END, TBLOCK_ABORT_PENDING]"

definition EndTransactionBlock :: "bool \<Rightarrow> backend \<Rightarrow> (backend, bool) vres" where
  "EndTransactionBlock chain' b =
     (let ret = (\<lambda>r atTop x. case seq [x, block_tail atTop end_block_states chain'] b of
                   Inl e \<Rightarrow> Inl e | Inr b' \<Rightarrow> Inr (r, b'));
          no_xact = if_do (\<lambda>b. chain')
            (raise (ERROR ''COMMIT AND CHAIN can only be used in transaction blocks''))
            (emit (\<lambda>b. [Warning ''there is no transaction in progress''])) in
      case blockState (cur b) of
        TBLOCK_INPROGRESS \<Rightarrow> ret True False (set_blockState TBLOCK_END)
      | TBLOCK_IMPLICIT_INPROGRESS \<Rightarrow> ret True False (seq [no_xact, set_blockState TBLOCK_END])
      | TBLOCK_ABORT \<Rightarrow> ret False False (set_blockState TBLOCK_ABORT_END)
      | TBLOCK_SUBINPROGRESS \<Rightarrow>
          ret True True (mark_all sub_commit_mark top_commit_mark ''EndTransactionBlock: unexpected state'')
      | TBLOCK_SUBABORT \<Rightarrow>
          ret False True (mark_all sub_abort_mark top_abort_mark ''EndTransactionBlock: unexpected state'')
      | TBLOCK_STARTED \<Rightarrow> ret True False no_xact
      | TBLOCK_PARALLEL_INPROGRESS \<Rightarrow>
          Inl (FATAL ''cannot commit during a parallel operation'', b)
      | _ \<Rightarrow> Inl (FATAL ''EndTransactionBlock: unexpected state'', b))"

definition PrepareTransactionBlock :: "string \<Rightarrow> backend \<Rightarrow> (backend, bool) vres" where
  "PrepareTransactionBlock gid b =
     (case EndTransactionBlock False b of
        Inl e \<Rightarrow> Inl e
      | Inr (result, b') \<Rightarrow>
          if result then
            (if blockState (top b') = TBLOCK_END
             then Inr (True, set_top (\<lambda>s. s\<lparr>blockState := TBLOCK_PREPARE\<rparr>)
                               (b'\<lparr>prepareGID := Some gid\<rparr>))
             else if blockState (top b') = TBLOCK_STARTED \<or>
                     blockState (top b') = TBLOCK_IMPLICIT_INPROGRESS
             then Inr (False, b')
             else Inl (AssertFail ''s->blockState == TBLOCK_STARTED || IMPLICIT_INPROGRESS'', b'))
          else Inr (False, b'))"

definition UserAbortTransactionBlock :: "bool \<Rightarrow> xstmt" where
  "UserAbortTransactionBlock chain' b =
     (let no_xact = if_do (\<lambda>b. chain')
            (raise (ERROR ''ROLLBACK AND CHAIN can only be used in transaction blocks''))
            (emit (\<lambda>b. [Warning ''there is no transaction in progress'']));
          finish = (\<lambda>atTop x. seq
            [ x, block_tail atTop [TBLOCK_ABORT_END, TBLOCK_ABORT_PENDING] chain' ] b) in
      case blockState (cur b) of
        TBLOCK_INPROGRESS \<Rightarrow> finish False (set_blockState TBLOCK_ABORT_PENDING)
      | TBLOCK_ABORT \<Rightarrow> finish False (set_blockState TBLOCK_ABORT_END)
      | TBLOCK_SUBINPROGRESS \<Rightarrow>
          finish True (mark_all sub_abort_mark top_abort_mark ''UserAbortTransactionBlock: unexpected state'')
      | TBLOCK_SUBABORT \<Rightarrow>
          finish True (mark_all sub_abort_mark top_abort_mark ''UserAbortTransactionBlock: unexpected state'')
      | TBLOCK_STARTED \<Rightarrow> finish False (seq [no_xact, set_blockState TBLOCK_ABORT_PENDING])
      | TBLOCK_IMPLICIT_INPROGRESS \<Rightarrow> finish False (seq [no_xact, set_blockState TBLOCK_ABORT_PENDING])
      | TBLOCK_PARALLEL_INPROGRESS \<Rightarrow>
          raise (FATAL ''cannot abort during a parallel operation'') b
      | _ \<Rightarrow> raise (FATAL ''UserAbortTransactionBlock: unexpected state'') b)"

definition BeginImplicitTransactionBlock :: "backend \<Rightarrow> backend" where
  "BeginImplicitTransactionBlock b =
     (if blockState (cur b) = TBLOCK_STARTED
      then b\<lparr>cur := (cur b)\<lparr>blockState := TBLOCK_IMPLICIT_INPROGRESS\<rparr>\<rparr> else b)"

definition EndImplicitTransactionBlock :: "backend \<Rightarrow> backend" where
  "EndImplicitTransactionBlock b =
     (if blockState (cur b) = TBLOCK_IMPLICIT_INPROGRESS
      then b\<lparr>cur := (cur b)\<lparr>blockState := TBLOCK_STARTED\<rparr>\<rparr> else b)"

subsection \<open>RELEASE and ROLLBACK TO\<close>

fun find_savepoint :: "string \<Rightarrow> TransactionStateData list \<Rightarrow> nat option" where
  "find_savepoint sp [] = None"
| "find_savepoint sp (s # ss) =
     (if name s = Some sp then Some 0 else map_option Suc (find_savepoint sp ss))"

definition savepoint_target :: "string \<Rightarrow> (nat \<Rightarrow> xstmt) \<Rightarrow> xstmt" where
  "savepoint_target sp f = with_state (\<lambda>b.
     case find_savepoint sp (stack b) of
       None \<Rightarrow> raise (ERROR (''savepoint does not exist: '' @ sp))
     | Some t \<Rightarrow>
         if savepointLevel (stack b ! t) \<noteq> savepointLevel (cur b)
         then raise (ERROR (''savepoint does not exist within current savepoint level: '' @ sp))
         else f t)"

definition ReleaseSavepoint :: "string \<Rightarrow> xstmt" where
  "ReleaseSavepoint sp = seq
     [ when_do IsInParallelMode
         (raise (ERROR ''cannot release savepoints during a parallel operation'')),
       with_state (\<lambda>b. case blockState (cur b) of
          TBLOCK_INPROGRESS \<Rightarrow> raise (ERROR (''savepoint does not exist: '' @ sp))
        | TBLOCK_IMPLICIT_INPROGRESS \<Rightarrow>
            raise (ERROR ''RELEASE SAVEPOINT can only be used in transaction blocks'')
        | TBLOCK_SUBINPROGRESS \<Rightarrow> seq []
        | _ \<Rightarrow> raise (FATAL ''ReleaseSavepoint: unexpected state'')),
       savepoint_target sp (\<lambda>t. seq
         [ assert_that ''xact->blockState == TBLOCK_SUBINPROGRESS''
             (\<lambda>b. list_all (\<lambda>e. blockState e = TBLOCK_SUBINPROGRESS) (take (Suc t) (stack b))),
           upd (\<lambda>b. set_stack (map (\<lambda>e. e\<lparr>blockState := TBLOCK_SUBRELEASE\<rparr>) (take (Suc t) (stack b)) @
                              drop (Suc t) (stack b)) b) ]) ]"

definition restart_mark :: "TBlockState \<rightharpoonup> TBlockState" where
  "restart_mark = [TBLOCK_SUBINPROGRESS \<mapsto> TBLOCK_SUBRESTART,
                   TBLOCK_SUBABORT \<mapsto> TBLOCK_SUBABORT_RESTART]"

definition RollbackToSavepoint :: "string \<Rightarrow> xstmt" where
  "RollbackToSavepoint sp = seq
     [ when_do IsInParallelMode
         (raise (ERROR ''cannot rollback to savepoints during a parallel operation'')),
       with_state (\<lambda>b. case blockState (cur b) of
          TBLOCK_INPROGRESS \<Rightarrow> raise (ERROR (''savepoint does not exist: '' @ sp))
        | TBLOCK_ABORT \<Rightarrow> raise (ERROR (''savepoint does not exist: '' @ sp))
        | TBLOCK_IMPLICIT_INPROGRESS \<Rightarrow>
            raise (ERROR ''ROLLBACK TO SAVEPOINT can only be used in transaction blocks'')
        | TBLOCK_SUBINPROGRESS \<Rightarrow> seq []
        | TBLOCK_SUBABORT \<Rightarrow> seq []
        | _ \<Rightarrow> raise (FATAL ''RollbackToSavepoint: unexpected state'')),
       savepoint_target sp (\<lambda>t b.
         let (ss, ok) = mark_stack sub_abort_mark restart_mark (take (Suc t) (stack b));
             b' = set_stack (ss @ drop (Suc t) (stack b)) b in
         if ok then Inr b' else Inl (FATAL ''RollbackToSavepoint: unexpected state'', b')) ]"

subsection \<open>Internal subtransactions\<close>

definition BeginInternalSubTransaction :: "string option \<Rightarrow> xstmt" where
  "BeginInternalSubTransaction sp = seq
     [ when_do IsInParallelMode
         (raise (ERROR ''cannot start subtransactions during a parallel operation'')),
       with_state (\<lambda>b.
         if blockState (cur b) \<in> {TBLOCK_STARTED, TBLOCK_INPROGRESS, TBLOCK_IMPLICIT_INPROGRESS,
                                   TBLOCK_END, TBLOCK_PREPARE, TBLOCK_SUBINPROGRESS}
         then seq [PushTransaction,
                   when_do (\<lambda>b. sp \<noteq> None) (upd (set_cur (\<lambda>s. s\<lparr>name := sp\<rparr>)))]
         else raise (FATAL ''BeginInternalSubTransaction: unexpected state'')),
       CommitTransactionCommand,
       StartTransactionCommand ]"

definition ReleaseCurrentSubTransaction :: xstmt where
  "ReleaseCurrentSubTransaction = seq
     [ when_do IsInParallelMode
         (raise (ERROR ''cannot commit subtransactions during a parallel operation'')),
       when_do (\<lambda>b. blockState (cur b) \<noteq> TBLOCK_SUBINPROGRESS)
         (raise (ERROR ''ReleaseCurrentSubTransaction: unexpected state'')),
       assert_that ''s->state == TRANS_INPROGRESS'' (\<lambda>b. state (cur b) = TRANS_INPROGRESS),
       CommitSubTransaction,
       assert_that ''s->state == TRANS_INPROGRESS'' (\<lambda>b. state (cur b) = TRANS_INPROGRESS) ]"

definition RollbackAndReleaseCurrentSubTransaction :: xstmt where
  "RollbackAndReleaseCurrentSubTransaction = seq
     [ when_do (\<lambda>b. blockState (cur b) \<noteq> TBLOCK_SUBINPROGRESS \<and> blockState (cur b) \<noteq> TBLOCK_SUBABORT)
         (raise (FATAL ''RollbackAndReleaseCurrentSubTransaction: unexpected state'')),
       when_do (\<lambda>b. blockState (cur b) = TBLOCK_SUBINPROGRESS) AbortSubTransaction,
       CleanupSubTransaction,
       assert_that ''s->blockState''
         (\<lambda>b. blockState (cur b) \<in> {TBLOCK_SUBINPROGRESS, TBLOCK_INPROGRESS,
                                     TBLOCK_IMPLICIT_INPROGRESS, TBLOCK_STARTED}) ]"

end
