(* ===== verification/Xact_Effects.thy ===== *)
theory Xact_Effects
  imports Xact_Block
begin

section \<open>Effects of the low-level transaction routines\<close>

text \<open>
  What each routine of \<^verbatim>\<open>Xact_Core\<close> does to the state stack and to the transaction
  status, for the states in which the block-level code calls it.
\<close>

lemmas core_defs = AtStart_ResourceOwner_def AtSubStart_ResourceOwner_def ResourceOwnerCreate_def
  AtAbort_ResourceOwner_def AtSubAbort_ResourceOwner_def NewGUCNestLevel_def AtEOXact_GUC_def
  clear_owners_def reset_TransactionState_def XLogInsert_def IsInParallelMode_def Let_def

text \<open>
  The parts of the state that a routine leaves alone: the transaction status, the variables
  that describe the top-level transaction, the characteristics of the transaction, and what
  hardly any routine changes (the trace only grows).
\<close>

lemma if_do_const [simp]: "if_do (\<lambda>_. True) f g = f" "if_do (\<lambda>_. False) f g = g"
  by (auto simp: if_do_def fun_eq_iff)

definition same_log :: "backend \<Rightarrow> backend \<Rightarrow> bool" where
  "same_log b b' \<longleftrightarrow> pg_xact b' = pg_xact b \<and> pg_subtrans b' = pg_subtrans b \<and>
     xact_cache b' = xact_cache b \<and> xid_source b' = xid_source b"

definition same_rest :: "backend \<Rightarrow> backend \<Rightarrow> bool" where
  "same_rest b b' \<longleftrightarrow> env b' = env b \<and> ParallelCurrentXids b' = ParallelCurrentXids b \<and>
     save_XactIsoLevel b' = save_XactIsoLevel b \<and> save_XactReadOnly b' = save_XactReadOnly b \<and>
     save_XactDeferrable b' = save_XactDeferrable b \<and> (\<exists>t. trace b' = trace b @ t)"

definition same_top :: "backend \<Rightarrow> backend \<Rightarrow> bool" where
  "same_top b b' \<longleftrightarrow> XactTopFullTransactionId b' = XactTopFullTransactionId b \<and>
     SecurityRestrictionContext b' = SecurityRestrictionContext b \<and>
     TopTransactionResourceOwner b' = TopTransactionResourceOwner b"

definition same_chars :: "backend \<Rightarrow> backend \<Rightarrow> bool" where
  "same_chars b b' \<longleftrightarrow> XactReadOnly b' = XactReadOnly b \<and> XactDeferrable b' = XactDeferrable b \<and>
     XactIsoLevel b' = XactIsoLevel b"

lemmas frame_defs = same_log_def same_rest_def same_top_def same_chars_def

lemma same_log_trans [trans]: "same_log a b \<Longrightarrow> same_log b c \<Longrightarrow> same_log a c"
  by (simp add: same_log_def)

lemma same_rest_trans [trans]: "same_rest a b \<Longrightarrow> same_rest b c \<Longrightarrow> same_rest a c"
  by (auto simp: same_rest_def)

lemma same_top_trans [trans]: "same_top a b \<Longrightarrow> same_top b c \<Longrightarrow> same_top a c"
  by (simp add: same_top_def)

lemma same_chars_trans [trans]: "same_chars a b \<Longrightarrow> same_chars b c \<Longrightarrow> same_chars a c"
  by (simp add: same_chars_def)

lemmas frame_trans = same_log_trans same_rest_trans same_top_trans same_chars_trans

definition started_entry :: "backend \<Rightarrow> TransactionStateData" where
  "started_entry b = (cur b)
     \<lparr>fullTransactionId := InvalidFullTransactionId, nestingLevel := 1, gucNestLevel := 1,
      childXids := [], maxChildXids := 0, prevUser := CurrentUserId b,
      prevSecContext := SecurityRestrictionContext b,
      startedInRecovery := RecoveryInProgress (env b),
      subTransactionId := TopSubTransactionId, didLogXid := False,
      curTransactionOwner := Some (owner_seq b), state := TRANS_INPROGRESS\<rparr>"

lemma StartTransaction_effect:
  assumes "parents b = []" "\<not> FullTransactionIdIsValid (XactTopFullTransactionId b)"
    "state (cur b) = TRANS_DEFAULT" "SecurityRestrictionContext b = 0"
    "TopTransactionResourceOwner b = None"
  shows "\<exists>b'. StartTransaction b = Inr b' \<and> cur b' = started_entry b \<and> parents b' = [] \<and>
     same_log b b' \<and> same_rest b b' \<and>
     XactTopFullTransactionId b' = XactTopFullTransactionId b \<and>
     SecurityRestrictionContext b' = 0 \<and>
     TopTransactionResourceOwner b' = Some (owner_seq b) \<and>
     XactReadOnly b' = (RecoveryInProgress (env b) \<or> DefaultXactReadOnly (env b)) \<and>
     XactDeferrable b' = DefaultXactDeferrable (env b) \<and>
     XactIsoLevel b' = DefaultXactIsoLevel (env b)"
  unfolding StartTransaction_def using assms
  by (simp add: stmt_simps core_defs started_entry_def frame_defs)

definition idle_entry :: "TransactionStateData \<Rightarrow> TransactionStateData" where
  "idle_entry s = s\<lparr>curTransactionOwner := None, fullTransactionId := InvalidFullTransactionId,
     subTransactionId := InvalidSubTransactionId, nestingLevel := 0, gucNestLevel := 0,
     childXids := [], maxChildXids := 0, parallelModeLevel := 0, state := TRANS_DEFAULT\<rparr>"

lemma CleanupTransaction_effect:
  assumes "state (cur b) = TRANS_ABORT" "ParallelCurrentXids b = []"
  shows "\<exists>b'. CleanupTransaction b = Inr b' \<and> cur b' = idle_entry (cur b) \<and> parents b' = parents b \<and>
     same_log b b' \<and> same_rest b b' \<and>
     XactTopFullTransactionId b' = InvalidFullTransactionId \<and>
     SecurityRestrictionContext b' = SecurityRestrictionContext b \<and>
     TopTransactionResourceOwner b' = None \<and>
     same_chars b b'"
  unfolding CleanupTransaction_def using assms
  by (simp add: stmt_simps core_defs idle_entry_def frame_defs)

lemma PushTransaction_effect:
  assumes "currentSubTransactionId b + 1 \<noteq> InvalidSubTransactionId"
  shows "\<exists>b'. PushTransaction b = Inr b' \<and>
     cur b' = zero_TransactionStateData
               \<lparr>fullTransactionId := InvalidFullTransactionId,
                subTransactionId := currentSubTransactionId b + 1,
                nestingLevel := nestingLevel (cur b) + 1, gucNestLevel := GUCNestLevel b + 1,
                savepointLevel := savepointLevel (cur b), state := TRANS_DEFAULT,
                blockState := TBLOCK_SUBBEGIN, prevUser := CurrentUserId b,
                prevSecContext := SecurityRestrictionContext b, prevXactReadOnly := XactReadOnly b,
                parallelModeLevel := 0, assigned := False\<rparr> \<and>
     parents b' = cur b # parents b \<and>
     same_log b b' \<and> same_rest b b' \<and> same_top b b' \<and> same_chars b b'"
  unfolding PushTransaction_def using assms
  by (simp add: stmt_simps core_defs frame_defs)

lemma PushTransaction_overflow:
  assumes "currentSubTransactionId b + 1 = InvalidSubTransactionId"
  shows "\<exists>msg. PushTransaction b = Inl (ERROR msg, b)"
  unfolding PushTransaction_def using assms
  by (simp add: stmt_simps core_defs)

lemma StartSubTransaction_effect:
  assumes "parents b \<noteq> []"
  shows "\<exists>b'. StartSubTransaction b = Inr b' \<and>
     cur b' = (cur b)\<lparr>curTransactionOwner := Some (owner_seq b), state := TRANS_INPROGRESS\<rparr> \<and>
     parents b' = parents b \<and>
     same_log b b' \<and> same_rest b b' \<and> same_top b b' \<and> same_chars b b'"
  unfolding StartSubTransaction_def using assms
  by (simp add: stmt_simps core_defs frame_defs)

lemma CleanupSubTransaction_effect:
  assumes "parents b = p # ps"
  shows "\<exists>b'. CleanupSubTransaction b = Inr b' \<and> cur b' = p \<and> parents b' = ps \<and>
     same_log b b' \<and> same_rest b b' \<and> same_top b b' \<and> same_chars b b'"
  unfolding CleanupSubTransaction_def PopTransaction_def using assms
  by (simp add: stmt_simps core_defs frame_defs parent_def)

text \<open>
  Routines that only record calls and may raise: everything \<^verbatim>\<open>CommitTransaction\<close> does before
  the point of no return.
\<close>

definition trace_only :: "xstmt \<Rightarrow> bool" where
  "trace_only f \<longleftrightarrow> (\<forall>b. (\<exists>t. f b = Inr (b\<lparr>trace := trace b @ t\<rparr>)) \<or>
                        (\<exists>m t. f b = Inl (ERROR m, b\<lparr>trace := trace b @ t\<rparr>)))"

lemma trace_only_E:
  assumes "trace_only f"
  obtains t where "f b = Inr (b\<lparr>trace := trace b @ t\<rparr>)"
  | m t where "f b = Inl (ERROR m, b\<lparr>trace := trace b @ t\<rparr>)"
  using assms unfolding trace_only_def by blast

lemma trace_only_ext: "trace_only (ext f args)"
  by (force simp: trace_only_def ext_def intro: exI[of _ "[]"])

lemma trace_only_emit: "trace_only (emit f)"
  by (auto simp: trace_only_def emit_def)

lemma trace_only_when: "trace_only f \<Longrightarrow> trace_only (when_do P f)"
  by (auto simp: trace_only_def when_do_def intro: exI[of _ "[]"])

lemma trace_only_raise: "trace_only (raise (ERROR m))"
  by (auto simp: trace_only_def raise_def intro: exI[of _ "[]"])

lemma trace_only_with: "(\<And>b. trace_only (f b)) \<Longrightarrow> trace_only (with_state f)"
  by (simp add: trace_only_def with_state_def)

lemma trace_only_Nil: "trace_only (seq [])"
  by (auto simp: trace_only_def intro: exI[of _ "[]"])

lemma trace_only_Cons:
  assumes "trace_only f" "trace_only (seq fs)"
  shows "trace_only (seq (f # fs))"
  unfolding trace_only_def
proof
  fix b
  show "(\<exists>t. seq (f # fs) b = Inr (b\<lparr>trace := trace b @ t\<rparr>)) \<or>
        (\<exists>m t. seq (f # fs) b = Inl (ERROR m, b\<lparr>trace := trace b @ t\<rparr>))"
  proof (rule trace_only_E[OF assms(1), of b])
    fix t assume f: "f b = Inr (b\<lparr>trace := trace b @ t\<rparr>)"
    show ?thesis
      by (rule trace_only_E[OF assms(2), of "b\<lparr>trace := trace b @ t\<rparr>"]) (auto simp: f)
  qed auto
qed

lemmas trace_only_intros = trace_only_ext trace_only_emit trace_only_when trace_only_raise
  trace_only_with trace_only_Nil trace_only_Cons

lemma trace_only_portals: "trace_only (precommit_portals p n)"
proof (induction n)
  case 0
  show ?case unfolding precommit_portals.simps by (intro trace_only_intros)
next
  case (Suc n)
  then show ?case unfolding precommit_portals.simps by (intro trace_only_intros)
qed

lemma CommitTransaction_precommit_cases:
  assumes "parents b = []"
  obtains t where "CommitTransaction_precommit False b = Inr (b\<lparr>trace := trace b @ t\<rparr>)"
  | m t where "CommitTransaction_precommit False b = Inl (ERROR m, b\<lparr>trace := trace b @ t\<rparr>)"
proof -
  let ?f = "when_do (\<lambda>b. state (cur b) \<noteq> TRANS_INPROGRESS)
         (emit (\<lambda>b. [Warning ''CommitTransaction while in unexpected state'']))"
  let ?fs = "[with_state (\<lambda>b. precommit_portals False (portal_rounds (env b))),
       ext ''CallXactCallbacks_PRE_COMMIT'' [ABool False],
       when_do IsInParallelMode (emit (\<lambda>b. [Call ''AtEOXact_Parallel'' [ABool True]])),
       ext ''AfterTriggerEndXact'' [ABool True],
       ext ''PreCommit_on_commit_actions'' [],
       ext ''smgrDoPendingSyncs'' [ABool True, ABool False],
       ext ''AtEOXact_LargeObject'' [ABool True],
       ext ''PreCommit_Notify'' [],
       when_do (\<lambda>b. \<not> False) (ext ''PreCommit_CheckForSerializationFailure'' []),
       ext ''AtEOXact_RelationMap'' [ABool True, ABool False]]"
  have eq: "CommitTransaction_precommit False b = seq (?f # ?fs) b"
    using assms by (simp add: CommitTransaction_precommit_def stmt_simps)
  have "trace_only (seq (?f # ?fs))" by (intro trace_only_intros trace_only_portals)
  then show thesis using that unfolding eq by (rule trace_only_E)
qed

text \<open>Recording the commit: the one place where a transaction becomes committed.\<close>

definition commit_status :: "backend \<Rightarrow> clog" where
  "commit_status b =
     (if FullTransactionIdIsValid (XactTopFullTransactionId b)
      then set_tree_status TRANSACTION_STATUS_COMMITTED
             (XidFromFullTransactionId (XactTopFullTransactionId b)) (childXids (cur b)) (pg_xact b)
      else pg_xact b)"

lemma RecordTransactionCommit_log_effect:
  assumes "mk \<or> n_rels = 0 \<and> children = []"
  shows "\<exists>b'. RecordTransactionCommit_log xid mk n_rels n_msgs children b = Inr b' \<and>
     cur b' = cur b \<and> parents b' = parents b \<and>
     same_log b b' \<and> same_rest b b' \<and> same_top b b' \<and> same_chars b b'"
  unfolding RecordTransactionCommit_log_def using assms
  by (auto simp: stmt_simps core_defs frame_defs)

lemma RecordTransactionCommit_mark_effect:
  "\<exists>b'. RecordTransactionCommit_mark xid mk wrote n_rels children b = Inr b' \<and>
     cur b' = cur b \<and> parents b' = parents b \<and>
     pg_xact b' = (if mk then set_tree_status TRANSACTION_STATUS_COMMITTED xid children (pg_xact b)
                   else pg_xact b) \<and>
     same_log b (b'\<lparr>pg_xact := pg_xact b\<rparr>) \<and> same_rest b b' \<and> same_top b b' \<and> same_chars b b'"
  unfolding RecordTransactionCommit_mark_def
  by (simp add: stmt_simps core_defs frame_defs TransactionIdCommitTree_def
      TransactionIdAsyncCommitTree_def)

lemma RecordTransactionCommit_effect:
  assumes "FullTransactionIdIsValid (XactTopFullTransactionId b) \<or>
           nrels (env b) = 0 \<and> childXids (cur b) = []"
  shows "\<exists>x b'. RecordTransactionCommit b = Inr (x, b') \<and> cur b' = cur b \<and> parents b' = parents b \<and>
     pg_xact b' = commit_status b \<and> same_log b (b'\<lparr>pg_xact := pg_xact b\<rparr>) \<and>
     same_rest b b' \<and> same_top b b' \<and> same_chars b b'"
proof -
  define b1 where "b1 = (if XLogLogicalInfoActive (env b)
                then b\<lparr>trace := trace b @ [Call ''LogLogicalInvalidations'' []]\<rparr> else b)"
  define xid where "xid = XidFromFullTransactionId (XactTopFullTransactionId b)"
  define mk where "mk = TransactionIdIsValid xid"
  define msgs where "msgs = (if XLogStandbyInfoActive (env b1) then nmsgs (env b1) else 0)"
  define wrote where "wrote = (XactLastRecEnd b1 \<noteq> 0 \<or> \<not> mk \<and> msgs \<noteq> 0)"
  have eq: "RecordTransactionCommit b =
      (case RecordTransactionCommit_log xid mk (nrels (env b1)) msgs (childXids (cur b1)) b1 of
        Inl e \<Rightarrow> Inl e
      | Inr b2 \<Rightarrow>
          if \<not> mk \<and> \<not> wrote then Inr (InvalidTransactionId, b2)
          else case RecordTransactionCommit_mark xid mk wrote (nrels (env b1)) (childXids (cur b1)) b2 of
              Inl e \<Rightarrow> Inl e
            | Inr b3 \<Rightarrow> Inr (TransactionIdLatest xid (childXids (cur b1)), b3))"
    unfolding RecordTransactionCommit_def Let_def GetTopTransactionIdIfAny_def
      xactGetCommittedChildren_def b1_def xid_def mk_def msgs_def wrote_def by (rule refl)
  have b1: "cur b1 = cur b" "parents b1 = parents b" "env b1 = env b" "same_log b b1"
    "same_rest b b1" "same_top b b1" "same_chars b b1"
    by (auto simp: b1_def frame_defs)
  have pre: "mk \<or> nrels (env b1) = 0 \<and> childXids (cur b1) = []"
    using assms by (simp add: FullTransactionIdIsValid_def xid_def mk_def b1)
  obtain b2 where b2: "RecordTransactionCommit_log xid mk (nrels (env b1)) msgs (childXids (cur b1)) b1 = Inr b2"
    "cur b2 = cur b1" "parents b2 = parents b1" "same_log b1 b2" "same_rest b1 b2" "same_top b1 b2"
    "same_chars b1 b2"
    using RecordTransactionCommit_log_effect[OF pre] by blast
  obtain b3 where b3: "RecordTransactionCommit_mark xid mk wrote (nrels (env b1)) (childXids (cur b1)) b2 = Inr b3"
    "cur b3 = cur b2" "parents b3 = parents b2"
    "pg_xact b3 = (if mk then set_tree_status TRANSACTION_STATUS_COMMITTED xid (childXids (cur b1)) (pg_xact b2)
                   else pg_xact b2)"
    "same_log b2 (b3\<lparr>pg_xact := pg_xact b2\<rparr>)" "same_rest b2 b3" "same_top b2 b3" "same_chars b2 b3"
    using RecordTransactionCommit_mark_effect by blast
  have st: "commit_status b = (if mk then set_tree_status TRANSACTION_STATUS_COMMITTED xid (childXids (cur b)) (pg_xact b)
                   else pg_xact b)"
    by (simp add: commit_status_def mk_def xid_def FullTransactionIdIsValid_def)
  have f2: "same_rest b b2" "same_top b b2" "same_chars b b2" "same_log b b2"
    using b1(4-) b2(4-) by (simp_all only: frame_trans)
  have f3: "same_rest b b3" "same_top b b3" "same_chars b b3" "same_log b (b3\<lparr>pg_xact := pg_xact b\<rparr>)"
    using f2 b3(5-) by (simp_all only: frame_trans) (simp add: same_log_def)
  show ?thesis
  proof (cases "\<not> mk \<and> \<not> wrote")
    case True
    then show ?thesis using eq b1(1,2) b2(1-3) f2 st by (simp add: same_log_def)
  next
    case False
    then have "RecordTransactionCommit b = Inr (TransactionIdLatest xid (childXids (cur b1)), b3)"
      by (simp only: eq b2(1) b3(1) sum.case if_False)
    moreover have "pg_xact b3 = commit_status b" using b1(1) b3(4) f2(4) st by (simp add: same_log_def)
    ultimately show ?thesis using b1(1,2) b2(2,3) b3(2,3) f3 by simp
  qed
qed

lemma RecordTransactionCommit_error:
  assumes "\<not> FullTransactionIdIsValid (XactTopFullTransactionId b)" "nrels (env b) \<noteq> 0"
  shows "\<exists>m b'. RecordTransactionCommit b = Inl (ERROR m, b') \<and> cur b' = cur b \<and> parents b' = parents b \<and>
     same_log b b' \<and> same_rest b b' \<and> same_top b b' \<and> same_chars b b'"
  using assms
  unfolding RecordTransactionCommit_def RecordTransactionCommit_log_def
    GetTopTransactionIdIfAny_def FullTransactionIdIsValid_def
  by (cases "XLogLogicalInfoActive (env b)") (simp_all add: Let_def stmt_simps frame_defs)

lemma CommitTransaction_postcommit_effect:
  assumes "ParallelCurrentXids b = []" "parallelModeLevel (cur b) = 0"
  shows "\<exists>b'. CommitTransaction_postcommit pw x b = Inr b' \<and> cur b' = idle_entry (cur b) \<and>
     parents b' = parents b \<and> same_log b b' \<and> same_rest b b' \<and>
     XactTopFullTransactionId b' = InvalidFullTransactionId \<and>
     SecurityRestrictionContext b' = SecurityRestrictionContext b \<and>
     TopTransactionResourceOwner b' = None \<and> same_chars b b'"
  unfolding CommitTransaction_postcommit_def using assms
  by (simp add: stmt_simps core_defs frame_defs idle_entry_def)

text \<open>
  \<^verbatim>\<open>CommitTransaction\<close> either commits and leaves an idle entry, or raises before the status
  of any transaction is touched.
\<close>

lemma CommitTransaction_effect:
  assumes "parents b = []" "blockState (cur b) \<noteq> TBLOCK_PARALLEL_INPROGRESS"
    "ParallelCurrentXids b = []"
    "FullTransactionIdIsValid (XactTopFullTransactionId b) \<or> childXids (cur b) = []"
  obtains
    b' where "CommitTransaction b = Inr b'" "cur b' = idle_entry (cur b)" "parents b' = []"
      "pg_xact b' = commit_status b" "same_log b (b'\<lparr>pg_xact := pg_xact b\<rparr>)" "same_rest b b'"
      "XactTopFullTransactionId b' = InvalidFullTransactionId"
      "SecurityRestrictionContext b' = SecurityRestrictionContext b"
      "TopTransactionResourceOwner b' = None" "same_chars b b'"
  | m b' where "CommitTransaction b = Inl (ERROR m, b')"
      "cur b' = cur b \<or> cur b' = (cur b)\<lparr>state := TRANS_COMMIT, parallelModeLevel := 0\<rparr>"
      "parents b' = []" "same_log b b'" "same_rest b b'" "same_top b b'" "same_chars b b'"
proof -
  have unf: "CommitTransaction b = seq
     [ CommitTransaction_precommit False,
       set_state TRANS_COMMIT,
       upd (set_cur (\<lambda>s. s\<lparr>parallelModeLevel := 0\<rparr>)),
       let_do RecordTransactionCommit (CommitTransaction_postcommit False) ] b"
    using assms(2) by (simp add: CommitTransaction_def with_state_def Let_def)
  show thesis
  proof (rule CommitTransaction_precommit_cases[OF assms(1)])
    fix m t assume e: "CommitTransaction_precommit False b = Inl (ERROR m, b\<lparr>trace := trace b @ t\<rparr>)"
    show thesis by (rule that(2)[of m "b\<lparr>trace := trace b @ t\<rparr>"]) (simp_all add: unf e frame_defs assms(1))
  next
    fix t assume ok: "CommitTransaction_precommit False b = Inr (b\<lparr>trace := trace b @ t\<rparr>)"
    define c where "c = b\<lparr>trace := trace b @ t, cur := (cur b)\<lparr>state := TRANS_COMMIT, parallelModeLevel := 0\<rparr>\<rparr>"
    have unf2: "CommitTransaction b = let_do RecordTransactionCommit (CommitTransaction_postcommit False) c"
      using ok by (simp add: unf set_state_def upd_def set_cur_def c_def split: sum.split)
    have c: "cur c = (cur b)\<lparr>state := TRANS_COMMIT, parallelModeLevel := 0\<rparr>" "parents c = []"
      "same_log b c" "same_rest b c" "same_top b c" "same_chars b c"
      using assms(1) by (simp_all add: c_def frame_defs)
    show thesis
    proof (cases "FullTransactionIdIsValid (XactTopFullTransactionId c) \<or> nrels (env c) = 0")
      case False
      then obtain m b' where e: "RecordTransactionCommit c = Inl (ERROR m, b')" "cur b' = cur c"
        "parents b' = parents c" "same_log c b'" "same_rest c b'" "same_top c b'" "same_chars c b'"
        using RecordTransactionCommit_error[of c] by blast
      show thesis
      proof (rule that(2)[of m b'])
        show "CommitTransaction b = Inl (ERROR m, b')" by (simp add: unf2 let_do_def e(1))
        show "same_log b b'" by (rule same_log_trans[OF c(3) e(4)])
        show "same_rest b b'" by (rule same_rest_trans[OF c(4) e(5)])
        show "same_top b b'" by (rule same_top_trans[OF c(5) e(6)])
        show "same_chars b b'" by (rule same_chars_trans[OF c(6) e(7)])
      qed (use c(1,2) e(2,3) in simp_all)
    next
      case True
      then have "FullTransactionIdIsValid (XactTopFullTransactionId c) \<or>
           nrels (env c) = 0 \<and> childXids (cur c) = []"
        using assms(4) c(1,5) by (auto simp: same_top_def)
      from RecordTransactionCommit_effect[OF this] obtain x d where
        d: "RecordTransactionCommit c = Inr (x, d)" "cur d = cur c" "parents d = parents c"
          "pg_xact d = commit_status c" "same_log c (d\<lparr>pg_xact := pg_xact c\<rparr>)"
          "same_rest c d" "same_top c d" "same_chars c d" by blast
      have "ParallelCurrentXids d = []" "parallelModeLevel (cur d) = 0"
        using d(2,6) c(1,4) assms(3) by (simp_all add: same_rest_def)
      from CommitTransaction_postcommit_effect[OF this] obtain b' where
        e: "CommitTransaction_postcommit False x d = Inr b'" "cur b' = idle_entry (cur d)"
          "parents b' = parents d" "same_log d b'" "same_rest d b'"
          "XactTopFullTransactionId b' = InvalidFullTransactionId"
          "SecurityRestrictionContext b' = SecurityRestrictionContext d"
          "TopTransactionResourceOwner b' = None" "same_chars d b'" by blast
      have st: "commit_status c = commit_status b" using c by (simp add: commit_status_def frame_defs)
      show thesis
      proof (rule that(1)[of b'])
        show "CommitTransaction b = Inr b'" by (simp add: unf2 let_do_def d(1) e(1))
        show "cur b' = idle_entry (cur b)" using c(1) d(2) e(2) by (simp add: idle_entry_def)
        show "same_rest b b'" by (rule same_rest_trans[OF same_rest_trans[OF c(4) d(6)] e(5)])
        show "same_chars b b'" by (rule same_chars_trans[OF same_chars_trans[OF c(6) d(8)] e(9)])
        show "same_log b (b'\<lparr>pg_xact := pg_xact b\<rparr>)" "pg_xact b' = commit_status b"
          using c(3) d(4,5) e(4) st by (simp_all add: same_log_def)
        show "SecurityRestrictionContext b' = SecurityRestrictionContext b"
          using c(5) d(7) e(7) by (simp add: same_top_def)
      qed (use c(2) d(3) e(3,6,8) in simp_all)
    qed
  qed
qed

subsection \<open>Aborting\<close>

text \<open>
  The cache of \<^verbatim>\<open>TransactionLogFetch\<close> only ever holds a final status, and the right one.
\<close>

definition cache_ok :: "clog \<Rightarrow> fetch_cache \<Rightarrow> bool" where
  "cache_ok clog c \<longleftrightarrow> (TransactionIdIsNormal (cachedFetchXid c) \<longrightarrow>
     cachedFetchXidStatus c = clog (cachedFetchXid c) \<and>
     cachedFetchXidStatus c \<in> {TRANSACTION_STATUS_COMMITTED, TRANSACTION_STATUS_ABORTED})"

lemma TransactionIdDidCommit_in_progress:
  assumes "TransactionIdIsNormal xid" "clog xid = TRANSACTION_STATUS_IN_PROGRESS" "cache_ok clog c"
  shows "TransactionIdDidCommit clog subt xmin xid c = Some (False, c)"
  using assms by (subst TransactionIdDidCommit.simps)
    (auto simp: TransactionLogFetch_def cache_ok_def)

lemma cache_ok_set_tree_status:
  assumes "cache_ok clog c" "\<forall>x\<in>insert xid (set xids). clog x = TRANSACTION_STATUS_IN_PROGRESS"
  shows "cache_ok (set_tree_status st xid xids clog) c"
  using assms by (auto simp: cache_ok_def set_tree_status_def)

definition abort_status :: "backend \<Rightarrow> clog" where
  "abort_status b =
     (if FullTransactionIdIsValid (fullTransactionId (cur b))
      then set_tree_status TRANSACTION_STATUS_ABORTED
             (XidFromFullTransactionId (fullTransactionId (cur b))) (childXids (cur b)) (pg_xact b)
      else pg_xact b)"

definition can_abort :: "backend \<Rightarrow> bool" where
  "can_abort b \<longleftrightarrow> cache_ok (pg_xact b) (xact_cache b) \<and>
     (FullTransactionIdIsValid (fullTransactionId (cur b)) \<longrightarrow>
      (\<forall>x\<in>insert (XidFromFullTransactionId (fullTransactionId (cur b))) (set (childXids (cur b))).
         TransactionIdIsNormal x \<and> pg_xact b x = TRANSACTION_STATUS_IN_PROGRESS))"

lemma RecordTransactionAbort_effect:
  assumes "can_abort b"
  shows "\<exists>x b'. RecordTransactionAbort isSub b = Inr (x, b') \<and> cur b' = cur b \<and> parents b' = parents b \<and>
     pg_xact b' = abort_status b \<and> same_log b (b'\<lparr>pg_xact := pg_xact b\<rparr>) \<and>
     same_rest b b' \<and> same_top b b' \<and> same_chars b b'"
proof (cases "FullTransactionIdIsValid (fullTransactionId (cur b))")
  case False
  then show ?thesis
    by (simp add: RecordTransactionAbort_def GetCurrentTransactionIdIfAny_def abort_status_def
        FullTransactionIdIsValid_def frame_defs)
next
  case True
  then have "TransactionIdDidCommit (pg_xact b) (pg_subtrans b) (TransactionXmin (env b))
      (XidFromFullTransactionId (fullTransactionId (cur b))) (xact_cache b) = Some (False, xact_cache b)"
    using assms by (auto simp: can_abort_def intro: TransactionIdDidCommit_in_progress)
  then show ?thesis using True
    by (simp add: RecordTransactionAbort_def GetCurrentTransactionIdIfAny_def abort_status_def
        FullTransactionIdIsValid_def frame_defs core_defs xactGetCommittedChildren_def
        TransactionIdAbortTree_def)
qed

lemma AbortTransaction_begin_effect:
  assumes "parents b = []"
  shows "\<exists>b'. AbortTransaction_begin pw b = Inr b' \<and>
     cur b' = (cur b)\<lparr>state := TRANS_ABORT, parallelModeLevel := 0\<rparr> \<and> parents b' = [] \<and>
     same_log b b' \<and> same_rest b b' \<and> same_chars b b' \<and>
     XactTopFullTransactionId b' = XactTopFullTransactionId b \<and>
     SecurityRestrictionContext b' = prevSecContext (cur b) \<and>
     TopTransactionResourceOwner b' = TopTransactionResourceOwner b"
  unfolding AbortTransaction_begin_def using assms
  by (cases "parallelModeLevel (cur b) = 0") (simp_all add: stmt_simps core_defs frame_defs)

lemma AbortTransaction_end_effect:
  "\<exists>b'. AbortTransaction_end pw x b = Inr b' \<and> cur b' = cur b \<and> parents b' = parents b \<and>
     same_log b b' \<and> same_rest b b' \<and> same_top b b' \<and> same_chars b b'"
  unfolding AbortTransaction_end_def
  by (cases "TopTransactionResourceOwner b") (simp_all add: stmt_simps core_defs frame_defs)

lemma AbortTransaction_effect:
  assumes "parents b = []" "blockState (cur b) \<noteq> TBLOCK_PARALLEL_INPROGRESS" "can_abort b"
  obtains b' where "AbortTransaction b = Inr b'"
    "cur b' = (cur b)\<lparr>state := TRANS_ABORT, parallelModeLevel := 0\<rparr>" "parents b' = []"
    "pg_xact b' = abort_status b" "same_log b (b'\<lparr>pg_xact := pg_xact b\<rparr>)" "same_rest b b'"
    "same_chars b b'" "XactTopFullTransactionId b' = XactTopFullTransactionId b"
    "SecurityRestrictionContext b' = prevSecContext (cur b)"
    "TopTransactionResourceOwner b' = TopTransactionResourceOwner b"
proof -
  have unf: "AbortTransaction b = seq
     [ AbortTransaction_begin False,
       let_do (RecordTransactionAbort False) (AbortTransaction_end False) ] b"
    using assms(2) by (simp add: AbortTransaction_def with_state_def Let_def)
  from AbortTransaction_begin_effect[OF assms(1), of False] obtain c where
    c: "AbortTransaction_begin False b = Inr c"
      "cur c = (cur b)\<lparr>state := TRANS_ABORT, parallelModeLevel := 0\<rparr>" "parents c = []"
      "same_log b c" "same_rest b c" "same_chars b c"
      "XactTopFullTransactionId c = XactTopFullTransactionId b"
      "SecurityRestrictionContext c = prevSecContext (cur b)"
      "TopTransactionResourceOwner c = TopTransactionResourceOwner b" by blast
  have "can_abort c" using assms(3) c(2,4) by (simp add: can_abort_def same_log_def)
  from RecordTransactionAbort_effect[OF this, of False] obtain x d where
    d: "RecordTransactionAbort False c = Inr (x, d)" "cur d = cur c" "parents d = parents c"
      "pg_xact d = abort_status c" "same_log c (d\<lparr>pg_xact := pg_xact c\<rparr>)"
      "same_rest c d" "same_top c d" "same_chars c d" by blast
  from AbortTransaction_end_effect[of False x d] obtain b' where
    e: "AbortTransaction_end False x d = Inr b'" "cur b' = cur d" "parents b' = parents d"
      "same_log d b'" "same_rest d b'" "same_top d b'" "same_chars d b'" by blast
  have st: "abort_status c = abort_status b" using c(2,4) by (simp add: abort_status_def same_log_def)
  have "AbortTransaction b = Inr b'" by (simp add: unf let_do_def c(1) d(1) e(1))
  then show thesis
  proof (rule that)
    show "same_rest b b'" by (rule same_rest_trans[OF same_rest_trans[OF c(5) d(6)] e(5)])
    show "same_chars b b'" by (rule same_chars_trans[OF same_chars_trans[OF c(6) d(8)] e(7)])
    show "same_log b (b'\<lparr>pg_xact := pg_xact b\<rparr>)" "pg_xact b' = abort_status b"
      using c(4) d(4,5) e(4) st by (simp_all add: same_log_def)
    show "XactTopFullTransactionId b' = XactTopFullTransactionId b"
      "SecurityRestrictionContext b' = prevSecContext (cur b)"
      "TopTransactionResourceOwner b' = TopTransactionResourceOwner b"
      using c(7-) d(7) e(6) by (simp_all add: same_top_def)
  qed (use c(2,3) d(2,3) e(2,3) in simp_all)
qed

definition aborted_sub :: "TransactionStateData \<Rightarrow> TransactionStateData" where
  "aborted_sub s =
     (if curTransactionOwner s \<noteq> None \<and> FullTransactionIdIsValid (fullTransactionId s)
      then s\<lparr>state := TRANS_ABORT, parallelModeLevel := 0, childXids := [], maxChildXids := 0\<rparr>
      else s\<lparr>state := TRANS_ABORT, parallelModeLevel := 0\<rparr>)"

lemma AbortSubTransaction_owned_effect:
  assumes "can_abort b"
  shows "\<exists>b'. AbortSubTransaction_owned b = Inr b' \<and>
     cur b' = (if FullTransactionIdIsValid (fullTransactionId (cur b))
               then (cur b)\<lparr>childXids := [], maxChildXids := 0\<rparr> else cur b) \<and>
     parents b' = parents b \<and>
     pg_xact b' = abort_status b \<and> same_log b (b'\<lparr>pg_xact := pg_xact b\<rparr>) \<and>
     same_rest b b' \<and> same_top b b' \<and> same_chars b b'"
proof -
  define c where "c = b\<lparr>trace := trace b @ [Call ''AfterTriggerEndSubXact'' [ABool False],
         Call ''AtSubAbort_Portals'' (subid_args b @
           [AOwner (curTransactionOwner (cur b)), AOwner (curTransactionOwner (parent b))]),
         Call ''AtEOSubXact_LargeObject'' (ABool False # subid_args b),
         Call ''AtSubAbort_Notify'' []]\<rparr>"
  have c: "cur c = cur b" "parents c = parents b" "same_log b c" "same_rest b c" "same_top b c"
    "same_chars b c" by (simp_all add: c_def frame_defs)
  have "can_abort c" using assms c(1,3) by (simp add: can_abort_def same_log_def)
  from RecordTransactionAbort_effect[OF this, of True] obtain x d where
    d: "RecordTransactionAbort True c = Inr (x, d)" "cur d = cur c" "parents d = parents c"
      "pg_xact d = abort_status c" "same_log c (d\<lparr>pg_xact := pg_xact c\<rparr>)"
      "same_rest c d" "same_top c d" "same_chars c d" by blast
  have st: "abort_status c = abort_status b" using c(1,3) by (simp add: abort_status_def same_log_def)
  have "\<exists>b'. AbortSubTransaction_owned b = Inr b' \<and>
     cur b' = (if FullTransactionIdIsValid (fullTransactionId (cur d))
               then (cur d)\<lparr>childXids := [], maxChildXids := 0\<rparr> else cur d) \<and>
     parents b' = parents d \<and> same_log d b' \<and> same_rest d b' \<and> same_top d b' \<and> same_chars d b'"
    unfolding AbortSubTransaction_owned_def using d(1)[unfolded c_def]
    by (cases "FullTransactionIdIsValid (fullTransactionId (cur d))")
       (simp_all add: stmt_simps core_defs frame_defs AtSubAbort_childXids_def)
  then obtain b' where e: "AbortSubTransaction_owned b = Inr b'"
     "cur b' = (if FullTransactionIdIsValid (fullTransactionId (cur d))
               then (cur d)\<lparr>childXids := [], maxChildXids := 0\<rparr> else cur d)"
     "parents b' = parents d" "same_log d b'" "same_rest d b'" "same_top d b'" "same_chars d b'"
    by blast
  show ?thesis
  proof (intro exI conjI)
    show "AbortSubTransaction_owned b = Inr b'" by (rule e(1))
    show "same_rest b b'" by (rule same_rest_trans[OF same_rest_trans[OF c(4) d(6)] e(5)])
    show "same_top b b'" by (rule same_top_trans[OF same_top_trans[OF c(5) d(7)] e(6)])
    show "same_chars b b'" by (rule same_chars_trans[OF same_chars_trans[OF c(6) d(8)] e(7)])
    show "same_log b (b'\<lparr>pg_xact := pg_xact b\<rparr>)" "pg_xact b' = abort_status b"
      using c(3) d(4,5) e(4) st by (simp_all add: same_log_def)
  qed (use c(1,2) d(2,3) e(2,3) in simp_all)
qed

lemma AbortSubTransaction_effect:
  assumes "can_abort b" "curTransactionOwner (cur b) = None \<Longrightarrow> \<not> FullTransactionIdIsValid (fullTransactionId (cur b))"
  obtains b' where "AbortSubTransaction b = Inr b'" "cur b' = aborted_sub (cur b)"
    "parents b' = parents b" "pg_xact b' = abort_status b" "same_log b (b'\<lparr>pg_xact := pg_xact b\<rparr>)"
    "same_rest b b'" "XactTopFullTransactionId b' = XactTopFullTransactionId b"
    "SecurityRestrictionContext b' = prevSecContext (cur b)"
    "TopTransactionResourceOwner b' = TopTransactionResourceOwner b"
    "XactReadOnly b' = prevXactReadOnly (cur b)" "XactIsoLevel b' = XactIsoLevel b"
    "XactDeferrable b' = XactDeferrable b"
proof -
  define pre where "pre = seq
     [ emit (\<lambda>b. [Call ''AtSubAbort_Memory'' []]),
       upd AtSubAbort_ResourceOwner,
       emit (\<lambda>b. abort_prologue),
       when_do (\<lambda>b. state (cur b) \<noteq> TRANS_INPROGRESS)
         (emit (\<lambda>b. [Warning ''AbortSubTransaction while in unexpected state''])),
       set_state TRANS_ABORT,
       upd (\<lambda>b. b\<lparr>CurrentUserId := prevUser (cur b),
                  SecurityRestrictionContext := prevSecContext (cur b)\<rparr>),
       emit (\<lambda>b. [Call ''ResetReindexState'' [ANat (nestingLevel (cur b))],
         Call ''ResetLogicalStreamingState'' []]),
       when_do IsInParallelMode (seq
         [ emit (\<lambda>b. [Call ''AtEOSubXact_Parallel'' [ABool False, AXid (subTransactionId (cur b))]]),
           upd (set_cur (\<lambda>s. s\<lparr>parallelModeLevel := 0\<rparr>)) ])]"
  have unf: "AbortSubTransaction b = (case pre b of Inl e \<Rightarrow> Inl e | Inr c \<Rightarrow>
      seq [when_do (\<lambda>b. curTransactionOwner (cur b) \<noteq> None) AbortSubTransaction_owned,
           upd (\<lambda>b. b\<lparr>XactReadOnly := prevXactReadOnly (cur b)\<rparr>)] c)"
    unfolding AbortSubTransaction_def pre_def by (subst seq_append[symmetric]) simp
  have "\<exists>c. pre b = Inr c \<and> cur c = (cur b)\<lparr>state := TRANS_ABORT, parallelModeLevel := 0\<rparr> \<and>
     parents c = parents b \<and> same_log b c \<and> same_rest b c \<and> same_chars b c \<and>
     XactTopFullTransactionId c = XactTopFullTransactionId b \<and>
     SecurityRestrictionContext c = prevSecContext (cur b) \<and>
     TopTransactionResourceOwner c = TopTransactionResourceOwner b"
    unfolding pre_def
    by (cases "parallelModeLevel (cur b) = 0") (simp_all add: stmt_simps core_defs frame_defs)
  then obtain c where c: "pre b = Inr c" "cur c = (cur b)\<lparr>state := TRANS_ABORT, parallelModeLevel := 0\<rparr>"
     "parents c = parents b" "same_log b c" "same_rest b c" "same_chars b c"
     "XactTopFullTransactionId c = XactTopFullTransactionId b"
     "SecurityRestrictionContext c = prevSecContext (cur b)"
     "TopTransactionResourceOwner c = TopTransactionResourceOwner b" by blast
  have st: "abort_status c = abort_status b" using c(2,4) by (simp add: abort_status_def same_log_def)
  show thesis
  proof (cases "curTransactionOwner (cur b) = None")
    case True
    then show thesis
      by (intro that[of "c\<lparr>XactReadOnly := prevXactReadOnly (cur c)\<rparr>"])
         (use c assms(2) in \<open>simp_all add: unf stmt_simps frame_defs aborted_sub_def abort_status_def\<close>)
  next
    case False
    have "can_abort c" using assms c(2,4) by (simp add: can_abort_def same_log_def)
    from AbortSubTransaction_owned_effect[OF this] obtain d where
      d: "AbortSubTransaction_owned c = Inr d"
        "cur d = (if FullTransactionIdIsValid (fullTransactionId (cur c))
               then (cur c)\<lparr>childXids := [], maxChildXids := 0\<rparr> else cur c)" "parents d = parents c"
        "pg_xact d = abort_status c" "same_log c (d\<lparr>pg_xact := pg_xact c\<rparr>)"
        "same_rest c d" "same_top c d" "same_chars c d" by blast
    define b' where "b' = d\<lparr>XactReadOnly := prevXactReadOnly (cur d)\<rparr>"
    show thesis
    proof (rule that[of b'])
      show "AbortSubTransaction b = Inr b'"
        using False c(2) by (simp add: unf c(1) stmt_simps d(1) b'_def)
      show "cur b' = aborted_sub (cur b)" using False by (simp add: b'_def d(2) c(2) aborted_sub_def)
      show "same_log b (b'\<lparr>pg_xact := pg_xact b\<rparr>)" "pg_xact b' = abort_status b"
        using c(4) d(4,5) st by (simp_all add: same_log_def b'_def)
      show "same_rest b b'" using same_rest_trans[OF c(5) d(6)] by (simp add: same_rest_def b'_def)
      show "XactReadOnly b' = prevXactReadOnly (cur b)" by (simp add: b'_def d(2) c(2))
      show "XactIsoLevel b' = XactIsoLevel b" "XactDeferrable b' = XactDeferrable b"
        using same_chars_trans[OF c(6) d(8)] by (simp_all add: same_chars_def b'_def)
    qed (use c(3,7-) d(3,7) in \<open>simp_all add: b'_def same_top_def\<close>)
  qed
qed

subsection \<open>Command counter and subtransaction commit\<close>

lemma CommandCounterIncrement_cases:
  assumes "\<not> IsParallelWorker (env b)"
  obtains b' where "CommandCounterIncrement b = Inr b'" "cur b' = cur b" "parents b' = parents b"
    "same_log b b'" "same_rest b b'" "same_top b b'" "same_chars b b'"
  | m where "CommandCounterIncrement b = Inl (ERROR m, b)"
proof -
  consider (unused) "\<not> currentCommandIdUsed b" | (par) "currentCommandIdUsed b" "IsInParallelMode b"
    | (over) "currentCommandIdUsed b" "\<not> IsInParallelMode b" "currentCommandId b + 1 = InvalidCommandId"
    | (ok) "currentCommandIdUsed b" "\<not> IsInParallelMode b" "currentCommandId b + 1 \<noteq> InvalidCommandId"
    by blast
  then show thesis
  proof cases
    case unused
    then show thesis by (intro that(1)) (simp_all add: CommandCounterIncrement_def stmt_simps frame_defs)
  next
    case par
    then show thesis by (intro that(2)) (simp add: CommandCounterIncrement_def stmt_simps)
  next
    case over
    then show thesis using assms by (intro that(2)) (simp add: CommandCounterIncrement_def stmt_simps)
  next
    case ok
    then have "\<exists>b'. CommandCounterIncrement b = Inr b' \<and> cur b' = cur b \<and> parents b' = parents b \<and>
        same_log b b' \<and> same_rest b b' \<and> same_top b b' \<and> same_chars b b'"
      using assms by (simp add: CommandCounterIncrement_def stmt_simps frame_defs)
    then show thesis using that(1) by blast
  qed
qed

text \<open>The entry \<open>p'\<close> is \<open>p\<close> after taking over the xids of its committed child \<open>s\<close>.\<close>

definition adopts :: "TransactionStateData \<Rightarrow> TransactionStateData \<Rightarrow> TransactionStateData \<Rightarrow> bool" where
  "adopts p s p' \<longleftrightarrow>
     (if FullTransactionIdIsValid (fullTransactionId s)
      then (\<exists>m. p' = p\<lparr>maxChildXids := m, childXids := childXids p @
                       [XidFromFullTransactionId (fullTransactionId s)] @ childXids s\<rparr>)
      else p' = p)"

lemma AtSubCommit_childXids_cases:
  assumes "parents b = p # ps" "FullTransactionIdIsValid (fullTransactionId (cur b))"
  obtains b' p' where "AtSubCommit_childXids b = Inr b'"
    "cur b' = (cur b)\<lparr>childXids := [], maxChildXids := 0\<rparr>" "parents b' = p' # ps" "adopts p (cur b) p'"
    "same_log b b'" "same_rest b b'" "same_top b b'" "same_chars b b'"
  | m where "AtSubCommit_childXids b = Inl (ERROR m, b)"
proof -
  define n where "n = length (childXids p) + length (childXids (cur b)) + 1"
  define f where "f = (maxChildXids p < n \<and> min (n * 2) MaxChildXids < n)"
  show thesis
  proof (cases f)
    case True
    then have "\<exists>m. AtSubCommit_childXids b = Inl (ERROR m, b)"
      using assms by (simp add: AtSubCommit_childXids_def stmt_simps parent_def Let_def f_def n_def)
    then show thesis using that(2) by blast
  next
    case False
    define p' where "p' = p\<lparr>maxChildXids := (if maxChildXids p < n then min (n * 2) MaxChildXids
        else maxChildXids p), childXids := childXids p @
          [XidFromFullTransactionId (fullTransactionId (cur b))] @ childXids (cur b)\<rparr>"
    define b' where "b' = b\<lparr>parents := p' # ps, cur := (cur b)\<lparr>childXids := [], maxChildXids := 0\<rparr>\<rparr>"
    have "AtSubCommit_childXids b = Inr b'"
      unfolding b'_def using assms False unfolding AtSubCommit_childXids_def stmt_simps parent_def Let_def f_def n_def p'_def
      by simp
    moreover have "adopts p (cur b) p'"
      unfolding adopts_def p'_def if_P[OF assms(2)] by (rule exI, rule refl)
    ultimately show thesis by (intro that(1)[of b' p']) (simp_all add: frame_defs b'_def)
  qed
qed

lemma CommitSubTransaction_end_effect:
  assumes "parents b = p # ps"
  shows "\<exists>b'. CommitSubTransaction_end b = Inr b' \<and> cur b' = p \<and> parents b' = ps \<and>
     same_log b b' \<and> same_rest b b' \<and> same_top b b' \<and>
     XactReadOnly b' = prevXactReadOnly (cur b) \<and> XactIsoLevel b' = XactIsoLevel b \<and>
     XactDeferrable b' = XactDeferrable b"
  unfolding CommitSubTransaction_end_def PopTransaction_def using assms
  by (cases "FullTransactionIdIsValid (fullTransactionId (cur b))")
     (simp_all add: stmt_simps core_defs frame_defs parent_def)

lemma CommitSubTransaction_cases:
  assumes "parents b = p # ps" "parallelModeLevel (cur b) = 0" "\<not> IsParallelWorker (env b)"
  obtains b' where "CommitSubTransaction b = Inr b'" "adopts p (cur b) (cur b')" "parents b' = ps"
      "same_log b b'" "same_rest b b'" "same_top b b'"
      "XactReadOnly b' = prevXactReadOnly (cur b)" "XactIsoLevel b' = XactIsoLevel b"
      "XactDeferrable b' = XactDeferrable b"
  | m b' where "CommitSubTransaction b = Inl (ERROR m, b')" "cur b' = (cur b)\<lparr>state := TRANS_COMMIT\<rparr>"
      "parents b' = parents b" "same_log b b'" "same_rest b b'" "same_top b b'" "same_chars b b'"
proof -
  define pre where "pre = seq
     [ when_do (\<lambda>b. state (cur b) \<noteq> TRANS_INPROGRESS)
         (emit (\<lambda>b. [Warning ''CommitSubTransaction while in unexpected state''])),
       emit (\<lambda>b. [Call ''CallSubXactCallbacks_PRE_COMMIT_SUB'' (subid_args b)]),
       when_do IsInParallelMode (seq
         [ emit (\<lambda>b. [Call ''AtEOSubXact_Parallel'' [ABool True, AXid (subTransactionId (cur b))]]),
           upd (set_cur (\<lambda>s. s\<lparr>parallelModeLevel := 0\<rparr>)) ]),
       set_state TRANS_COMMIT ]"
  have unf: "CommitSubTransaction b = (case pre b of Inl e \<Rightarrow> Inl e | Inr c \<Rightarrow>
      seq [CommandCounterIncrement,
        when_do (\<lambda>b. FullTransactionIdIsValid (fullTransactionId (cur b))) AtSubCommit_childXids,
        CommitSubTransaction_end] c)"
    unfolding CommitSubTransaction_def pre_def by (subst seq_append[symmetric]) simp
  have "\<exists>c. pre b = Inr c \<and> cur c = (cur b)\<lparr>state := TRANS_COMMIT\<rparr> \<and>
        parents c = parents b \<and> same_log b c \<and> same_rest b c \<and> same_top b c \<and> same_chars b c"
    unfolding pre_def using assms(2) by (simp add: stmt_simps core_defs frame_defs)
  then obtain c where c: "pre b = Inr c" "cur c = (cur b)\<lparr>state := TRANS_COMMIT\<rparr>"
        "parents c = parents b" "same_log b c" "same_rest b c" "same_top b c" "same_chars b c" by blast
  have w: "\<not> IsParallelWorker (env c)" using assms(3) c(5) by (simp add: same_rest_def)
  show thesis
  proof (rule CommandCounterIncrement_cases[OF w])
    fix m assume "CommandCounterIncrement c = Inl (ERROR m, c)"
    then have "CommitSubTransaction b = Inl (ERROR m, c)" by (simp add: unf c(1))
    then show thesis using c(2-) by (rule that(2))
  next
    fix d assume d: "CommandCounterIncrement c = Inr d" "cur d = cur c" "parents d = parents c"
      "same_log c d" "same_rest c d" "same_top c d" "same_chars c d"
    note bd = same_log_trans[OF c(4) d(4)] same_rest_trans[OF c(5) d(5)] same_top_trans[OF c(6) d(6)]
      same_chars_trans[OF c(7) d(7)]
    have pd: "parents d = p # ps" using assms(1) c(3) d(3) by simp
    note commits = that(1)
    have tail: thesis if e: "CommitSubTransaction b = CommitSubTransaction_end e" "parents e = p' # ps"
        "adopts p (cur b) p'" "prevXactReadOnly (cur e) = prevXactReadOnly (cur b)"
        "same_log d e" "same_rest d e" "same_top d e" "same_chars d e" for e p'
    proof -
      note be = same_log_trans[OF bd(1) e(5)] same_rest_trans[OF bd(2) e(6)]
        same_top_trans[OF bd(3) e(7)] same_chars_trans[OF bd(4) e(8)]
      from CommitSubTransaction_end_effect[OF e(2)] obtain b' where
        f: "CommitSubTransaction_end e = Inr b'" "cur b' = p'" "parents b' = ps" "same_log e b'"
          "same_rest e b'" "same_top e b'" "XactReadOnly b' = prevXactReadOnly (cur e)"
          "XactIsoLevel b' = XactIsoLevel e" "XactDeferrable b' = XactDeferrable e" by blast
      show thesis
        by (rule commits[OF _ _ _ same_log_trans[OF be(1) f(4)] same_rest_trans[OF be(2) f(5)]
              same_top_trans[OF be(3) f(6)]])
           (use e(1,3,4) f(1-3,7-) be(4) in \<open>simp_all add: same_chars_def\<close>)
    qed
    show thesis
    proof (cases "FullTransactionIdIsValid (fullTransactionId (cur d))")
      case False
      then show thesis
        by (intro tail[of d p]) (use c(2) d(2) pd in
          \<open>simp_all add: unf c(1) d(1) when_do_def adopts_def frame_defs split: sum.split\<close>)
    next
      case True
      show thesis
      proof (rule AtSubCommit_childXids_cases[OF pd True])
        fix m assume "AtSubCommit_childXids d = Inl (ERROR m, d)"
        then have "CommitSubTransaction b = Inl (ERROR m, d)"
          using True by (simp add: unf c(1) d(1) when_do_def)
        then show thesis by (rule that(2)) (use c d bd in simp_all)
      next
        fix e p' assume e: "AtSubCommit_childXids d = Inr e"
          "cur e = (cur d)\<lparr>childXids := [], maxChildXids := 0\<rparr>" "parents e = p' # ps"
          "adopts p (cur d) p'" "same_log d e" "same_rest d e" "same_top d e" "same_chars d e"
        show thesis
          by (rule tail[OF _ e(3) _ _ e(5-8)])
             (use True c(2) d(2) e in
               \<open>simp_all add: unf c(1) d(1) when_do_def adopts_def split: sum.split\<close>)
      qed
    qed
  qed
qed

subsection \<open>Preparing\<close>

lemma PrepareTransaction_preprepare_cases:
  assumes "parents b = []" "\<not> IsInParallelMode b"
  obtains t where "PrepareTransaction_preprepare b = Inr (b\<lparr>trace := trace b @ t\<rparr>)"
  | m t where "PrepareTransaction_preprepare b = Inl (ERROR m, b\<lparr>trace := trace b @ t\<rparr>)"
proof -
  define f where "f = when_do (\<lambda>b. state (cur b) \<noteq> TRANS_INPROGRESS)
         (emit (\<lambda>b. [Warning ''PrepareTransaction while in unexpected state'']))"
  define fs where "fs = [with_state (\<lambda>b. precommit_portals True (portal_rounds (env b))),
       ext ''CallXactCallbacks_PRE_PREPARE'' [],
       ext ''AfterTriggerEndXact'' [ABool True],
       ext ''PreCommit_on_commit_actions'' [],
       ext ''smgrDoPendingSyncs'' [ABool True, ABool False],
       ext ''AtEOXact_LargeObject'' [ABool True],
       ext ''PreCommit_CheckForSerializationFailure'' [],
       when_do (\<lambda>b. and (MyXactFlags b) XACT_FLAGS_ACCESSEDTEMPNAMESPACE \<noteq> 0)
         (raise (ERROR ''cannot PREPARE a transaction that has operated on temporary objects'')),
       when_do (\<lambda>b. XactHasExportedSnapshots (env b))
         (raise (ERROR ''cannot PREPARE a transaction that has exported snapshots''))]"
  have eq: "PrepareTransaction_preprepare b = seq (f # fs) b"
    using assms by (simp add: PrepareTransaction_preprepare_def f_def assert_that_def when_do_def emit_def
        flip: fs_def)
  have "trace_only (seq (f # fs))"
    unfolding f_def fs_def by (intro trace_only_intros trace_only_portals)
  then show thesis using that unfolding eq by (rule trace_only_E)
qed

lemma PrepareTransaction_prepare_cases:
  obtains b' where "PrepareTransaction_prepare xid b = Inr b'" "cur b' = (cur b)\<lparr>state := TRANS_PREPARE\<rparr>"
    "parents b' = parents b" "same_log b b'" "same_rest b b'" "same_top b b'" "same_chars b b'"
  | m b' where "PrepareTransaction_prepare xid b = Inl (ERROR m, b')"
    "cur b' = (cur b)\<lparr>state := TRANS_PREPARE\<rparr>"
    "parents b' = parents b" "same_log b b'" "same_rest b b'" "same_top b b'" "same_chars b b'"
proof -
  define f where "f = seq [emit (\<lambda>b. [Call ''BufmgrCommit'' []]), ext ''MarkAsPreparing'' [AXid xid]]"
  define g where "g = seq [ext ''StartPrepare'' [],
       ext ''AtPrepare_Notify'' [], ext ''AtPrepare_Locks'' [], ext ''AtPrepare_PredicateLocks'' [],
       ext ''AtPrepare_PgStat'' [], ext ''AtPrepare_MultiXact'' [], ext ''AtPrepare_RelationMap'' [],
       ext ''EndPrepare'' []]"
  have tr: "trace_only f" "trace_only g" unfolding f_def g_def by (intro trace_only_intros)+
  let ?c = "b\<lparr>cur := (cur b)\<lparr>state := TRANS_PREPARE\<rparr>\<rparr>"
  have unf: "PrepareTransaction_prepare xid b = (case f ?c of Inl e \<Rightarrow> Inl e
      | Inr c \<Rightarrow> g (c\<lparr>prepareGID := None\<rparr>))"
    unfolding PrepareTransaction_prepare_def f_def g_def
    by (simp add: set_state_def upd_def split: sum.split)
  show thesis
  proof (rule trace_only_E[OF tr(1), of ?c])
    fix m t assume "f ?c = Inl (ERROR m, ?c\<lparr>trace := trace ?c @ t\<rparr>)"
    then show thesis by (intro that(2)[of m "?c\<lparr>trace := trace ?c @ t\<rparr>"]) (simp_all add: unf frame_defs)
  next
    fix t assume f: "f ?c = Inr (?c\<lparr>trace := trace ?c @ t\<rparr>)"
    let ?d = "?c\<lparr>trace := trace ?c @ t, prepareGID := None\<rparr>"
    show thesis
    proof (rule trace_only_E[OF tr(2), of ?d])
      fix t' assume "g ?d = Inr (?d\<lparr>trace := trace ?d @ t'\<rparr>)"
      then show thesis using f
        by (intro that(1)[of "?d\<lparr>trace := trace ?d @ t'\<rparr>"]) (simp_all add: unf frame_defs)
    next
      fix m t' assume "g ?d = Inl (ERROR m, ?d\<lparr>trace := trace ?d @ t'\<rparr>)"
      then show thesis using f
        by (intro that(2)[of m "?d\<lparr>trace := trace ?d @ t'\<rparr>"]) (simp_all add: unf frame_defs)
    qed
  qed
qed

lemma PrepareTransaction_cleanup_effect:
  assumes "ParallelCurrentXids b = []" "parallelModeLevel (cur b) = 0"
  shows "\<exists>b'. PrepareTransaction_cleanup x b = Inr b' \<and> cur b' = idle_entry (cur b) \<and>
     parents b' = parents b \<and> same_log b b' \<and> same_rest b b' \<and>
     XactTopFullTransactionId b' = InvalidFullTransactionId \<and>
     SecurityRestrictionContext b' = SecurityRestrictionContext b \<and>
     TopTransactionResourceOwner b' = None \<and> same_chars b b'"
  unfolding PrepareTransaction_cleanup_def using assms
  by (simp add: stmt_simps core_defs frame_defs idle_entry_def)
end
