(* ===== verification/Xact_Inv.thy ===== *)
theory Xact_Inv
  imports Xact_Effects
begin

section \<open>The invariant of the transaction state\<close>

text \<open>
  \<open>trans_of\<close> is the low-level state that belongs to a block state, \<open>is_sub\<close> tells the block
  states of subtransactions. In a well-formed stack exactly the entries above the bottom one
  are subtransactions, every enclosing transaction is in progress, nesting levels are
  consecutive, only savepoints have names, a subtransaction has an xid only if its parent has one, and the xids of the
  stack, from the outside in, followed by those still to be handed out, are in ascending
  order inside one comparison window.
\<close>

fun is_sub :: "TBlockState \<Rightarrow> bool" where
  "is_sub TBLOCK_SUBBEGIN = True"
| "is_sub TBLOCK_SUBINPROGRESS = True"
| "is_sub TBLOCK_SUBRELEASE = True"
| "is_sub TBLOCK_SUBCOMMIT = True"
| "is_sub TBLOCK_SUBABORT = True"
| "is_sub TBLOCK_SUBABORT_END = True"
| "is_sub TBLOCK_SUBABORT_PENDING = True"
| "is_sub TBLOCK_SUBRESTART = True"
| "is_sub TBLOCK_SUBABORT_RESTART = True"
| "is_sub _ = False"

fun trans_of :: "TBlockState \<Rightarrow> TransState" where
  "trans_of TBLOCK_DEFAULT = TRANS_DEFAULT"
| "trans_of TBLOCK_SUBBEGIN = TRANS_DEFAULT"
| "trans_of TBLOCK_ABORT = TRANS_ABORT"
| "trans_of TBLOCK_ABORT_END = TRANS_ABORT"
| "trans_of TBLOCK_SUBABORT = TRANS_ABORT"
| "trans_of TBLOCK_SUBABORT_END = TRANS_ABORT"
| "trans_of TBLOCK_SUBABORT_RESTART = TRANS_ABORT"
| "trans_of _ = TRANS_INPROGRESS"

abbreviation has_xid :: "TransactionStateData \<Rightarrow> bool" where
  "has_xid s \<equiv> FullTransactionIdIsValid (fullTransactionId s)"

abbreviation xid_of :: "TransactionStateData \<Rightarrow> TransactionId" where
  "xid_of s \<equiv> XidFromFullTransactionId (fullTransactionId s)"

definition own_xids :: "TransactionStateData \<Rightarrow> TransactionId list" where
  "own_xids s = (if has_xid s then [xid_of s] else []) @ childXids s"

definition live_xids :: "TransactionStateData list \<Rightarrow> TransactionId list" where
  "live_xids ss = concat (map own_xids (rev ss))"

definition future_xids :: "backend \<Rightarrow> TransactionId list" where
  "future_xids b = map XidFromFullTransactionId (xid_source b)"

fun stack_ok :: "TransactionStateData list \<Rightarrow> bool" where
  "stack_ok [] = False"
| "stack_ok [t] = (\<not> is_sub (blockState t) \<and> name t = None \<and>
     nestingLevel t = (if blockState t = TBLOCK_DEFAULT then 0 else 1))"
| "stack_ok (s # t # ss) = (is_sub (blockState s) \<and> nestingLevel s = Suc (nestingLevel t) \<and>
     state t = TRANS_INPROGRESS \<and> trans_of (blockState t) = TRANS_INPROGRESS \<and>
     (has_xid s \<longrightarrow> has_xid t) \<and> stack_ok (t # ss))"

definition entry_ok :: "TransactionStateData \<Rightarrow> bool" where
  "entry_ok s \<longleftrightarrow> parallelModeLevel s = 0 \<and> prevSecContext s = 0 \<and>
     blockState s \<noteq> TBLOCK_PARALLEL_INPROGRESS \<and>
     (has_xid s \<or> fullTransactionId s = InvalidFullTransactionId \<and> childXids s = []) \<and>
     (curTransactionOwner s = None \<longleftrightarrow> trans_of (blockState s) = TRANS_DEFAULT) \<and>
     (trans_of (blockState s) = TRANS_DEFAULT \<longrightarrow> \<not> has_xid s)"

definition glob_ok :: "backend \<Rightarrow> bool" where
  "glob_ok b \<longleftrightarrow> SecurityRestrictionContext b = 0 \<and> \<not> IsParallelWorker (env b) \<and>
     ParallelCurrentXids b = [] \<and> XactTopFullTransactionId b = fullTransactionId (top b) \<and>
     TopTransactionResourceOwner b = curTransactionOwner (top b)"

text \<open>
  The xids of the enclosing transactions (\<open>outer\<close>), of the current entry (\<open>own\<close>) and those to
  come (\<open>fut\<close>), against the commit log and its cache.
\<close>

definition xids_ok ::
    "TransactionId \<Rightarrow> clog \<Rightarrow> fetch_cache \<Rightarrow> TransactionId list \<Rightarrow> TransactionId list \<Rightarrow> bool \<Rightarrow>
     TransactionId list \<Rightarrow> bool" where
  "xids_ok base clog c outer own aborted fut \<longleftrightarrow>
     sorted_wrt TransactionIdPrecedes (outer @ own @ fut) \<and>
     set (outer @ own @ fut) \<subseteq> xid_window base \<and> cache_ok clog c \<and>
     (\<forall>x \<in> set (outer @ fut). clog x = TRANSACTION_STATUS_IN_PROGRESS) \<and>
     (\<forall>x \<in> set own. clog x =
        (if aborted then TRANSACTION_STATUS_ABORTED else TRANSACTION_STATUS_IN_PROGRESS))"

definition log_ok :: "TransactionId \<Rightarrow> backend \<Rightarrow> bool" where
  "log_ok base b \<longleftrightarrow> xids_ok base (pg_xact b) (xact_cache b) (live_xids (parents b))
     (own_xids (cur b)) (state (cur b) = TRANS_ABORT) (future_xids b)"

definition wf_core :: "TransactionId \<Rightarrow> backend \<Rightarrow> bool" where
  "wf_core base b \<longleftrightarrow> stack_ok (stack b) \<and> list_all entry_ok (stack b) \<and> glob_ok b \<and> log_ok base b"

text \<open>
  \<open>wf_backend\<close> holds between the calls of the block-level routines. When one of them raises
  an error, the low-level state of the current entry may be out of step with its block state
  (\<open>wf_err\<close>): that is the state error recovery starts from.
\<close>

definition wf_backend :: "TransactionId \<Rightarrow> backend \<Rightarrow> bool" where
  "wf_backend base b \<longleftrightarrow> wf_core base b \<and> state (cur b) = trans_of (blockState (cur b))"

definition wf_err :: "TransactionId \<Rightarrow> backend \<Rightarrow> bool" where
  "wf_err base b \<longleftrightarrow> wf_core base b \<and>
     (if trans_of (blockState (cur b)) = TRANS_INPROGRESS
      then state (cur b) \<in> {TRANS_INPROGRESS, TRANS_COMMIT, TRANS_PREPARE}
      else state (cur b) = trans_of (blockState (cur b)))"

lemma wf_backend_err: "wf_backend base b \<Longrightarrow> wf_err base b"
  by (simp add: wf_backend_def wf_err_def)

lemma live_xids_Cons: "live_xids (s # ss) = live_xids ss @ own_xids s"
  by (simp add: live_xids_def)

lemma live_xids_Nil [simp]: "live_xids [] = []"
  by (simp add: live_xids_def)

lemma own_xids_upd [simp]:
  "own_xids (s\<lparr>blockState := x1\<rparr>) = own_xids s" "own_xids (s\<lparr>state := x2\<rparr>) = own_xids s"
  "own_xids (s\<lparr>name := x3\<rparr>) = own_xids s" "own_xids (s\<lparr>chain := x4\<rparr>) = own_xids s"
  "own_xids (s\<lparr>parallelModeLevel := x5\<rparr>) = own_xids s"
  "own_xids (s\<lparr>curTransactionOwner := x6\<rparr>) = own_xids s"
  "own_xids (s\<lparr>maxChildXids := x7\<rparr>) = own_xids s"
  "own_xids (s\<lparr>didLogXid := x8\<rparr>) = own_xids s"
  "own_xids (s\<lparr>savepointLevel := x9\<rparr>) = own_xids s"
  by (simp_all add: own_xids_def)

lemma not_has_xid_Invalid [simp]: "\<not> FullTransactionIdIsValid InvalidFullTransactionId"
  by (simp add: FullTransactionIdIsValid_def InvalidFullTransactionId_def XidFromFullTransactionId_def
      FullTransactionIdFromEpochAndXid_def xid_consts)

lemmas wf_defs = wf_core_def glob_ok_def log_ok_def stack_def top_def live_xids_Cons future_xids_def

lemma wf_core_cong:
  assumes "wf_core base b" "cur b' = cur b" "parents b' = parents b" "same_log b b'" "same_rest b b'"
    "same_top b b'"
  shows "wf_core base b'"
  using assms by (simp add: wf_defs frame_defs)

text \<open>Changing only the block state of the current entry, within the same low-level state.\<close>

lemma wf_core_blockState:
  assumes "wf_core base b" "trans_of bs = trans_of (blockState (cur b))"
    "is_sub bs = is_sub (blockState (cur b))" "bs \<noteq> TBLOCK_PARALLEL_INPROGRESS"
    "bs = TBLOCK_DEFAULT \<longleftrightarrow> blockState (cur b) = TBLOCK_DEFAULT"
  shows "wf_core base (b\<lparr>cur := (cur b)\<lparr>blockState := bs\<rparr>\<rparr>)"
  using assms
  by (cases "parents b") (simp_all add: wf_defs entry_ok_def)

lemma wf_start:
  assumes "wf_backend base b" "blockState (cur b) = TBLOCK_DEFAULT"
    "trans_of bs = TRANS_INPROGRESS" "\<not> is_sub bs" "bs \<noteq> TBLOCK_PARALLEL_INPROGRESS"
  obtains b' where "StartTransaction b = Inr b'" "cur b' = started_entry b" "parents b' = []"
    "same_log b b'" "same_rest b b'"
    "wf_backend base (b'\<lparr>cur := (cur b')\<lparr>blockState := bs\<rparr>\<rparr>)"
    "XactReadOnly b' = (RecoveryInProgress (env b) \<or> DefaultXactReadOnly (env b))"
    "XactDeferrable b' = DefaultXactDeferrable (env b)" "XactIsoLevel b' = DefaultXactIsoLevel (env b)"
proof -
  have par: "parents b = []"
    using assms(1,2) by (cases "parents b") (auto simp: wf_backend_def wf_defs)
  have pre: "\<not> FullTransactionIdIsValid (XactTopFullTransactionId b)"
    "state (cur b) = TRANS_DEFAULT" "SecurityRestrictionContext b = 0"
    "TopTransactionResourceOwner b = None"
    using assms(1,2) par by (auto simp: wf_backend_def wf_defs entry_ok_def)
  from StartTransaction_effect[OF par pre] obtain b' where
    e: "StartTransaction b = Inr b'" "cur b' = started_entry b" "parents b' = []"
    "same_log b b'" "same_rest b b'" "XactTopFullTransactionId b' = XactTopFullTransactionId b"
    "SecurityRestrictionContext b' = 0" "TopTransactionResourceOwner b' = Some (owner_seq b)"
    "XactReadOnly b' = (RecoveryInProgress (env b) \<or> DefaultXactReadOnly (env b))"
    "XactDeferrable b' = DefaultXactDeferrable (env b)" "XactIsoLevel b' = DefaultXactIsoLevel (env b)"
    by blast
  have "wf_backend base (b'\<lparr>cur := (cur b')\<lparr>blockState := bs\<rparr>\<rparr>)"
    using assms par pre e(2-8)
    by (auto simp: wf_backend_def wf_defs entry_ok_def own_xids_def started_entry_def frame_defs)
  with e show thesis by (intro that)
qed

subsection \<open>Transaction status\<close>

lemma xids_ok_distinct: "xids_ok base clog c outer own ab fut \<Longrightarrow> distinct (outer @ own @ fut)"
  unfolding xids_ok_def using xw.win_sorted_distinct by blast

lemma xids_ok_drop: "xids_ok base clog c outer own ab fut \<Longrightarrow> xids_ok base clog c outer [] ab' fut"
  by (auto simp: xids_ok_def sorted_wrt_append)

lemma xids_ok_push: "xids_ok base clog c outer own False fut \<Longrightarrow> xids_ok base clog c (outer @ own) [] ab fut"
  by (auto simp: xids_ok_def)

lemma xids_ok_pop: "xids_ok base clog c (outer @ own) own' ab fut \<Longrightarrow> xids_ok base clog c outer own False fut"
  by (auto simp: xids_ok_def sorted_wrt_append)

lemma xids_ok_adopt: "xids_ok base clog c (outer @ own) own' False fut \<Longrightarrow> xids_ok base clog c outer (own @ own') False fut"
  by (auto simp: xids_ok_def)

lemma xids_ok_assign: "xids_ok base clog c outer own False (x # fut) \<Longrightarrow> xids_ok base clog c outer (own @ [x]) False fut"
  by (auto simp: xids_ok_def)

lemma set_tree_status_outside:
  "y \<notin> insert x (set xs) \<Longrightarrow> set_tree_status st x xs clog y = clog y"
  by (auto simp: set_tree_status_def)

lemma xids_ok_abort:
  assumes "xids_ok base clog c outer (x # xs) False fut"
  shows "xids_ok base (set_tree_status TRANSACTION_STATUS_ABORTED x xs clog) c outer (x # xs) True fut"
proof -
  have "\<forall>y\<in>set (outer @ fut). y \<notin> insert x (set xs)"
    using xids_ok_distinct[OF assms] by auto
  moreover have "cache_ok (set_tree_status TRANSACTION_STATUS_ABORTED x xs clog) c"
    using assms by (intro cache_ok_set_tree_status) (auto simp: xids_ok_def)
  ultimately show ?thesis
    using assms by (simp add: xids_ok_def set_tree_status_outside) (auto simp: set_tree_status_def)
qed

lemma xids_ok_commit:
  assumes "xids_ok base clog c [] (x # xs) False fut"
  shows "xids_ok base (set_tree_status TRANSACTION_STATUS_COMMITTED x xs clog) c [] [] False fut"
proof -
  have "\<forall>y\<in>set fut. y \<notin> insert x (set xs)"
    using xids_ok_distinct[OF assms] by auto
  moreover have "cache_ok (set_tree_status TRANSACTION_STATUS_COMMITTED x xs clog) c"
    using assms by (intro cache_ok_set_tree_status) (auto simp: xids_ok_def)
  ultimately show ?thesis
    using assms by (simp add: xids_ok_def set_tree_status_outside sorted_wrt_append)
qed

lemma own_xids_has: "has_xid s \<Longrightarrow> own_xids s = xid_of s # childXids s"
  by (simp add: own_xids_def)

lemma own_xids_none: "entry_ok s \<Longrightarrow> \<not> has_xid s \<Longrightarrow> own_xids s = []"
  by (auto simp: own_xids_def entry_ok_def)

lemma wf_can_abort:
  assumes "wf_core base b" "state (cur b) \<noteq> TRANS_ABORT"
  shows "can_abort b"
  using assms by (auto simp: can_abort_def wf_defs xids_ok_def own_xids_has xid_window_def)

lemma xids_ok_abort_status:
  assumes "wf_core base b" "state (cur b) \<noteq> TRANS_ABORT"
  shows "xids_ok base (abort_status b) (xact_cache b) (live_xids (parents b)) (own_xids (cur b)) True
           (future_xids b)"
proof (cases "has_xid (cur b)")
  case True
  then show ?thesis using assms
    by (simp add: wf_core_def log_ok_def abort_status_def own_xids_has xids_ok_abort)
next
  case False
  then have "own_xids (cur b) = []" using assms by (simp add: own_xids_none wf_core_def stack_def)
  then show ?thesis using assms False
    by (auto simp: wf_core_def log_ok_def abort_status_def intro: xids_ok_drop)
qed

lemma xids_ok_commit_status:
  assumes "wf_core base b" "parents b = []" "state (cur b) \<noteq> TRANS_ABORT"
  shows "xids_ok base (commit_status b) (xact_cache b) [] [] False (future_xids b)"
proof (cases "has_xid (cur b)")
  case True
  then show ?thesis using assms
    by (simp add: wf_defs commit_status_def own_xids_has xids_ok_commit)
next
  case False
  then show ?thesis using assms
    by (auto simp: wf_defs commit_status_def intro: xids_ok_drop)
qed

subsection \<open>Ending a top-level transaction\<close>

abbreviation with_block :: "TBlockState \<Rightarrow> backend \<Rightarrow> backend" where
  "with_block bs b \<equiv> b\<lparr>cur := (cur b)\<lparr>blockState := bs\<rparr>\<rparr>"

text \<open>The state with no transaction at all, apart from the leftovers of the last one.\<close>

lemma wf_idleI:
  assumes "cur b' = idle_entry s" "parents b' = []" "prevSecContext s = 0" "name s = None"
    "same_rest b b'" "XactTopFullTransactionId b' = InvalidFullTransactionId"
    "SecurityRestrictionContext b' = 0" "TopTransactionResourceOwner b' = None"
    "\<not> IsParallelWorker (env b)" "ParallelCurrentXids b = []"
    "xids_ok base (pg_xact b') (xact_cache b') [] [] False (future_xids b')"
  shows "wf_backend base (with_block TBLOCK_DEFAULT b')"
  using assms
  by (simp add: wf_backend_def wf_defs entry_ok_def idle_entry_def same_rest_def own_xids_def)

lemma wf_cleanup:
  assumes "wf_core base b" "parents b = []" "state (cur b) = TRANS_ABORT"
  obtains b' where "CleanupTransaction b = Inr b'" "cur b' = idle_entry (cur b)" "parents b' = []"
    "same_log b b'" "same_rest b b'" "same_chars b b'" "wf_backend base (with_block TBLOCK_DEFAULT b')"
proof -
  have "ParallelCurrentXids b = []" using assms(1) by (simp add: wf_defs)
  from CleanupTransaction_effect[OF assms(3) this] obtain b' where
    e: "CleanupTransaction b = Inr b'" "cur b' = idle_entry (cur b)" "parents b' = parents b"
      "same_log b b'" "same_rest b b'" "XactTopFullTransactionId b' = InvalidFullTransactionId"
      "SecurityRestrictionContext b' = SecurityRestrictionContext b"
      "TopTransactionResourceOwner b' = None" "same_chars b b'" by blast
  have "xids_ok base (pg_xact b') (xact_cache b') [] [] False (future_xids b')"
    using assms e(4) by (auto simp: wf_defs same_log_def intro: xids_ok_drop)
  then have "wf_backend base (with_block TBLOCK_DEFAULT b')"
    using assms(1,2) e by (intro wf_idleI[OF e(2) _ _ _ e(5)]) (simp_all add: wf_defs entry_ok_def)
  then show thesis using that e assms(2) by simp
qed

lemma wf_abort:
  assumes "wf_err base b" "trans_of (blockState (cur b)) = TRANS_INPROGRESS" "parents b = []"
  obtains b' where "AbortTransaction b = Inr b'"
    "cur b' = (cur b)\<lparr>state := TRANS_ABORT\<rparr>" "parents b' = []"
    "pg_xact b' = abort_status b" "same_log b (b'\<lparr>pg_xact := pg_xact b\<rparr>)" "same_rest b b'"
    "same_chars b b'" "wf_core base b'"
proof -
  have w: "wf_core base b" "state (cur b) \<noteq> TRANS_ABORT" using assms(1,2) by (auto simp: wf_err_def)
  then have ok: "can_abort b" "blockState (cur b) \<noteq> TBLOCK_PARALLEL_INPROGRESS" "parallelModeLevel (cur b) = 0"
    by (auto simp: wf_can_abort wf_defs entry_ok_def)
  show thesis
  proof (rule AbortTransaction_effect[OF assms(3) ok(2) ok(1)])
    fix b' assume e: "AbortTransaction b = Inr b'"
      "cur b' = (cur b)\<lparr>state := TRANS_ABORT, parallelModeLevel := 0\<rparr>" "parents b' = []"
      "pg_xact b' = abort_status b" "same_log b (b'\<lparr>pg_xact := pg_xact b\<rparr>)" "same_rest b b'"
      "same_chars b b'" "XactTopFullTransactionId b' = XactTopFullTransactionId b"
      "SecurityRestrictionContext b' = prevSecContext (cur b)"
      "TopTransactionResourceOwner b' = TopTransactionResourceOwner b"
    have c: "cur b' = (cur b)\<lparr>state := TRANS_ABORT\<rparr>" using e(2) ok(3) by simp
    have "xids_ok base (pg_xact b') (xact_cache b') [] (own_xids (cur b')) True (future_xids b')"
      using xids_ok_abort_status[OF w] c e(4,5) assms(3) by (simp add: same_log_def future_xids_def)
    then have "wf_core base b'"
      using w(1) assms(3) c e(3,6,8-10) by (simp add: wf_defs entry_ok_def same_rest_def)
    then show thesis using that[OF e(1) c e(3-7)] by blast
  qed
qed

text \<open>\<^verbatim>\<open>AbortTransaction(); CleanupTransaction();\<close>\<close>

lemma wf_abort_cleanup:
  assumes "wf_err base b" "trans_of (blockState (cur b)) = TRANS_INPROGRESS" "parents b = []"
  obtains b1 b' where "AbortTransaction b = Inr b1" "CleanupTransaction b1 = Inr b'"
    "cur b' = idle_entry (cur b)" "parents b' = []" "pg_xact b' = abort_status b"
    "same_log b (b'\<lparr>pg_xact := pg_xact b\<rparr>)" "same_rest b b'" "same_chars b b'"
    "wf_backend base (with_block TBLOCK_DEFAULT b')"
proof (rule wf_abort[OF assms])
  fix b1 assume a: "AbortTransaction b = Inr b1"
    "cur b1 = (cur b)\<lparr>state := TRANS_ABORT\<rparr>" "parents b1 = []"
    "pg_xact b1 = abort_status b" "same_log b (b1\<lparr>pg_xact := pg_xact b\<rparr>)" "same_rest b b1"
    "same_chars b b1" "wf_core base b1"
  have st: "state (cur b1) = TRANS_ABORT" using a(2) by simp
  show thesis
  proof (rule wf_cleanup[OF a(8,3) st])
    fix b' assume c: "CleanupTransaction b1 = Inr b'" "cur b' = idle_entry (cur b1)" "parents b' = []"
      "same_log b1 b'" "same_rest b1 b'" "same_chars b1 b'" "wf_backend base (with_block TBLOCK_DEFAULT b')"
    show thesis
    proof (rule that[OF a(1) c(1) _ c(3) _ _ same_rest_trans[OF a(6) c(5)] same_chars_trans[OF a(7) c(6)] c(7)])
      show "cur b' = idle_entry (cur b)" using c(2) a(2) by (simp add: idle_entry_def)
    qed (use a(4,5) c(4) in \<open>simp_all add: same_log_def\<close>)
  qed
qed

lemma wf_commit:
  assumes "wf_backend base b" "trans_of (blockState (cur b)) = TRANS_INPROGRESS" "parents b = []"
  obtains b' where "CommitTransaction b = Inr b'" "cur b' = idle_entry (cur b)" "parents b' = []"
      "pg_xact b' = commit_status b" "same_log b (b'\<lparr>pg_xact := pg_xact b\<rparr>)" "same_rest b b'"
      "same_chars b b'" "wf_backend base (with_block TBLOCK_DEFAULT b')"
  | m b' where "CommitTransaction b = Inl (ERROR m, b')" "blockState (cur b') = blockState (cur b)"
      "parents b' = []" "same_log b b'" "same_rest b b'" "same_chars b b'" "wf_err base b'"
      "own_xids (cur b') = own_xids (cur b)"
proof -
  have w: "wf_core base b" "state (cur b) = TRANS_INPROGRESS" using assms(1,2) by (auto simp: wf_backend_def)
  then have ok: "blockState (cur b) \<noteq> TBLOCK_PARALLEL_INPROGRESS" "ParallelCurrentXids b = []"
    "FullTransactionIdIsValid (XactTopFullTransactionId b) \<or> childXids (cur b) = []"
    "parallelModeLevel (cur b) = 0"
    using assms(3) by (auto simp: wf_defs entry_ok_def)
  show thesis
  proof (rule CommitTransaction_effect[OF assms(3) ok(1-3)])
    fix b' assume e: "CommitTransaction b = Inr b'" "cur b' = idle_entry (cur b)" "parents b' = []"
      "pg_xact b' = commit_status b" "same_log b (b'\<lparr>pg_xact := pg_xact b\<rparr>)" "same_rest b b'"
      "XactTopFullTransactionId b' = InvalidFullTransactionId"
      "SecurityRestrictionContext b' = SecurityRestrictionContext b"
      "TopTransactionResourceOwner b' = None" "same_chars b b'"
    have "xids_ok base (pg_xact b') (xact_cache b') [] [] False (future_xids b')"
      using xids_ok_commit_status[OF w(1) assms(3)] w(2) e(4,5) by (simp add: same_log_def future_xids_def)
    then have "wf_backend base (with_block TBLOCK_DEFAULT b')"
      using w(1) assms(3) e by (intro wf_idleI[OF e(2,3) _ _ e(6,7) _ e(9)]) (simp_all add: wf_defs entry_ok_def)
    then show thesis using that(1)[OF e(1-6,10)] by blast
  next
    fix m b' assume e: "CommitTransaction b = Inl (ERROR m, b')"
      "cur b' = cur b \<or> cur b' = (cur b)\<lparr>state := TRANS_COMMIT, parallelModeLevel := 0\<rparr>"
      "parents b' = []" "same_log b b'" "same_rest b b'" "same_top b b'" "same_chars b b'"
    have "wf_core base b'" if "cur b' = (cur b)\<lparr>state := st\<rparr>" "st \<noteq> TRANS_ABORT" for st
      using that w assms(3) e(3-6) by (simp add: wf_defs entry_ok_def frame_defs)
    moreover have c: "cur b' = (cur b)\<lparr>state := state (cur b')\<rparr>"
      "state (cur b') \<in> {TRANS_INPROGRESS, TRANS_COMMIT}"
      using e(2) w(2) ok(4) by auto
    ultimately have "wf_core base b'" by auto
    moreover have bs: "blockState (cur b') = blockState (cur b)" by (subst c(1)) simp
    ultimately have "wf_err base b'" using c(2) assms(2) by (auto simp: wf_err_def)
    moreover have "own_xids (cur b') = own_xids (cur b)" by (subst c(1)) simp
    ultimately show thesis using that(2)[OF e(1) bs e(3-5,7)] by blast
  qed
qed

subsection \<open>Subtransactions\<close>

lemma xids_ok_head: "xids_ok base clog c outer (x # xs) ab fut \<Longrightarrow> xids_ok base clog c outer [x] ab fut"
  by (auto simp: xids_ok_def sorted_wrt_append)

lemma wf_parent:
  assumes "wf_core base b" "parents b = p # ps" "cur b' = p" "parents b' = ps" "same_log b b'"
    "same_rest b b'" "same_top b b'"
  shows "wf_backend base b'"
proof -
  have "xids_ok base (pg_xact b) (xact_cache b) (live_xids ps) (own_xids p) False (future_xids b)"
    using assms(1,2) by (auto simp: wf_core_def log_ok_def live_xids_Cons intro: xids_ok_pop)
  then have l: "log_ok base b'" using assms(1-5) by (simp add: wf_defs same_log_def)
  have g: "glob_ok b'" using assms by (simp add: wf_defs frame_defs)
  have st: "state (cur b') = TRANS_INPROGRESS" "trans_of (blockState (cur b')) = TRANS_INPROGRESS"
    "stack_ok (stack b')" "list_all entry_ok (stack b')"
    using assms(1-4) by (simp_all add: wf_core_def stack_def)
  show ?thesis using l g st by (simp add: wf_backend_def wf_core_def)
qed

lemma wf_cleanup_sub:
  assumes "wf_core base b" "parents b = p # ps"
  obtains b' where "CleanupSubTransaction b = Inr b'" "cur b' = p" "parents b' = ps" "same_log b b'"
    "same_rest b b'" "same_chars b b'" "wf_backend base b'"
proof -
  from CleanupSubTransaction_effect[OF assms(2)] obtain b' where
    e: "CleanupSubTransaction b = Inr b'" "cur b' = p" "parents b' = ps"
      "same_log b b'" "same_rest b b'" "same_top b b'" "same_chars b b'" by blast
  show thesis using that[OF e(1-5,7) wf_parent[OF assms e(2-6)]] .
qed

lemma wf_aborted_sub:
  assumes "wf_core base b" "state (cur b) \<noteq> TRANS_ABORT"
  shows "xids_ok base (abort_status b) (xact_cache b) (live_xids (parents b))
           (own_xids (aborted_sub (cur b))) True (future_xids b)"
proof -
  have x: "xids_ok base (abort_status b) (xact_cache b) (live_xids (parents b)) (own_xids (cur b)) True
           (future_xids b)" using assms by (rule xids_ok_abort_status)
  show ?thesis
  proof (cases "curTransactionOwner (cur b) \<noteq> None \<and> has_xid (cur b)")
    case True
    then have "own_xids (aborted_sub (cur b)) = [xid_of (cur b)]" by (simp add: aborted_sub_def own_xids_def)
    then show ?thesis using x True by (auto simp: own_xids_has intro: xids_ok_head)
  next
    case False
    then have "own_xids (aborted_sub (cur b)) = own_xids (cur b)" by (auto simp: aborted_sub_def)
    then show ?thesis using x by simp
  qed
qed

lemma wf_abort_sub:
  assumes "wf_core base b" "state (cur b) \<noteq> TRANS_ABORT" "parents b = p # ps"
  obtains b' where "AbortSubTransaction b = Inr b'" "cur b' = aborted_sub (cur b)" "parents b' = p # ps"
    "pg_xact b' = abort_status b" "same_log b (b'\<lparr>pg_xact := pg_xact b\<rparr>)" "same_rest b b'"
    "same_chars b (b'\<lparr>XactReadOnly := XactReadOnly b\<rparr>)" "XactReadOnly b' = prevXactReadOnly (cur b)"
    "wf_core base b'"
proof -
  have ok: "can_abort b" "curTransactionOwner (cur b) = None \<Longrightarrow> \<not> has_xid (cur b)"
    "prevSecContext (cur b) = 0" "entry_ok (cur b)"
    using assms by (auto simp: wf_can_abort wf_defs entry_ok_def)
  show thesis
  proof (rule AbortSubTransaction_effect[OF ok(1,2)])
    fix b' assume e: "AbortSubTransaction b = Inr b'" "cur b' = aborted_sub (cur b)"
      "parents b' = parents b" "pg_xact b' = abort_status b" "same_log b (b'\<lparr>pg_xact := pg_xact b\<rparr>)"
      "same_rest b b'" "XactTopFullTransactionId b' = XactTopFullTransactionId b"
      "SecurityRestrictionContext b' = prevSecContext (cur b)"
      "TopTransactionResourceOwner b' = TopTransactionResourceOwner b"
      "XactReadOnly b' = prevXactReadOnly (cur b)" "XactIsoLevel b' = XactIsoLevel b"
      "XactDeferrable b' = XactDeferrable b"
    have a: "blockState (aborted_sub (cur b)) = blockState (cur b)"
      "nestingLevel (aborted_sub (cur b)) = nestingLevel (cur b)"
      "fullTransactionId (aborted_sub (cur b)) = fullTransactionId (cur b)"
      "state (aborted_sub (cur b)) = TRANS_ABORT" by (auto simp: aborted_sub_def)
    have "entry_ok (aborted_sub (cur b))" using ok(4) by (auto simp: entry_ok_def aborted_sub_def)
    moreover have "xids_ok base (pg_xact b') (xact_cache b') (live_xids (parents b')) (own_xids (cur b')) True
        (future_xids b')"
      using wf_aborted_sub[OF assms(1,2)] e(2-5) by (simp add: same_log_def future_xids_def)
    ultimately have "wf_core base b'"
      using assms(1,3) e(2,3,6-9) ok(3) a by (simp add: wf_defs same_rest_def)
    then show thesis using that[OF e(1,2) _ e(4-6)] assms(3) e(3,10-12) by (simp add: same_chars_def)
  qed simp
qed

text \<open>\<^verbatim>\<open>AbortSubTransaction(); CleanupSubTransaction();\<close>\<close>

lemma wf_abort_cleanup_sub:
  assumes "wf_core base b" "state (cur b) \<noteq> TRANS_ABORT" "parents b = p # ps"
  obtains b1 b' where "AbortSubTransaction b = Inr b1" "CleanupSubTransaction b1 = Inr b'"
    "cur b' = p" "parents b' = ps" "pg_xact b' = abort_status b"
    "same_log b (b'\<lparr>pg_xact := pg_xact b\<rparr>)" "same_rest b b'"
    "same_chars b (b'\<lparr>XactReadOnly := XactReadOnly b\<rparr>)" "XactReadOnly b' = prevXactReadOnly (cur b)"
    "wf_backend base b'"
proof (rule wf_abort_sub[OF assms])
  fix b1 assume a: "AbortSubTransaction b = Inr b1" "cur b1 = aborted_sub (cur b)" "parents b1 = p # ps"
    "pg_xact b1 = abort_status b" "same_log b (b1\<lparr>pg_xact := pg_xact b\<rparr>)" "same_rest b b1"
    "same_chars b (b1\<lparr>XactReadOnly := XactReadOnly b\<rparr>)" "XactReadOnly b1 = prevXactReadOnly (cur b)"
    "wf_core base b1"
  show thesis
  proof (rule wf_cleanup_sub[OF a(9,3)])
    fix b' assume c: "CleanupSubTransaction b1 = Inr b'" "cur b' = p" "parents b' = ps" "same_log b1 b'"
      "same_rest b1 b'" "same_chars b1 b'" "wf_backend base b'"
    show thesis
      by (rule that[OF a(1) c(1-3) _ _ same_rest_trans[OF a(6) c(5)] _ _ c(7)])
         (use a(4,5,7,8) c(4,6) in \<open>simp_all add: same_log_def same_chars_def\<close>)
  qed
qed

lemma wf_push:
  assumes "wf_backend base b" "trans_of (blockState (cur b)) = TRANS_INPROGRESS"
  obtains b' where "PushTransaction b = Inr b'" "parents b' = cur b # parents b"
      "blockState (cur b') = TBLOCK_SUBBEGIN" "name (cur b') = None" "nestingLevel (cur b') = Suc (nestingLevel (cur b))"
      "savepointLevel (cur b') = savepointLevel (cur b)" "chain (cur b') = False"
      "same_log b b'" "same_rest b b'" "same_chars b b'" "wf_backend base b'"
  | m where "PushTransaction b = Inl (ERROR m, b)"
proof (cases "currentSubTransactionId b + 1 = InvalidSubTransactionId")
  case True
  then show thesis using PushTransaction_overflow that(2) by blast
next
  case False
  from PushTransaction_effect[OF this] obtain b' where
    e: "PushTransaction b = Inr b'"
     "cur b' = zero_TransactionStateData
               \<lparr>fullTransactionId := InvalidFullTransactionId,
                subTransactionId := currentSubTransactionId b + 1,
                nestingLevel := nestingLevel (cur b) + 1, gucNestLevel := GUCNestLevel b + 1,
                savepointLevel := savepointLevel (cur b), state := TRANS_DEFAULT,
                blockState := TBLOCK_SUBBEGIN, prevUser := CurrentUserId b,
                prevSecContext := SecurityRestrictionContext b, prevXactReadOnly := XactReadOnly b,
                parallelModeLevel := 0, assigned := False\<rparr>"
     "parents b' = cur b # parents b" "same_log b b'" "same_rest b b'" "same_top b b'" "same_chars b b'"
    by blast
  have x: "xids_ok base (pg_xact b) (xact_cache b) (live_xids (parents b) @ own_xids (cur b)) [] False
     (future_xids b)"
    using assms by (auto simp: wf_backend_def wf_core_def log_ok_def intro: xids_ok_push)
  have "own_xids (cur b') = []" by (simp add: e(2) own_xids_def zero_TransactionStateData_def)
  then have l: "log_ok base b'" using x e(2-4)
    by (simp add: log_ok_def same_log_def future_xids_def live_xids_Cons)
  have "stack_ok (stack b')" "list_all entry_ok (stack b')" "glob_ok b'"
    using assms e(2,3,5,6)
    by (simp_all add: wf_backend_def wf_defs frame_defs entry_ok_def zero_TransactionStateData_def)
  then have "wf_backend base b'" using l e(2) by (simp add: wf_backend_def wf_core_def)
  then show thesis
    by (intro that(1)[OF e(1,3) _ _ _ _ _ e(4,5,7)])
       (simp_all add: e(2) zero_TransactionStateData_def)
qed

lemma wf_start_sub:
  assumes "wf_backend base b" "blockState (cur b) = TBLOCK_SUBBEGIN"
  obtains b' where "StartSubTransaction b = Inr b'"
    "cur b' = (cur b)\<lparr>curTransactionOwner := Some (owner_seq b), state := TRANS_INPROGRESS\<rparr>"
    "parents b' = parents b" "same_log b b'" "same_rest b b'" "same_chars b b'"
    "wf_backend base (with_block TBLOCK_SUBINPROGRESS b')"
proof -
  have ne: "parents b \<noteq> []" using assms by (auto simp: wf_backend_def wf_defs)
  from StartSubTransaction_effect[OF ne] obtain b' where
    e: "StartSubTransaction b = Inr b'"
     "cur b' = (cur b)\<lparr>curTransactionOwner := Some (owner_seq b), state := TRANS_INPROGRESS\<rparr>"
     "parents b' = parents b" "same_log b b'" "same_rest b b'" "same_top b b'" "same_chars b b'" by blast
  have "wf_backend base (with_block TBLOCK_SUBINPROGRESS b')"
    using assms ne e(2-6)
    by (cases "parents b") (auto simp: wf_backend_def wf_defs entry_ok_def frame_defs)
  then show thesis using that[OF e(1-5,7)] by blast
qed

lemma adopts_fields:
  assumes "adopts p s p'"
  shows "blockState p' = blockState p" "state p' = state p" "nestingLevel p' = nestingLevel p"
    "fullTransactionId p' = fullTransactionId p" "curTransactionOwner p' = curTransactionOwner p"
    "name p' = name p" "chain p' = chain p" "savepointLevel p' = savepointLevel p"
    "prevXactReadOnly p' = prevXactReadOnly p" "parallelModeLevel p' = parallelModeLevel p"
    "prevSecContext p' = prevSecContext p"
  using assms by (auto simp: adopts_def split: if_splits)

lemma adopts_xids:
  assumes "adopts p s p'" "entry_ok s" "has_xid s \<longrightarrow> has_xid p"
  shows "own_xids p' = own_xids p @ own_xids s"
proof (cases "has_xid s")
  case True
  then have "childXids p' = childXids p @ own_xids s"
    using assms(1) by (auto simp: adopts_def own_xids_has)
  then show ?thesis using True assms by (simp add: own_xids_has adopts_fields[OF assms(1)])
next
  case False
  then show ?thesis using assms by (simp add: own_xids_none adopts_def)
qed

lemma wf_commit_sub:
  assumes "wf_backend base b" "trans_of (blockState (cur b)) = TRANS_INPROGRESS" "parents b = p # ps"
  obtains b' where "CommitSubTransaction b = Inr b'" "adopts p (cur b) (cur b')" "parents b' = ps"
      "same_log b b'" "same_rest b b'" "same_chars b (b'\<lparr>XactReadOnly := XactReadOnly b\<rparr>)"
      "XactReadOnly b' = prevXactReadOnly (cur b)" "wf_backend base b'"
      "own_xids (cur b') = own_xids p @ own_xids (cur b)"
  | m b' where "CommitSubTransaction b = Inl (ERROR m, b')" "cur b' = (cur b)\<lparr>state := TRANS_COMMIT\<rparr>"
      "parents b' = parents b" "same_log b b'" "same_rest b b'" "same_chars b b'" "wf_err base b'"
proof -
  have w: "wf_core base b" "state (cur b) = TRANS_INPROGRESS" using assms by (auto simp: wf_backend_def)
  then have ok: "parallelModeLevel (cur b) = 0" "\<not> IsParallelWorker (env b)" "entry_ok (cur b)"
    "has_xid (cur b) \<longrightarrow> has_xid p" "state p = TRANS_INPROGRESS" "trans_of (blockState p) = TRANS_INPROGRESS"
    "entry_ok p"
    using assms(3) by (auto simp: wf_defs entry_ok_def)
  show thesis
  proof (rule CommitSubTransaction_cases[OF assms(3) ok(1,2)])
    fix b' assume e: "CommitSubTransaction b = Inr b'" "adopts p (cur b) (cur b')" "parents b' = ps"
      "same_log b b'" "same_rest b b'" "same_top b b'"
      "XactReadOnly b' = prevXactReadOnly (cur b)" "XactIsoLevel b' = XactIsoLevel b"
      "XactDeferrable b' = XactDeferrable b"
    note f = adopts_fields[OF e(2)] and own = adopts_xids[OF e(2) ok(3,4)]
    have "xids_ok base (pg_xact b) (xact_cache b) (live_xids ps) (own_xids p @ own_xids (cur b)) False
        (future_xids b)"
      using w assms(3) by (auto simp: wf_core_def log_ok_def live_xids_Cons intro: xids_ok_adopt)
    then have l: "log_ok base b'"
      using e(3,4) own f(2) ok(5) by (simp add: log_ok_def same_log_def future_xids_def)
    have "entry_ok (cur b')"
      using ok(3,4,7) f e(2) by (auto simp: entry_ok_def adopts_def split: if_splits)
    moreover have "stack_ok (stack b')"
      using w(1) assms(3) e(3) f by (cases ps) (simp_all add: wf_core_def stack_def)
    ultimately have "wf_core base b'"
      using w(1) assms(3) e(3,5,6) l f by (simp add: wf_defs frame_defs)
    then have "wf_backend base b'" using ok(5,6) f by (simp add: wf_backend_def)
    then show thesis using that(1)[OF e(1-5) _ e(7)] own e(8,9) by (simp add: same_chars_def)
  next
    fix m b' assume e: "CommitSubTransaction b = Inl (ERROR m, b')" "cur b' = (cur b)\<lparr>state := TRANS_COMMIT\<rparr>"
      "parents b' = parents b" "same_log b b'" "same_rest b b'" "same_top b b'" "same_chars b b'"
    have "wf_core base b'"
      using w assms(3) e(2-6) by (simp add: wf_defs frame_defs entry_ok_def)
    then have "wf_err base b'" using assms(2) e(2) by (simp add: wf_err_def)
    then show thesis using that(2)[OF e(1-5,7)] by blast
  qed
qed
end
