(* ===== verification/Xact_Assign.thy ===== *)
theory Xact_Assign
  imports Xact_Inv
begin

section \<open>XID assignment and PREPARE under the invariant\<close>

text \<open>
  \<^verbatim>\<open>AssignTransactionId\<close> gives xids to the unassigned ancestors from the outside in and then
  to the entry itself; it keeps the invariant and, apart from the xids, the stack.
  \<^verbatim>\<open>PrepareTransaction\<close>, which assigns an xid first, is treated here too.
\<close>

subsection \<open>XID assignment\<close>

lemma stack_ne [simp]: "stack b \<noteq> []" by (simp add: stack_def)

lemma stack_set_stack: "ss \<noteq> [] \<Longrightarrow> stack (set_stack ss b) = ss"
  by (cases ss) (simp_all add: set_stack_def stack_def)

lemma same_set_stack:
  "same_log b (set_stack ss b)" "same_rest b (set_stack ss b)" "same_top b (set_stack ss b)"
  "same_chars b (set_stack ss b)"
  by (simp_all add: set_stack_def frame_defs split: list.split)

lemma stack_upd_entry: "stack (upd_entry i f b) = (stack b)[i := f (stack b ! i)]"
  by (simp add: upd_entry_def stack_set_stack)

lemma set_top_set_stack: "set_top f b = set_stack (butlast (stack b) @ [f (top b)]) b"
  by (auto simp: set_top_def set_stack_def stack_def top_def)

text \<open>The top entry may be marked as logged on the way; nothing else of the stack depends on that.\<close>

definition forget_logged :: "TransactionStateData \<Rightarrow> TransactionStateData" where
  "forget_logged s = s\<lparr>didLogXid := False\<rparr>"

lemma forget_set_top:
  "map forget_logged (stack (set_top (\<lambda>s. s\<lparr>didLogXid := x\<rparr>) b)) = map forget_logged (stack b)"
proof -
  have "map forget_logged (stack (set_top (\<lambda>s. s\<lparr>didLogXid := x\<rparr>) b)) =
      map forget_logged (butlast (stack b)) @ [forget_logged (top b)]"
    by (simp add: set_top_set_stack stack_set_stack forget_logged_def)
  also have "\<dots> = map forget_logged (butlast (stack b) @ [last (stack b)])" by (simp add: top_def del: append_butlast_last_id)
  finally show ?thesis by (simp only: append_butlast_last_id[OF stack_ne])
qed

lemma same_set_top: "same_log b (set_top f b)" "same_rest b (set_top f b)" "same_top b (set_top f b)"
  "same_chars b (set_top f b)"
  by (simp_all add: set_top_set_stack same_set_stack)

lemma report_subxid_effect:
  assumes "isSub \<longrightarrow> FullTransactionIdIsValid (XactTopFullTransactionId b)"
  shows "\<exists>b'. report_subxid isSub lu x b = Inr b' \<and> map forget_logged (stack b') = map forget_logged (stack b) \<and>
     same_log b b' \<and> same_rest b b' \<and> same_top b b' \<and> same_chars b b'"
proof (cases "isSub \<and> XLogStandbyInfoActive (env b)")
  case False
  then show ?thesis by (auto simp: report_subxid_def when_do_def frame_defs)
next
  case True
  let ?c = "b\<lparr>unreportedXids := unreportedXids b @ [XidFromFullTransactionId x]\<rparr>"
  let ?d = "?c\<lparr>trace := trace b @ [Call ''XLOG_XACT_ASSIGNMENT''
                 [AXid (GetTopTransactionIdIfAny b), AXids (unreportedXids ?c)]],
      wal_pos := wal_pos b + 1, XactLastRecEnd := wal_pos b + 1, unreportedXids := []\<rparr>"
  have v: "TransactionIdIsValid (GetTopTransactionIdIfAny b)"
    using True assms by (simp add: FullTransactionIdIsValid_def GetTopTransactionIdIfAny_def)
  show ?thesis
  proof (cases "length (unreportedXids ?c) \<ge> PGPROC_MAX_CACHED_SUBXIDS \<or> lu")
    case False
    then have "report_subxid isSub lu x b = Inr ?c"
      using True by (auto simp: report_subxid_def stmt_simps)
    then show ?thesis by (simp add: frame_defs stack_def)
  next
    case L: True
    have "report_subxid isSub lu x b = Inr (set_top (\<lambda>s. s\<lparr>didLogXid := True\<rparr>) ?d)"
      using True L v
      by (auto simp: report_subxid_def stmt_simps XLogInsert_def GetTopTransactionIdIfAny_def)
    moreover have "same_log b ?d" "same_rest b ?d" "same_top b ?d" "same_chars b ?d" "stack ?d = stack b"
      by (simp_all add: frame_defs stack_def)
    ultimately show ?thesis
      using same_set_top[of ?d "\<lambda>s. s\<lparr>didLogXid := True\<rparr>"] forget_set_top[of True ?d]
      by (auto intro: frame_trans)
  qed
qed

lemma assign_entry_effect:
  assumes "xid_source b = x # xs" "i < length (stack b)"
    "i + 1 < length (stack b) \<Longrightarrow> FullTransactionIdIsValid (XactTopFullTransactionId b)"
  obtains b' where "assign_entry i b = Inr b'"
    "map forget_logged (stack b') = map forget_logged ((stack b)[i := (stack b ! i)\<lparr>fullTransactionId := x\<rparr>])"
    "pg_xact b' = pg_xact b" "xact_cache b' = xact_cache b" "xid_source b' = xs"
    "same_rest b b'" "same_chars b b'"
    "XactTopFullTransactionId b' = (if i + 1 < length (stack b) then XactTopFullTransactionId b else x)"
    "SecurityRestrictionContext b' = SecurityRestrictionContext b"
    "TopTransactionResourceOwner b' = TopTransactionResourceOwner b"
    "pg_subtrans b' = (if i + 1 < length (stack b) then (pg_subtrans b)
       (XidFromFullTransactionId x \<mapsto> XidFromFullTransactionId (fullTransactionId (stack b ! (i + 1))))
      else pg_subtrans b)"
proof -
  define sub where "sub = (i + 1 < length (stack b))"
  define lu where "lu = (sub \<and> XLogLogicalInfoActive (env b) \<and> \<not> didLogXid (top b))"
  define c where "c = upd_entry i (\<lambda>s. s\<lparr>fullTransactionId := x\<rparr>) (b\<lparr>xid_source := xs\<rparr>)"
  define pre where "pre = seq
       [ when_do (\<lambda>b. \<not> sub) (upd (\<lambda>b. b\<lparr>XactTopFullTransactionId := x\<rparr>)),
         when_do (\<lambda>b. sub) (upd (\<lambda>b. b\<lparr>pg_subtrans := (pg_subtrans b)
             (XidFromFullTransactionId x \<mapsto>
                XidFromFullTransactionId (fullTransactionId (stack b ! (i + 1))))\<rparr>)),
         when_do (\<lambda>b. \<not> sub)
           (emit (\<lambda>b. [Call ''RegisterPredicateLockingXid'' [AXid (XidFromFullTransactionId x)]])),
         with_state (\<lambda>b. let currentOwner = CurrentResourceOwner b in seq
           [ upd (\<lambda>b. b\<lparr>CurrentResourceOwner := curTransactionOwner (stack b ! i)\<rparr>),
             emit (\<lambda>b. [Call ''XactLockTableInsert'' [AXid (XidFromFullTransactionId x),
                          AOwner (CurrentResourceOwner b)]]),
             upd (\<lambda>b. b\<lparr>CurrentResourceOwner := currentOwner\<rparr>) ])]"
  have c: "stack c = (stack b)[i := (stack b ! i)\<lparr>fullTransactionId := x\<rparr>]"
    unfolding c_def stack_upd_entry by (simp add: stack_def)
  have cf: "pg_xact c = pg_xact b" "xact_cache c = xact_cache b" "xid_source c = xs" "same_rest b c"
    "same_chars b c" "same_top b c" "pg_subtrans c = pg_subtrans b"
    using same_set_stack[of "b\<lparr>xid_source := xs\<rparr>"]
    by (auto simp: c_def upd_entry_def frame_defs)
  have unf: "assign_entry i b = (case pre c of Inl e \<Rightarrow> Inl e | Inr d \<Rightarrow> report_subxid sub lu x d)"
    using assms(1) unfolding assign_entry_def with_state_def Let_def let_do_def GetNewTransactionId_def
      sub_def[symmetric] lu_def[symmetric] pre_def
    by (simp add: upd_def flip: c_def sub_def lu_def split: sum.split)
  have "\<exists>d. pre c = Inr d \<and> stack d = stack c \<and> pg_xact d = pg_xact c \<and> xact_cache d = xact_cache c \<and>
     xid_source d = xid_source c \<and> same_rest c d \<and> same_chars c d \<and>
     XactTopFullTransactionId d = (if sub then XactTopFullTransactionId c else x) \<and>
     SecurityRestrictionContext d = SecurityRestrictionContext c \<and>
     TopTransactionResourceOwner d = TopTransactionResourceOwner c \<and>
     pg_subtrans d = (if sub then (pg_subtrans c)
       (XidFromFullTransactionId x \<mapsto> XidFromFullTransactionId (fullTransactionId (stack c ! (i + 1))))
      else pg_subtrans c)"
    unfolding pre_def by (cases sub) (simp_all add: stmt_simps frame_defs stack_def)
  then obtain d where d: "pre c = Inr d" "stack d = stack c" "pg_xact d = pg_xact c"
    "xact_cache d = xact_cache c" "xid_source d = xid_source c" "same_rest c d" "same_chars c d"
     "XactTopFullTransactionId d = (if sub then XactTopFullTransactionId c else x)"
     "SecurityRestrictionContext d = SecurityRestrictionContext c"
     "TopTransactionResourceOwner d = TopTransactionResourceOwner c"
     "pg_subtrans d = (if sub then (pg_subtrans c)
       (XidFromFullTransactionId x \<mapsto> XidFromFullTransactionId (fullTransactionId (stack c ! (i + 1))))
      else pg_subtrans c)" by blast
  have "sub \<longrightarrow> FullTransactionIdIsValid (XactTopFullTransactionId d)"
    using assms(3) cf(6) d(8) by (auto simp: sub_def same_top_def)
  from report_subxid_effect[OF this, of lu x] obtain b' where
    e: "report_subxid sub lu x d = Inr b'" "map forget_logged (stack b') = map forget_logged (stack d)"
      "same_log d b'" "same_rest d b'" "same_top d b'" "same_chars d b'" by blast
  show thesis
  proof (rule that[of b'])
    show "assign_entry i b = Inr b'" by (simp add: unf d(1) e(1))
    show "same_rest b b'" by (rule same_rest_trans[OF same_rest_trans[OF cf(4) d(6)] e(4)])
    show "same_chars b b'" by (rule same_chars_trans[OF same_chars_trans[OF cf(5) d(7)] e(6)])
    show "pg_subtrans b' = (if i + 1 < length (stack b) then (pg_subtrans b)
       (XidFromFullTransactionId x \<mapsto> XidFromFullTransactionId (fullTransactionId (stack b ! (i + 1))))
      else pg_subtrans b)"
      using e(3) d(11) cf(7) c by (simp add: same_log_def sub_def)
  qed (use c cf(1-3,6) d(2-5,8-10) e(2,3,5) in \<open>simp_all add: same_log_def same_top_def sub_def\<close>)
qed


lemma forget_logged_simps [simp]:
  "own_xids (forget_logged s) = own_xids s" "entry_ok (forget_logged s) = entry_ok s"
  "blockState (forget_logged s) = blockState s" "state (forget_logged s) = state s"
  "nestingLevel (forget_logged s) = nestingLevel s" "fullTransactionId (forget_logged s) = fullTransactionId s"
  "curTransactionOwner (forget_logged s) = curTransactionOwner s" "name (forget_logged s) = name s"
  by (simp_all add: forget_logged_def entry_ok_def)

lemma stack_ok_forget [simp]: "stack_ok (map forget_logged ss) = stack_ok ss"
  by (induction ss rule: stack_ok.induct) auto

lemma live_xids_forget [simp]: "live_xids (map forget_logged ss) = live_xids ss"
  by (simp add: live_xids_def rev_map o_def)

lemma list_all_forget [simp]: "list_all entry_ok (map forget_logged ss) = list_all entry_ok ss"
  by (simp add: list_all_iff)

text \<open>A stack entry without an xid has no xids inside it.\<close>

lemma stack_ok_no_xid:
  "stack_ok ss \<Longrightarrow> i < length ss \<Longrightarrow> \<not> has_xid (ss ! i) \<Longrightarrow> j \<le> i \<Longrightarrow> \<not> has_xid (ss ! j)"
proof (induction ss arbitrary: i j rule: stack_ok.induct)
  case (3 s t ss)
  show ?case
  proof (cases i)
    case (Suc k)
    have inner: "\<not> has_xid ((t # ss) ! l)" if "l \<le> k" for l
      using "3.IH" "3.prems" Suc that by auto
    show ?thesis using inner[of 0] inner[of "j - 1"] "3.prems" Suc by (cases j) auto
  qed (use "3.prems" in auto)
qed auto

lemma live_xids_assign:
  "i < length ss \<Longrightarrow> (\<And>j. j \<le> i \<Longrightarrow> own_xids (ss ! j) = []) \<Longrightarrow> own_xids s' = [x] \<Longrightarrow>
   live_xids (ss[i := s']) = live_xids ss @ [x]"
proof (induction ss arbitrary: i)
  case (Cons s ss)
  have s: "own_xids s = []" using Cons.prems(2)[of 0] by simp
  show ?case
  proof (cases i)
    case 0
    then show ?thesis using Cons.prems s by (simp add: live_xids_Cons)
  next
    case (Suc k)
    then have "live_xids (ss[k := s']) = live_xids ss @ [x]"
      using Cons.prems Cons.prems(2)[of "Suc _"] by (intro Cons.IH) auto
    then show ?thesis using Suc s by (simp add: live_xids_Cons)
  qed
qed simp

lemma stack_ok_assign:
  "stack_ok ss \<Longrightarrow> i < length ss \<Longrightarrow> (\<And>j. j \<le> i \<Longrightarrow> \<not> has_xid (ss ! j)) \<Longrightarrow>
   (i + 1 < length ss \<Longrightarrow> has_xid (ss ! (i + 1))) \<Longrightarrow>
   stack_ok (ss[i := (ss ! i)\<lparr>fullTransactionId := x\<rparr>])"
proof (induction ss arbitrary: i rule: stack_ok.induct)
  case (3 s t ss)
  show ?case
  proof (cases i)
    case (Suc k)
    have "stack_ok ((t # ss)[k := ((t # ss) ! k)\<lparr>fullTransactionId := x\<rparr>])"
      using "3.prems" "3.prems"(3)[of "Suc _"] Suc by (intro "3.IH") auto
    moreover have "\<not> has_xid s" using "3.prems"(3)[of 0] by simp
    ultimately show ?thesis using "3.prems"(1) Suc by (cases k) auto
  qed (use "3.prems" in auto)
qed auto

lemma log_ok_stack:
  "state (cur b) \<noteq> TRANS_ABORT \<Longrightarrow>
   log_ok base b = xids_ok base (pg_xact b) (xact_cache b) (live_xids (stack b)) [] False (future_xids b)"
  by (auto simp: log_ok_def xids_ok_def stack_def live_xids_Cons)

text \<open>The enclosing entries are in progress.\<close>

lemma stack_ok_parent_state:
  "stack_ok ss \<Longrightarrow> Suc i < length ss \<Longrightarrow>
   state (ss ! Suc i) = TRANS_INPROGRESS \<and> trans_of (blockState (ss ! Suc i)) = TRANS_INPROGRESS"
proof (induction ss arbitrary: i rule: stack_ok.induct)
  case (3 s t ss)
  then show ?case by (cases i) auto
qed auto

lemma stack_ok_last_xid: "stack_ok ss \<Longrightarrow> i < length ss \<Longrightarrow> has_xid (ss ! i) \<Longrightarrow> has_xid (last ss)"
proof (induction ss arbitrary: i rule: stack_ok.induct)
  case (3 s t ss)
  show ?case
  proof (cases i)
    case 0
    then have "has_xid ((t # ss) ! 0)" using "3.prems" by auto
    then show ?thesis using "3.IH"[of 0] "3.prems" by simp
  next
    case (Suc k)
    then show ?thesis using "3.IH"[of k] "3.prems" by simp
  qed
qed auto

lemma wf_assign_checks:
  assumes "wf_backend base b" "state (cur b) = TRANS_INPROGRESS" "i < length (stack b)"
    "\<not> has_xid (stack b ! i)"
  shows "assign_checks i b = Inr b"
proof -
  have "state (stack b ! i) = TRANS_INPROGRESS"
    using assms stack_ok_parent_state[of "stack b" "i - 1"]
    by (cases i) (auto simp: wf_backend_def wf_core_def stack_def)
  moreover have "\<not> IsInParallelMode b" "\<not> IsParallelWorker (env b)"
    using assms(1) by (simp_all add: wf_backend_def wf_defs entry_ok_def IsInParallelMode_def)
  ultimately show ?thesis using assms(4) by (simp add: assign_checks_def stmt_simps)
qed

lemma forget_cur:
  assumes "map forget_logged (stack b) = map forget_logged ss"
  shows "forget_logged (cur b) = forget_logged (hd ss)" "length (stack b) = length ss"
    "forget_logged (top b) = forget_logged (last ss)"
    "i < length ss \<Longrightarrow> forget_logged (stack b ! i) = forget_logged (ss ! i)"
proof -
  have len: "length (stack b) = length ss" using map_eq_imp_length_eq[OF assms] .
  then have ne: "ss \<noteq> []" using stack_ne[of b] by (metis length_0_conv)
  show "forget_logged (cur b) = forget_logged (hd ss)"
    using arg_cong[OF assms, of hd] ne by (simp add: hd_map stack_def)
  show "forget_logged (top b) = forget_logged (last ss)"
    using arg_cong[OF assms, of last] ne by (simp add: last_map top_def)
  show "i < length ss \<Longrightarrow> forget_logged (stack b ! i) = forget_logged (ss ! i)"
    using arg_cong[OF assms, of "\<lambda>l. l ! i"] len by simp
qed (use map_eq_imp_length_eq[OF assms] in simp)

lemma forget_eqD:
  assumes "forget_logged s = forget_logged t"
  shows "own_xids s = own_xids t" "entry_ok s = entry_ok t" "blockState s = blockState t"
    "state s = state t" "fullTransactionId s = fullTransactionId t" "nestingLevel s = nestingLevel t"
    "curTransactionOwner s = curTransactionOwner t"
  using arg_cong[OF assms, of own_xids] arg_cong[OF assms, of entry_ok] arg_cong[OF assms, of blockState]
    arg_cong[OF assms, of state] arg_cong[OF assms, of fullTransactionId]
    arg_cong[OF assms, of nestingLevel] arg_cong[OF assms, of curTransactionOwner] by simp_all

lemma wf_assign_entry:
  assumes "wf_backend base b" "state (cur b) = TRANS_INPROGRESS" "i < length (stack b)"
    "\<not> has_xid (stack b ! i)" "i + 1 < length (stack b) \<Longrightarrow> has_xid (stack b ! (i + 1))"
  obtains m where "assign_entry i b = Inl (ERROR m, b)"
  | x b' where "assign_entry i b = Inr b'" "xid_source b = x # xid_source b'"
    "map forget_logged (stack b') = map forget_logged ((stack b)[i := (stack b ! i)\<lparr>fullTransactionId := x\<rparr>])"
    "wf_backend base b'" "state (cur b') = TRANS_INPROGRESS" "FullTransactionIdIsValid x"
    "pg_xact b' = pg_xact b" "same_rest b b'" "same_chars b b'"
    "live_xids (stack b') = live_xids (stack b) @ [XidFromFullTransactionId x]"
proof (cases "xid_source b")
  case Nil
  then have "\<exists>m. assign_entry i b = Inl (ERROR m, b)"
    by (simp add: assign_entry_def with_state_def Let_def let_do_def GetNewTransactionId_def)
  then show thesis using that(1) by blast
next
  case (Cons x xs)
  let ?ss = "(stack b)[i := (stack b ! i)\<lparr>fullTransactionId := x\<rparr>]"
  have w: "stack_ok (stack b)" "list_all entry_ok (stack b)" "glob_ok b"
    "xids_ok base (pg_xact b) (xact_cache b) (live_xids (stack b)) [] False (future_xids b)"
    using assms(1,2) by (simp_all add: wf_backend_def wf_core_def log_ok_stack)
  have no: "\<not> has_xid (stack b ! j)" "own_xids (stack b ! j) = []" if "j \<le> i" for j
    using that stack_ok_no_xid[OF w(1) assms(3,4)] w(2) assms(3)
    by (auto intro!: own_xids_none simp: list_all_length)
  have valid: "FullTransactionIdIsValid x"
    using w(4) Cons by (auto simp: xids_ok_def future_xids_def xid_window_def FullTransactionIdIsValid_def
        xid_consts word_le_nat_alt)
  have tv: "i + 1 < length (stack b) \<Longrightarrow> FullTransactionIdIsValid (XactTopFullTransactionId b)"
    using stack_ok_last_xid[OF w(1) _ assms(5)] w(3) by (simp add: glob_ok_def top_def)
  show thesis
  proof (rule assign_entry_effect[OF Cons assms(3) tv])
    fix b' assume e: "assign_entry i b = Inr b'"
      "map forget_logged (stack b') = map forget_logged ?ss"
      "pg_xact b' = pg_xact b" "xact_cache b' = xact_cache b" "xid_source b' = xs"
      "same_rest b b'" "same_chars b b'"
      "XactTopFullTransactionId b' = (if i + 1 < length (stack b) then XactTopFullTransactionId b else x)"
      "SecurityRestrictionContext b' = SecurityRestrictionContext b"
      "TopTransactionResourceOwner b' = TopTransactionResourceOwner b"
    note f = forget_cur[OF e(2)]
    have "stack_ok ?ss" using w(1) assms(3,5) no by (intro stack_ok_assign) auto
    then have s: "stack_ok (stack b')" using arg_cong[OF e(2), of stack_ok] by simp
    have own: "own_xids ((stack b ! i)\<lparr>fullTransactionId := x\<rparr>) = [XidFromFullTransactionId x]"
      using no[of i] valid by (simp add: own_xids_def)
    have "trans_of (blockState (stack b ! i)) = TRANS_INPROGRESS"
      using assms(1-3) stack_ok_parent_state[OF w(1), of "i - 1"]
      by (cases i) (auto simp: wf_backend_def stack_def)
    then have "list_all entry_ok ?ss"
      using w(2) assms(3,4) valid by (auto simp: list_all_length nth_list_update entry_ok_def split: if_splits)
    then have en: "list_all entry_ok (stack b')" using arg_cong[OF e(2), of "list_all entry_ok"] by simp
    have live: "live_xids (stack b') = live_xids (stack b) @ [XidFromFullTransactionId x]"
      using live_xids_assign[OF assms(3) no(2) own] arg_cong[OF e(2), of live_xids] by simp
    have hd: "state (hd ?ss) = state (cur b)" "blockState (hd ?ss) = blockState (cur b)"
      by (cases i; simp add: stack_def)+
    have last: "fullTransactionId (last ?ss) = (if i + 1 < length (stack b) then fullTransactionId (top b) else x)"
      "curTransactionOwner (last ?ss) = curTransactionOwner (top b)"
      using assms(3) by (auto simp: top_def last_conv_nth nth_list_update)
    have c: "state (cur b') = TRANS_INPROGRESS" "blockState (cur b') = blockState (cur b)"
      using hd assms(2) forget_eqD[OF f(1)] by simp_all
    have "xids_ok base (pg_xact b') (xact_cache b') (live_xids (stack b')) [] False (future_xids b')"
      using w(4) e(3-5) Cons live by (auto simp: xids_ok_def future_xids_def)
    then have "log_ok base b'" using c(1) by (simp add: log_ok_stack)
    moreover have "glob_ok b'"
      using w(3) e(6,8-10) last forget_eqD[OF f(3)] by (simp add: glob_ok_def same_rest_def)
    ultimately have wf: "wf_backend base b'"
      using s en c assms(1,2) by (simp add: wf_backend_def wf_core_def)
    show thesis by (rule that(2)[OF e(1) _ e(2) wf c(1) valid e(3,6,7) live]) (simp add: Cons e(5))
  qed
qed

text \<open>What any number of assignments leaves alone: the stack apart from the xids.\<close>

definition shape :: "TransactionStateData \<Rightarrow> TransactionStateData" where
  "shape s = s\<lparr>didLogXid := False, fullTransactionId := 0\<rparr>"

definition assigned_ids :: "backend \<Rightarrow> backend \<Rightarrow> bool" where
  "assigned_ids b b' \<longleftrightarrow> (\<exists>ys. live_xids (stack b') = live_xids (stack b) @ ys \<and> future_xids b = ys @ future_xids b')"

lemma assigned_ids_refl: "assigned_ids b b"
  by (simp add: assigned_ids_def)

lemma assigned_ids_trans: "assigned_ids a b \<Longrightarrow> assigned_ids b c \<Longrightarrow> assigned_ids a c"
  by (auto simp: assigned_ids_def)

lemma assigned_ids_one:
  "xid_source b = x # xid_source b' \<Longrightarrow> live_xids (stack b') = live_xids (stack b) @ [XidFromFullTransactionId x] \<Longrightarrow>
   assigned_ids b b'"
  by (simp add: assigned_ids_def future_xids_def)

definition assigned_more :: "TransactionId \<Rightarrow> backend \<Rightarrow> backend \<Rightarrow> bool" where
  "assigned_more base b b' \<longleftrightarrow> wf_backend base b' \<and> state (cur b') = TRANS_INPROGRESS \<and>
     map shape (stack b') = map shape (stack b) \<and> pg_xact b' = pg_xact b \<and> same_rest b b' \<and> same_chars b b' \<and>
     assigned_ids b b'"

lemma assigned_more_refl:
  "wf_backend base b \<Longrightarrow> state (cur b) = TRANS_INPROGRESS \<Longrightarrow> assigned_more base b b"
  by (simp add: assigned_more_def frame_defs assigned_ids_refl)

lemma assigned_more_trans: "assigned_more base a b \<Longrightarrow> assigned_more base b c \<Longrightarrow> assigned_more base a c"
  by (auto simp: assigned_more_def intro: same_rest_trans same_chars_trans assigned_ids_trans)

lemma shape_forget: "forget_logged s = forget_logged t \<Longrightarrow> shape s = shape t"
  using arg_cong[of "forget_logged s" "forget_logged t" "\<lambda>s. s\<lparr>fullTransactionId := 0\<rparr>"]
  by (simp add: shape_def forget_logged_def)

lemma shape_assigned:
  assumes "map forget_logged (stack b') = map forget_logged ((stack b)[i := (stack b ! i)\<lparr>fullTransactionId := x\<rparr>])"
  shows "map shape (stack b') = map shape (stack b)"
proof (rule nth_equalityI)
  fix j assume "j < length (map shape (stack b'))"
  moreover have "shape (s\<lparr>fullTransactionId := x\<rparr>) = shape s" for s by (simp add: shape_def)
  ultimately show "map shape (stack b') ! j = map shape (stack b) ! j"
    using shape_forget[OF forget_cur(4)[OF assms, of j]] forget_cur(2)[OF assms]
    by (cases "i = j") auto
qed (use forget_cur(2)[OF assms] in simp)

lemma wf_assign_range:
  assumes "wf_backend base b" "state (cur b) = TRANS_INPROGRESS" "i + n \<le> length (stack b)"
    "\<And>j. i \<le> j \<Longrightarrow> j < i + n \<Longrightarrow> \<not> has_xid (stack b ! j)"
    "i + n < length (stack b) \<Longrightarrow> has_xid (stack b ! (i + n))"
  shows "(\<exists>m b'. seq (map assign_parent (rev [i..<i + n])) b = Inl (ERROR m, b') \<and>
       assigned_more base b b') \<or>
     (\<exists>b'. seq (map assign_parent (rev [i..<i + n])) b = Inr b' \<and>
       assigned_more base b b' \<and>
       (\<forall>j < i. forget_logged (stack b' ! j) = forget_logged (stack b ! j)) \<and>
       (i < length (stack b') \<longrightarrow> has_xid (stack b' ! i)))"
  using assms
proof (induction n arbitrary: b)
  case 0
  then show ?case by (auto intro: assigned_more_refl)
next
  case (Suc n)
  have ch: "assign_checks (i + n) b = Inr b" using Suc.prems by (intro wf_assign_checks) auto
  have i: "i + n < length (stack b)" "\<not> has_xid (stack b ! (i + n))"
    "i + n + 1 < length (stack b) \<Longrightarrow> has_xid (stack b ! (i + n + 1))" using Suc.prems by auto
  show ?case
  proof (rule wf_assign_entry[OF Suc.prems(1,2) i])
    fix m assume "assign_entry (i + n) b = Inl (ERROR m, b)"
    then have "assign_parent (i + n) b = Inl (ERROR m, b)" using ch by (simp add: assign_parent_def)
    then show ?case using assigned_more_refl[OF Suc.prems(1,2)] by auto
  next
    fix x b1 assume e: "assign_entry (i + n) b = Inr b1" "xid_source b = x # xid_source b1"
      "map forget_logged (stack b1) =
         map forget_logged ((stack b)[i + n := (stack b ! (i + n))\<lparr>fullTransactionId := x\<rparr>])"
      "wf_backend base b1" "state (cur b1) = TRANS_INPROGRESS" "FullTransactionIdIsValid x"
      "pg_xact b1 = pg_xact b" "same_rest b b1" "same_chars b b1"
      "live_xids (stack b1) = live_xids (stack b) @ [XidFromFullTransactionId x]"
    note f = forget_cur[OF e(3)]
    have m1: "assigned_more base b b1"
      using e shape_assigned[OF e(3)] assigned_ids_one[OF e(2,10)] by (simp add: assigned_more_def)
    have old: "forget_logged (stack b1 ! j) = forget_logged (stack b ! j)" if "j < i + n" for j
      using f(4)[of j] that i(1) by simp
    have new: "has_xid (stack b1 ! (i + n))"
      using forget_eqD(5)[OF f(4)[of "i + n"]] i(1) e(6) by simp
    have "(\<exists>m b'. seq (map assign_parent (rev [i..<i + n])) b1 = Inl (ERROR m, b') \<and>
       assigned_more base b1 b') \<or>
     (\<exists>b'. seq (map assign_parent (rev [i..<i + n])) b1 = Inr b' \<and>
       assigned_more base b1 b' \<and>
       (\<forall>j < i. forget_logged (stack b' ! j) = forget_logged (stack b1 ! j)) \<and>
       (i < length (stack b') \<longrightarrow> has_xid (stack b' ! i)))"
      using Suc.prems(3,4) e(4,5) f(2) new forget_eqD(5)[OF old]
      by (intro Suc.IH) auto
    moreover have "assign_parent (i + n) b = Inr b1" using ch e(1) by (simp add: assign_parent_def)
    ultimately show ?case using m1 old by (auto intro: assigned_more_trans)
  qed
qed

lemma takeWhile_upt:
  obtains n where "takeWhile P [a..<b] = [a..<a + n]" "a + n \<le> max a b" "\<And>j. a \<le> j \<Longrightarrow> j < a + n \<Longrightarrow> P j"
    "a + n < b \<Longrightarrow> \<not> P (a + n)"
proof -
  define n where "n = length (takeWhile P [a..<b])"
  have n: "n \<le> b - a" using length_takeWhile_le[of P "[a..<b]"] by (simp add: n_def)
  show thesis
  proof (rule that[of n])
    show "takeWhile P [a..<b] = [a..<a + n]"
    proof (cases "a \<le> b")
      case True
      then show ?thesis using n takeWhile_eq_take[of P "[a..<b]"] by (simp add: n_def[symmetric] take_upt)
    qed (use n in auto)
    then show "P j" if "a \<le> j" "j < a + n" for j
      using that set_takeWhileD[of j P "[a..<b]"] by simp
    show "\<not> P (a + n)" if "a + n < b"
      using nth_length_takeWhile[of P "[a..<b]"] that by (simp add: n_def)
  qed (use n in auto)
qed

lemma wf_AssignTransactionId:
  assumes "wf_backend base b" "state (cur b) = TRANS_INPROGRESS" "i < length (stack b)"
    "\<not> has_xid (stack b ! i)"
  obtains m b' where "AssignTransactionId i b = Inl (ERROR m, b')" "assigned_more base b b'"
  | b' where "AssignTransactionId i b = Inr b'" "assigned_more base b b'" "has_xid (stack b' ! i)"
proof (rule takeWhile_upt[of "\<lambda>j. \<not> has_xid (stack b ! j)" "i + 1" "length (stack b)"])
  fix n assume n: "takeWhile (\<lambda>j. \<not> has_xid (stack b ! j)) [i + 1..<length (stack b)] = [i + 1..<i + 1 + n]"
    "i + 1 + n \<le> max (i + 1) (length (stack b))"
    "\<And>j. i + 1 \<le> j \<Longrightarrow> j < i + 1 + n \<Longrightarrow> \<not> has_xid (stack b ! j)"
    "i + 1 + n < length (stack b) \<Longrightarrow> \<not> \<not> has_xid (stack b ! (i + 1 + n))"
  let ?r = "seq (map assign_parent (rev [i + 1..<i + 1 + n])) b"
  have ch: "assign_checks i b = Inr b" using assms by (rule wf_assign_checks)
  have unf: "AssignTransactionId i b = (case ?r of Inl e \<Rightarrow> Inl e | Inr c \<Rightarrow> assign_entry i c)"
    by (simp add: AssignTransactionId_def ch with_state_def unassigned_parents_def n(1)[simplified]
        split: sum.split)
  have le: "i + 1 + n \<le> length (stack b)" using n(2) assms(3) by simp
  have at: "i + 1 + n < length (stack b) \<Longrightarrow> has_xid (stack b ! (i + 1 + n))" using n(4) by blast
  consider (err) m b' where "?r = Inl (ERROR m, b')" "assigned_more base b b'"
    | (ok) c where "?r = Inr c" "assigned_more base b c"
       "\<forall>j < i + 1. forget_logged (stack c ! j) = forget_logged (stack b ! j)"
       "i + 1 < length (stack c) \<longrightarrow> has_xid (stack c ! (i + 1))"
    using wf_assign_range[OF assms(1,2) le n(3) at] by blast
  then show thesis
  proof cases
    case err
    then show thesis using that(1) unf by simp
  next
    case ok
    have c: "wf_backend base c" "state (cur c) = TRANS_INPROGRESS" "length (stack c) = length (stack b)"
      using ok(2) map_eq_imp_length_eq by (auto simp: assigned_more_def)
    have no: "\<not> has_xid (stack c ! i)" using forget_eqD(5)[of "stack c ! i" "stack b ! i"] ok(3) assms(4) by simp
    show thesis
    proof (rule wf_assign_entry[OF c(1,2) _ no])
      show "i < length (stack c)" using assms(3) c(3) by simp
    next
      show "i + 1 < length (stack c) \<Longrightarrow> has_xid (stack c ! (i + 1))" using ok(4) by simp
    next
      fix m assume "assign_entry i c = Inl (ERROR m, c)"
      then show thesis using that(1) unf ok(1,2) by simp
    next
      fix x b' assume e: "assign_entry i c = Inr b'" "xid_source c = x # xid_source b'"
        "map forget_logged (stack b') = map forget_logged ((stack c)[i := (stack c ! i)\<lparr>fullTransactionId := x\<rparr>])"
        "wf_backend base b'" "state (cur b') = TRANS_INPROGRESS" "FullTransactionIdIsValid x"
        "pg_xact b' = pg_xact c" "same_rest c b'" "same_chars c b'"
        "live_xids (stack b') = live_xids (stack c) @ [XidFromFullTransactionId x]"
      have "assigned_more base c b'" using e shape_assigned[OF e(3)] assigned_ids_one[OF e(2,10)] by (simp add: assigned_more_def)
      moreover have "has_xid (stack b' ! i)"
        using forget_eqD(5)[OF forget_cur(4)[OF e(3), of i]] assms(3) c(3) e(6) by simp
      moreover have "AssignTransactionId i b = Inr b'" by (simp only: unf ok(1) e(1) sum.case)
      ultimately show thesis using that(2) assigned_more_trans[OF ok(2)] by blast
    qed
  qed
qed

lemma assigned_more_err: "assigned_more base b b' \<Longrightarrow> wf_err base b'"
  by (simp add: assigned_more_def wf_backend_err)

lemma shape_eqD:
  assumes "shape s = shape t"
  shows "blockState s = blockState t" "state s = state t" "nestingLevel s = nestingLevel t"
    "name s = name t" "chain s = chain t" "savepointLevel s = savepointLevel t"
    "childXids s = childXids t" "curTransactionOwner s = curTransactionOwner t"
  using arg_cong[OF assms, of blockState] arg_cong[OF assms, of state] arg_cong[OF assms, of nestingLevel]
    arg_cong[OF assms, of name] arg_cong[OF assms, of chain] arg_cong[OF assms, of savepointLevel]
    arg_cong[OF assms, of childXids] arg_cong[OF assms, of curTransactionOwner]
  by (simp_all add: shape_def)

lemma assigned_more_cur:
  assumes "assigned_more base b b'"
  shows "shape (cur b') = shape (cur b)" "map shape (parents b') = map shape (parents b)"
  using assms by (simp_all add: assigned_more_def stack_def)

lemma wf_GetCurrentTransactionId:
  assumes "wf_backend base b" "state (cur b) = TRANS_INPROGRESS"
  obtains m b' where "GetCurrentTransactionId b = Inl (ERROR m, b')" "assigned_more base b b'"
  | b' where "GetCurrentTransactionId b = Inr (xid_of (cur b'), b')" "assigned_more base b b'" "has_xid (cur b')"
proof (cases "has_xid (cur b)")
  case True
  then show thesis using that(2)[of b] assms by (simp add: GetCurrentTransactionId_def assigned_more_refl)
next
  case False
  then have "\<not> has_xid (stack b ! 0)" by (simp add: stack_def)
  show thesis
  proof (rule wf_AssignTransactionId[OF assms _ \<open>\<not> has_xid (stack b ! 0)\<close>])
    fix m b' assume "AssignTransactionId 0 b = Inl (ERROR m, b')" "assigned_more base b b'"
    then show thesis using that(1) False by (simp add: GetCurrentTransactionId_def)
  next
    fix b' assume "AssignTransactionId 0 b = Inr b'" "assigned_more base b b'" "has_xid (stack b' ! 0)"
    then show thesis using that(2) False by (simp add: GetCurrentTransactionId_def stack_def)
  qed simp
qed

subsection \<open>Preparing\<close>

lemma wf_core_state:
  assumes "wf_core base c" "state (cur c) \<noteq> TRANS_ABORT" "cur d = (cur c)\<lparr>state := s\<rparr>" "s \<noteq> TRANS_ABORT"
    "parents d = parents c" "same_log c d" "same_rest c d" "same_top c d"
  shows "wf_core base d"
  using assms by (cases "parents c") (simp_all add: wf_defs frame_defs entry_ok_def)

definition more_xids :: "backend \<Rightarrow> backend \<Rightarrow> bool" where
  "more_xids b b' \<longleftrightarrow> (\<exists>ys. live_xids (stack b') = live_xids (stack b) @ ys)"

lemma wf_prepare:
  assumes "wf_backend base b" "trans_of (blockState (cur b)) = TRANS_INPROGRESS" "parents b = []"
  obtains b' where "PrepareTransaction b = Inr b'" "parents b' = []" "pg_xact b' = pg_xact b"
      "same_rest b b'" "same_chars b b'" "wf_backend base (with_block TBLOCK_DEFAULT b')"
      "chain (cur b') = chain (cur b)" "name (cur b') = name (cur b)" "savepointLevel (cur b') = savepointLevel (cur b)"
  | m b' where "PrepareTransaction b = Inl (ERROR m, b')" "blockState (cur b') = blockState (cur b)"
      "parents b' = []" "pg_xact b' = pg_xact b" "same_rest b b'" "wf_err base b'" "more_xids b b'"
proof -
  have st: "state (cur b) = TRANS_INPROGRESS" using assms by (simp add: wf_backend_def)
  have err: "wf_err base d" "blockState (cur d) = blockState (cur b)" "pg_xact d = pg_xact b" "same_rest b d"
    "more_xids b d"
    if "assigned_more base b c" "cur d = (cur c)\<lparr>state := s\<rparr>" "s \<in> {TRANS_INPROGRESS, TRANS_PREPARE}"
      "parents d = parents c" "same_log c d" "same_rest c d" "same_top c d" for c d s
  proof -
    have bs: "blockState (cur c) = blockState (cur b)"
      using shape_eqD(1)[OF assigned_more_cur(1)[OF that(1)]] .
    have "wf_core base c" "state (cur c) = TRANS_INPROGRESS" using that(1) by (auto simp: assigned_more_def wf_backend_def)
    then have "wf_core base d" using that(3) by (intro wf_core_state[OF _ _ that(2) _ that(4-)]) auto
    then show "wf_err base d" using that(2,3) bs assms(2) by (auto simp: wf_err_def)
    show "blockState (cur d) = blockState (cur b)" using bs that(2) by simp
    show "pg_xact d = pg_xact b" "same_rest b d"
      using that(1,5,6) by (auto simp: assigned_more_def same_log_def intro: same_rest_trans)
    have "live_xids (stack d) = live_xids (stack c)" using that(2,4) by (simp add: stack_def live_xids_Cons)
    then show "more_xids b d" using that(1) by (auto simp: assigned_more_def assigned_ids_def more_xids_def)
  qed
  show thesis
  proof (rule wf_GetCurrentTransactionId[OF assms(1) st])
    fix m b' assume e: "GetCurrentTransactionId b = Inl (ERROR m, b')" "assigned_more base b b'"
    have "parents b' = []" using assigned_more_cur(2)[OF e(2)] assms(3) by simp
    moreover have "blockState (cur b') = blockState (cur b)"
      using shape_eqD(1)[OF assigned_more_cur(1)[OF e(2)]] .
    ultimately show thesis using e(2) assigned_more_err[OF e(2)]
      by (intro that(2)[of m b'])
         (auto simp: PrepareTransaction_def let_do_def e(1) assigned_more_def assigned_ids_def more_xids_def)
  next
    fix c assume c: "GetCurrentTransactionId b = Inr (xid_of (cur c), c)" "assigned_more base b c" "has_xid (cur c)"
    have pc: "parents c = []" using assigned_more_cur(2)[OF c(2)] assms(3) by simp
    have wc: "wf_core base c" "state (cur c) = TRANS_INPROGRESS" "\<not> IsInParallelMode c"
      using c(2) by (auto simp: assigned_more_def wf_backend_def wf_defs entry_ok_def IsInParallelMode_def)
    have unf: "PrepareTransaction b = seq [PrepareTransaction_preprepare,
        PrepareTransaction_prepare (xid_of (cur c)), PrepareTransaction_cleanup (xid_of (cur c))] c"
      by (simp add: PrepareTransaction_def let_do_def c(1))
    show thesis
    proof (rule PrepareTransaction_preprepare_cases[OF pc wc(3)])
      fix m t assume e: "PrepareTransaction_preprepare c = Inl (ERROR m, c\<lparr>trace := trace c @ t\<rparr>)"
      let ?d = "c\<lparr>trace := trace c @ t\<rparr>"
      have d: "cur ?d = (cur c)\<lparr>state := TRANS_INPROGRESS\<rparr>" "parents ?d = parents c" "same_log c ?d"
        "same_rest c ?d" "same_top c ?d" using wc(2) by (simp_all add: frame_defs)
      show thesis using err[OF c(2) d(1) _ d(2-)] pc e by (intro that(2)[of m ?d]) (simp_all add: unf)
    next
      fix t assume o1: "PrepareTransaction_preprepare c = Inr (c\<lparr>trace := trace c @ t\<rparr>)"
      let ?d = "c\<lparr>trace := trace c @ t\<rparr>"
      have d: "cur ?d = cur c" "parents ?d = parents c" "same_log c ?d"
        "same_rest c ?d" "same_top c ?d" "same_chars c ?d" by (simp_all add: frame_defs)
      show thesis
      proof (rule PrepareTransaction_prepare_cases[of "xid_of (cur c)" ?d])
        fix m b' assume e: "PrepareTransaction_prepare (xid_of (cur c)) ?d = Inl (ERROR m, b')"
          "cur b' = (cur ?d)\<lparr>state := TRANS_PREPARE\<rparr>" "parents b' = parents ?d"
          "same_log ?d b'" "same_rest ?d b'" "same_top ?d b'" "same_chars ?d b'"
        show thesis
          using err[OF c(2) e(2)[unfolded d(1)] _ _ same_log_trans[OF d(3) e(4)] same_rest_trans[OF d(4) e(5)]
            same_top_trans[OF d(5) e(6)]] e(1,3) d(2) pc o1
          by (intro that(2)[of m b']) (simp_all add: unf)
      next
        fix e assume e: "PrepareTransaction_prepare (xid_of (cur c)) ?d = Inr e"
          "cur e = (cur ?d)\<lparr>state := TRANS_PREPARE\<rparr>" "parents e = parents ?d"
          "same_log ?d e" "same_rest ?d e" "same_top ?d e" "same_chars ?d e"
        note ce = same_log_trans[OF d(3) e(4)] same_rest_trans[OF d(4) e(5)] same_top_trans[OF d(5) e(6)]
          same_chars_trans[OF d(6) e(7)]
        have "ParallelCurrentXids e = []" "parallelModeLevel (cur e) = 0"
          using wc(1) e(2) ce(2) by (simp_all add: wf_defs entry_ok_def same_rest_def)
        from PrepareTransaction_cleanup_effect[OF this, of "xid_of (cur c)"] obtain b' where
          f: "PrepareTransaction_cleanup (xid_of (cur c)) e = Inr b'" "cur b' = idle_entry (cur e)"
            "parents b' = parents e" "same_log e b'" "same_rest e b'"
            "XactTopFullTransactionId b' = InvalidFullTransactionId"
            "SecurityRestrictionContext b' = SecurityRestrictionContext e"
            "TopTransactionResourceOwner b' = None" "same_chars e b'" by blast
        note cb = same_log_trans[OF ce(1) f(4)] same_rest_trans[OF ce(2) f(5)] same_chars_trans[OF ce(4) f(9)]
        have "xids_ok base (pg_xact b') (xact_cache b') [] [] False (future_xids b')"
          using wc(1) pc cb(1) by (auto simp: wf_defs same_log_def intro: xids_ok_drop)
        then have "wf_backend base (with_block TBLOCK_DEFAULT b')"
          using wc(1) pc ce(3) e(2,3) f(3,6-8)
          by (intro wf_idleI[OF f(2) _ _ _ cb(2)]) (simp_all add: wf_defs entry_ok_def same_top_def)
        moreover have "same_rest b b'" "same_chars b b'" "pg_xact b' = pg_xact b"
          using c(2) cb by (auto simp: assigned_more_def same_log_def intro: same_rest_trans same_chars_trans)
        moreover have "chain (cur b') = chain (cur b)" "name (cur b') = name (cur b)"
            "savepointLevel (cur b') = savepointLevel (cur b)"
          using shape_eqD[OF assigned_more_cur(1)[OF c(2)]] by (simp_all add: f(2) e(2) idle_entry_def)
        ultimately show thesis
          using o1 e(1,3) f(1,3) pc by (intro that(1)[of b']) (simp_all add: unf)
      qed
    qed
  qed
qed
end
