(* ===== verification/Xact_Block_Inv.thy ===== *)
theory Xact_Block_Inv
  imports Xact_Assign
begin

section \<open>Transaction blocks keep the invariant and follow the protocol\<close>

text \<open>
  The block states of a stack, innermost first, follow fixed patterns. \<open>live_block\<close> is an
  open transaction block with its savepoints; \<open>plan_ok\<close> holds when a utility command has
  marked what \<^verbatim>\<open>CommitTransactionCommand\<close> is to do; \<open>ready_ok\<close> holds when a command may start.
\<close>

abbreviation blocks :: "backend \<Rightarrow> TBlockState list" where
  "blocks b \<equiv> map blockState (stack b)"

fun live_block :: "TBlockState list \<Rightarrow> bool" where
  "live_block [] = False"
| "live_block [t] = (t = TBLOCK_INPROGRESS)"
| "live_block (s # t # ss) = (s = TBLOCK_SUBINPROGRESS \<and> live_block (t # ss))"

fun plan_ok :: "TBlockState list \<Rightarrow> bool" where
  "plan_ok [] = False"
| "plan_ok [t] = (t \<in> {TBLOCK_STARTED, TBLOCK_BEGIN, TBLOCK_INPROGRESS, TBLOCK_IMPLICIT_INPROGRESS,
     TBLOCK_END, TBLOCK_ABORT, TBLOCK_ABORT_END, TBLOCK_ABORT_PENDING, TBLOCK_PREPARE})"
| "plan_ok (s # t # ss) =
     (s \<in> {TBLOCK_SUBBEGIN, TBLOCK_SUBINPROGRESS, TBLOCK_SUBABORT, TBLOCK_SUBRESTART,
            TBLOCK_SUBABORT_RESTART} \<and> live_block (t # ss) \<or>
      s = TBLOCK_SUBRELEASE \<and> (t = TBLOCK_SUBRELEASE \<and> plan_ok (t # ss) \<or> live_block (t # ss)) \<or>
      s = TBLOCK_SUBCOMMIT \<and>
        (t = TBLOCK_SUBCOMMIT \<or> ss = [] \<and> t \<in> {TBLOCK_END, TBLOCK_PREPARE}) \<and> plan_ok (t # ss) \<or>
      s \<in> {TBLOCK_SUBABORT_END, TBLOCK_SUBABORT_PENDING} \<and>
        (t \<in> {TBLOCK_SUBABORT_PENDING, TBLOCK_SUBRESTART} \<or> ss = [] \<and> t = TBLOCK_ABORT_PENDING) \<and>
        plan_ok (t # ss))"

definition ready_ok :: "TBlockState list \<Rightarrow> bool" where
  "ready_ok bs \<longleftrightarrow> live_block bs \<or> bs \<in> {[TBLOCK_STARTED], [TBLOCK_IMPLICIT_INPROGRESS], [TBLOCK_ABORT]} \<or>
     (\<exists>ts. bs = TBLOCK_SUBABORT # ts \<and> live_block ts)"

text \<open>
  Between commands there is no transaction, an open block, or a failed one; inside a
  multi-statement query there can also be an implicit block (\<open>im\<close>).
\<close>

definition idle_ok :: "TBlockState list \<Rightarrow> bool" where
  "idle_ok bs \<longleftrightarrow> live_block bs \<or> bs \<in> {[TBLOCK_DEFAULT], [TBLOCK_ABORT]} \<or>
     (\<exists>ts. bs = TBLOCK_SUBABORT # ts \<and> live_block ts)"

definition between_ok :: "bool \<Rightarrow> TBlockState list \<Rightarrow> bool" where
  "between_ok im bs \<longleftrightarrow> idle_ok bs \<or> im \<and> bs = [TBLOCK_IMPLICIT_INPROGRESS]"

lemmas between_defs = between_ok_def idle_ok_def

text \<open>Setting the status of a set of xids to aborted.\<close>

definition abort_xids :: "TransactionId list \<Rightarrow> clog \<Rightarrow> clog" where
  "abort_xids xs clog = (\<lambda>x. if x \<in> set xs then TRANSACTION_STATUS_ABORTED else clog x)"

lemma abort_xids_append [simp]: "abort_xids xs (abort_xids ys clog) = abort_xids (ys @ xs) clog"
  by (auto simp: abort_xids_def)

lemma abort_xids_Nil [simp]: "abort_xids [] clog = clog"
  by (simp add: abort_xids_def)

lemma abort_status_own: "entry_ok (cur b) \<Longrightarrow> abort_status b = abort_xids (own_xids (cur b)) (pg_xact b)"
  by (auto simp: abort_status_def abort_xids_def own_xids_def entry_ok_def set_tree_status_def fun_eq_iff)

lemma abort_xids_done:
  assumes "log_ok base b" "state (cur b) = TRANS_ABORT"
  shows "abort_xids (own_xids (cur b)) (pg_xact b) = pg_xact b"
  using assms by (auto simp: abort_xids_def log_ok_def xids_ok_def fun_eq_iff)

text \<open>A stack entry up to the xids it has adopted.\<close>

definition skel :: "TransactionStateData \<Rightarrow> TransactionStateData" where
  "skel s = s\<lparr>childXids := [], maxChildXids := 0\<rparr>"

lemma adopts_skel: "adopts p s p' \<Longrightarrow> skel p' = skel p"
  by (auto simp: adopts_def skel_def split: if_splits)

lemma skel_fields [simp]: "blockState (skel s) = blockState s" "name (skel s) = name s"
  "nestingLevel (skel s) = nestingLevel s" "fullTransactionId (skel s) = fullTransactionId s"
  "savepointLevel (skel s) = savepointLevel s" "chain (skel s) = chain s" "state (skel s) = state s"
  by (simp_all add: skel_def)

lemma skel_blocks: "map skel ss = map skel ts \<Longrightarrow> map blockState ss = map blockState ts"
proof -
  assume "map skel ss = map skel ts"
  then have "map blockState (map skel ss) = map blockState (map skel ts)" by (simp only:)
  then show ?thesis by (simp add: o_def)
qed

subsection \<open>Committing subtransactions\<close>

lemma commit_subs_cases:
  assumes "wf_backend base b" "trans_of bs = TRANS_INPROGRESS" "k \<le> n" "k < length (stack b)"
    "\<And>j. j \<le> k \<Longrightarrow> blockState (stack b ! j) = bs \<longleftrightarrow> j < k" "0 < k"
  obtains b' where "commit_subs bs n b = Inr b'" "wf_backend base b'"
      "map skel (stack b') = map skel (drop k (stack b))" "live_xids (stack b') = live_xids (stack b)"
      "same_log b b'" "same_rest b b'"
  | m b' j where "commit_subs bs n b = Inl (ERROR m, b')" "wf_err base b'" "j < k"
      "blocks b' = drop j (blocks b)" "same_log b b'" "same_rest b b'" "live_xids (stack b') = live_xids (stack b)"
proof -
  have "(\<exists>b'. commit_subs bs n b = Inr b' \<and> wf_backend base b' \<and>
      map skel (stack b') = map skel (drop k (stack b)) \<and> live_xids (stack b') = live_xids (stack b) \<and>
      same_log b b' \<and> same_rest b b') \<or>
    (\<exists>m b' j. commit_subs bs n b = Inl (ERROR m, b') \<and> wf_err base b' \<and> j < k \<and>
      blocks b' = drop j (blocks b) \<and> same_log b b' \<and> same_rest b b' \<and> live_xids (stack b') = live_xids (stack b))"
    using assms
  proof (induction k arbitrary: n b)
    case (Suc k)
    obtain n' where n: "n = Suc n'" using Suc.prems(3) by (cases n) auto
    obtain p ps where p: "parents b = p # ps" using Suc.prems(4) by (cases "parents b") (auto simp: stack_def)
    have cur: "blockState (cur b) = bs" using Suc.prems(5)[of 0] by (simp add: stack_def)
    have live: "trans_of (blockState (cur b)) = TRANS_INPROGRESS" using cur Suc.prems(2) by simp
    show ?case
    proof (rule wf_commit_sub[OF Suc.prems(1) live p])
      fix m b' assume e: "CommitSubTransaction b = Inl (ERROR m, b')"
        "cur b' = (cur b)\<lparr>state := TRANS_COMMIT\<rparr>" "parents b' = parents b" "same_log b b'" "same_rest b b'"
        "wf_err base b'"
      then have "commit_subs bs n b = Inl (ERROR m, b')" "blocks b' = drop 0 (blocks b)"
        "live_xids (stack b') = live_xids (stack b)"
        by (simp_all add: n stack_def live_xids_Cons)
      then show ?case using e(4-6) by blast
    next
      fix c assume e: "CommitSubTransaction b = Inr c" "adopts p (cur b) (cur c)" "parents c = ps"
        "same_log b c" "same_rest b c" "wf_backend base c" "own_xids (cur c) = own_xids p @ own_xids (cur b)"
      have sk: "map skel (stack c) = map skel (drop 1 (stack b))"
        using adopts_skel[OF e(2)] by (simp add: stack_def e(3) p)
      have lx: "live_xids (stack c) = live_xids (stack b)"
        by (simp add: stack_def e(3,7) p live_xids_Cons)
      have bl: "blocks c = drop 1 (blocks b)" using skel_blocks[OF sk] by (simp add: drop_map)
      have nth: "blockState (stack c ! j) = blockState (stack b ! Suc j)" if "Suc j < length (stack b)" for j
        using arg_cong[OF bl, of "\<lambda>l. l ! j"] that map_eq_imp_length_eq[OF sk] by simp
      show ?case
      proof (cases "k = 0")
        case True
        then have "blockState (cur c) \<noteq> bs"
          using nth[of 0] Suc.prems(4) Suc.prems(5)[of 1] by (simp add: stack_def)
        then have "commit_subs bs n b = Inr c" by (simp add: n e(1) when_do_def)
        then show ?thesis using e(4-6) sk lx True by auto
      next
        case False
        then have "blockState (cur c) = bs"
          using nth[of 0] Suc.prems(4) Suc.prems(5)[of 1] by (simp add: stack_def p)
        then have step: "commit_subs bs n b = commit_subs bs n' c"
          by (simp add: n e(1) when_do_def split: sum.split)
        have "length (stack c) = length (stack b) - 1" using map_eq_imp_length_eq[OF sk] by simp
        then consider (ok) b' where "commit_subs bs n' c = Inr b'" "wf_backend base b'"
            "map skel (stack b') = map skel (drop k (stack c))" "live_xids (stack b') = live_xids (stack c)"
            "same_log c b'" "same_rest c b'"
          | (err) m b' j where "commit_subs bs n' c = Inl (ERROR m, b')" "wf_err base b'" "j < k"
            "blocks b' = drop j (blocks c)" "same_log c b'" "same_rest c b'" "live_xids (stack b') = live_xids (stack c)"
          using Suc.IH[OF e(6) Suc.prems(2), of n'] Suc.prems False n nth by force
        then show ?thesis
        proof cases
          case ok
          have "map skel (drop k (stack c)) = map skel (drop (Suc k) (stack b))"
            using arg_cong[OF sk, of "drop k"] by (simp add: drop_map)
          then show ?thesis
            using ok same_log_trans[OF e(4) ok(5)] same_rest_trans[OF e(5) ok(6)] lx step by auto
        next
          case err
          then have "blocks b' = drop (Suc j) (blocks b)" using bl by simp
          then show ?thesis
            using err same_log_trans[OF e(4) err(5)] same_rest_trans[OF e(5) err(6)] step lx
            by (intro disjI2 exI[of _ m] exI[of _ b'] exI[of _ "Suc j"]) simp
        qed
      qed
    qed
  qed simp
  then show thesis using that by blast
qed

subsection \<open>Ending a block\<close>

text \<open>The state after the end of a top-level transaction, and after \<^verbatim>\<open>AND CHAIN\<close>.\<close>

definition ended :: "TransactionId \<Rightarrow> backend \<Rightarrow> bool \<Rightarrow> backend \<Rightarrow> bool" where
  "ended base b ch b' \<longleftrightarrow> wf_backend base b' \<and> live_xids (stack b') = [] \<and> env b' = env b \<and>
     xid_source b' = xid_source b \<and> blocks b' = [if ch then TBLOCK_INPROGRESS else TBLOCK_DEFAULT] \<and>
     (ch \<longrightarrow> \<not> chain (cur b') \<and> XactIsoLevel b' = save_XactIsoLevel b \<and> XactReadOnly b' = save_XactReadOnly b \<and>
            XactDeferrable b' = save_XactDeferrable b)"

lemma wf_default_xids: "wf_backend base b \<Longrightarrow> blocks b = [TBLOCK_DEFAULT] \<Longrightarrow> live_xids (stack b) = []"
  by (auto simp: wf_backend_def wf_defs entry_ok_def own_xids_none)

lemma wf_same_stack:
  assumes "wf_backend base b" "cur b' = cur b" "parents b' = parents b" "same_log b b'" "env b' = env b"
    "ParallelCurrentXids b' = ParallelCurrentXids b" "same_top b b'"
  shows "wf_backend base b'"
proof -
  have "wf_core base b" using assms(1) by (simp add: wf_backend_def)
  then have "wf_core base b'" using assms(2-) by (simp add: wf_defs same_log_def same_top_def)
  then show ?thesis using assms(1,2) by (simp add: wf_backend_def)
qed

lemma wf_same_cur:
  assumes "wf_backend base b" "cur b' = (cur b)\<lparr>name := x, chain := y, savepointLevel := z\<rparr>"
    "parents b' = parents b" "same_log b b'" "env b' = env b"
    "ParallelCurrentXids b' = ParallelCurrentXids b" "same_top b b'" "parents b = [] \<Longrightarrow> x = None"
  shows "wf_backend base b'"
proof -
  have "wf_core base b" using assms(1) by (simp add: wf_backend_def)
  then have "wf_core base b'"
    using assms(2-) by (cases "parents b") (simp_all add: wf_defs same_log_def same_top_def entry_ok_def)
  then show ?thesis using assms(1,2) by (simp add: wf_backend_def)
qed

lemma restart_chain_effect:
  assumes "wf_backend base (with_block TBLOCK_DEFAULT b)" "parents b = []"
  obtains b' where "restart_chain (with_block TBLOCK_DEFAULT b) = Inr b'" "ended base b (chain (cur b)) b'"
    "pg_xact b' = pg_xact b"
proof (cases "chain (cur b)")
  case False
  then show thesis
    using that[of "with_block TBLOCK_DEFAULT b"] assms wf_default_xids[OF assms(1)]
    by (simp add: restart_chain_def when_do_def ended_def stack_def)
next
  case True
  let ?d = "with_block TBLOCK_DEFAULT b"
  have d: "blockState (cur ?d) = TBLOCK_DEFAULT" by simp
  show thesis
  proof (rule wf_start[OF assms(1) d, of TBLOCK_INPROGRESS])
    fix c assume c: "StartTransaction ?d = Inr c" "cur c = started_entry ?d" "parents c = []"
      "same_log ?d c" "same_rest ?d c" "wf_backend base (with_block TBLOCK_INPROGRESS c)"
    let ?e = "RestoreTransactionCharacteristics (c\<lparr>cur := (cur c)\<lparr>blockState := TBLOCK_INPROGRESS, chain := False\<rparr>\<rparr>)"
    have "restart_chain ?d = Inr ?e"
      using True c(1) by (simp add: restart_chain_def stmt_simps)
    moreover have "wf_backend base ?e"
      by (rule wf_same_cur[OF c(6), where x = "name (cur c)" and y = False and z = "savepointLevel (cur c)"])
         (use c(6) in \<open>simp_all add: RestoreTransactionCharacteristics_def frame_defs wf_backend_def wf_defs\<close>)
    ultimately show thesis using c True
      by (intro that[of ?e])
         (simp_all add: ended_def RestoreTransactionCharacteristics_def stack_def frame_defs
           live_xids_Cons started_entry_def own_xids_def)
  qed simp_all
qed

lemma commit_top_cases:
  assumes "wf_backend base b" "trans_of (blockState (cur b)) = TRANS_INPROGRESS" "parents b = []"
  obtains b' where "seq [CommitTransaction, set_blockState TBLOCK_DEFAULT, restart_chain] b = Inr b'"
      "ended base b (chain (cur b)) b'" "pg_xact b' = commit_status b"
  | m b' where "seq [CommitTransaction, set_blockState TBLOCK_DEFAULT, restart_chain] b = Inl (ERROR m, b')"
      "wf_err base b'" "blocks b' = blocks b" "same_log b b'" "env b' = env b" "live_xids (stack b') = live_xids (stack b)"
proof (rule wf_commit[OF assms])
  fix m b' assume e: "CommitTransaction b = Inl (ERROR m, b')" "blockState (cur b') = blockState (cur b)"
      "parents b' = []" "same_log b b'" "same_rest b b'" "same_chars b b'" "wf_err base b'"
      "own_xids (cur b') = own_xids (cur b)"
  then show thesis using assms(3)
    by (intro that(2)[of m b']) (simp_all add: stack_def same_rest_def live_xids_Cons)
next
  fix c assume c: "CommitTransaction b = Inr c" "cur c = idle_entry (cur b)" "parents c = []"
      "pg_xact c = commit_status b" "same_log b (c\<lparr>pg_xact := pg_xact b\<rparr>)" "same_rest b c"
      "same_chars b c" "wf_backend base (with_block TBLOCK_DEFAULT c)"
  show thesis
  proof (rule restart_chain_effect[OF c(8,3)])
    fix b' assume e: "restart_chain (with_block TBLOCK_DEFAULT c) = Inr b'" "ended base c (chain (cur c)) b'"
      "pg_xact b' = pg_xact c"
    have "ended base b (chain (cur b)) b'"
      using e(2) c(2,5,6) by (simp add: ended_def same_rest_def same_log_def idle_entry_def)
    then show thesis using c(1,4) e(1,3)
      by (intro that(1)[of b']) (simp_all add: set_blockState_def)
  qed
qed

lemma abort_top_effect:
  assumes "wf_err base b" "trans_of (blockState (cur b)) = TRANS_INPROGRESS" "parents b = []"
  obtains b' where "seq [AbortTransaction, CleanupTransaction, set_blockState TBLOCK_DEFAULT, restart_chain] b = Inr b'"
      "ended base b (chain (cur b)) b'" "pg_xact b' = abort_status b"
proof (rule wf_abort_cleanup[OF assms])
  fix b1 c assume c: "AbortTransaction b = Inr b1" "CleanupTransaction b1 = Inr c"
    "cur c = idle_entry (cur b)" "parents c = []" "pg_xact c = abort_status b"
    "same_log b (c\<lparr>pg_xact := pg_xact b\<rparr>)" "same_rest b c" "same_chars b c"
    "wf_backend base (with_block TBLOCK_DEFAULT c)"
  show thesis
  proof (rule restart_chain_effect[OF c(9,4)])
    fix b' assume e: "restart_chain (with_block TBLOCK_DEFAULT c) = Inr b'" "ended base c (chain (cur c)) b'"
      "pg_xact b' = pg_xact c"
    have "ended base b (chain (cur b)) b'"
      using e(2) c(3,6,7) by (simp add: ended_def same_rest_def same_log_def idle_entry_def)
    then show thesis using c(1,2,5) e(1,3)
      by (intro that[of b']) (simp_all add: set_blockState_def)
  qed
qed

lemma cleanup_top_effect:
  assumes "wf_backend base b" "trans_of (blockState (cur b)) = TRANS_ABORT" "parents b = []"
  obtains b' where "seq [CleanupTransaction, set_blockState TBLOCK_DEFAULT, restart_chain] b = Inr b'"
      "ended base b (chain (cur b)) b'" "pg_xact b' = pg_xact b"
proof -
  have w: "wf_core base b" "state (cur b) = TRANS_ABORT" using assms by (simp_all add: wf_backend_def)
  show thesis
  proof (rule wf_cleanup[OF w(1) assms(3) w(2)])
    fix c assume c: "CleanupTransaction b = Inr c" "cur c = idle_entry (cur b)" "parents c = []"
      "same_log b c" "same_rest b c" "same_chars b c" "wf_backend base (with_block TBLOCK_DEFAULT c)"
    show thesis
    proof (rule restart_chain_effect[OF c(7,3)])
      fix b' assume e: "restart_chain (with_block TBLOCK_DEFAULT c) = Inr b'" "ended base c (chain (cur c)) b'"
        "pg_xact b' = pg_xact c"
      have "ended base b (chain (cur b)) b'"
        using e(2) c(2,4,5) by (simp add: ended_def same_rest_def same_log_def idle_entry_def)
      then show thesis using c(1,4) e(1,3)
        by (intro that[of b']) (simp_all add: set_blockState_def same_log_def)
    qed
  qed
qed

lemma prepare_top_cases:
  assumes "wf_backend base b" "trans_of (blockState (cur b)) = TRANS_INPROGRESS" "parents b = []"
  obtains b' where "seq [PrepareTransaction, set_blockState TBLOCK_DEFAULT] b = Inr b'"
      "wf_backend base b'" "blocks b' = [TBLOCK_DEFAULT]" "pg_xact b' = pg_xact b" "env b' = env b"
  | m b' where "seq [PrepareTransaction, set_blockState TBLOCK_DEFAULT] b = Inl (ERROR m, b')"
      "wf_err base b'" "blocks b' = blocks b" "pg_xact b' = pg_xact b" "env b' = env b" "more_xids b b'"
proof (rule wf_prepare[OF assms])
  fix m b' assume "PrepareTransaction b = Inl (ERROR m, b')" "blockState (cur b') = blockState (cur b)"
      "parents b' = []" "pg_xact b' = pg_xact b" "same_rest b b'" "wf_err base b'" "more_xids b b'"
  then show thesis using assms(3) by (intro that(2)[of m b']) (simp_all add: stack_def same_rest_def)
next
  fix c assume "PrepareTransaction b = Inr c" "parents c = []" "pg_xact c = pg_xact b"
      "same_rest b c" "same_chars b c" "wf_backend base (with_block TBLOCK_DEFAULT c)"
  then show thesis
    by (intro that(1)[of "with_block TBLOCK_DEFAULT c"]) (simp_all add: set_blockState_def stack_def same_rest_def)
qed

subsection \<open>Savepoints\<close>

lemma wf_not_parallel: "wf_core base b \<Longrightarrow> \<not> IsInParallelMode b"
  by (simp add: wf_defs entry_ok_def IsInParallelMode_def)

lemma subbegin_xids: "wf_backend base b \<Longrightarrow> blockState (cur b) = TBLOCK_SUBBEGIN \<Longrightarrow> own_xids (cur b) = []"
  by (auto simp: wf_backend_def wf_defs entry_ok_def own_xids_none)

lemma upd_name_id: "name (cur b) = x \<Longrightarrow> b\<lparr>cur := (cur b)\<lparr>name := x\<rparr>\<rparr> = b"
  by (cases b; cases "cur b") simp

lemma DefineSavepoint_cases:
  assumes "wf_backend base b" "blockState (cur b) \<in> {TBLOCK_INPROGRESS, TBLOCK_SUBINPROGRESS}"
  obtains b' where "DefineSavepoint sp b = Inr b'" "parents b' = cur b # parents b"
      "blockState (cur b') = TBLOCK_SUBBEGIN" "name (cur b') = sp"
      "nestingLevel (cur b') = Suc (nestingLevel (cur b))" "savepointLevel (cur b') = savepointLevel (cur b)"
      "chain (cur b') = False" "own_xids (cur b') = []"
      "same_log b b'" "same_rest b b'" "same_chars b b'" "wf_backend base b'"
  | m where "DefineSavepoint sp b = Inl (ERROR m, b)"
proof -
  have np: "\<not> IsInParallelMode b" using assms(1) wf_not_parallel[of base b] by (simp add: wf_backend_def)
  have live: "trans_of (blockState (cur b)) = TRANS_INPROGRESS" using assms(2) by auto
  have unf: "DefineSavepoint sp b = seq [PushTransaction, when_do (\<lambda>b. sp \<noteq> None) (upd (set_cur (\<lambda>s. s\<lparr>name := sp\<rparr>)))] b"
    using assms(2) np by (auto simp: DefineSavepoint_def when_do_def with_state_def split: sum.split)
  show thesis
  proof (rule wf_push[OF assms(1) live])
    fix m assume "PushTransaction b = Inl (ERROR m, b)"
    then show thesis by (intro that(2)[of m]) (simp add: unf)
  next
    fix c assume c: "PushTransaction b = Inr c" "parents c = cur b # parents b"
      "blockState (cur c) = TBLOCK_SUBBEGIN" "name (cur c) = None" "nestingLevel (cur c) = Suc (nestingLevel (cur b))"
      "savepointLevel (cur c) = savepointLevel (cur b)" "chain (cur c) = False"
      "same_log b c" "same_rest b c" "same_chars b c" "wf_backend base c"
    let ?d = "c\<lparr>cur := (cur c)\<lparr>name := sp\<rparr>\<rparr>"
    have d: "DefineSavepoint sp b = Inr ?d"
      unfolding unf using c(1,4) by (cases sp) (simp_all add: when_do_def upd_def set_cur_def upd_name_id)
    have "wf_backend base ?d"
      by (rule wf_same_cur[OF c(11), where x = sp and y = "chain (cur c)" and z = "savepointLevel (cur c)"])
         (simp_all add: frame_defs c(2))
    then show thesis using c subbegin_xids[OF c(11,3)]
      by (intro that(1)[OF d]) (simp_all add: frame_defs)
  qed
qed

lemma redefine_savepoint_cases:
  assumes "wf_backend base b" "blockState (cur b) \<in> {TBLOCK_INPROGRESS, TBLOCK_SUBINPROGRESS}"
  obtains b' where "redefine_savepoint sp lvl b = Inr b'" "parents b' = cur b # parents b"
      "blockState (cur b') = TBLOCK_SUBINPROGRESS" "name (cur b') = sp" "savepointLevel (cur b') = lvl"
      "nestingLevel (cur b') = Suc (nestingLevel (cur b))" "own_xids (cur b') = []"
      "same_log b b'" "same_rest b b'" "same_chars b b'" "wf_backend base b'"
  | m where "redefine_savepoint sp lvl b = Inl (ERROR m, b)"
proof (rule DefineSavepoint_cases[OF assms, of None])
  fix m assume "DefineSavepoint None b = Inl (ERROR m, b)"
  then show thesis by (intro that(2)[of m]) (simp add: redefine_savepoint_def)
next
  fix c assume c: "DefineSavepoint None b = Inr c" "parents c = cur b # parents b"
      "blockState (cur c) = TBLOCK_SUBBEGIN" "name (cur c) = None"
      "nestingLevel (cur c) = Suc (nestingLevel (cur b))" "savepointLevel (cur c) = savepointLevel (cur b)"
      "chain (cur c) = False" "own_xids (cur c) = []"
      "same_log b c" "same_rest b c" "same_chars b c" "wf_backend base c"
  let ?d = "c\<lparr>cur := (cur c)\<lparr>name := sp, savepointLevel := lvl\<rparr>\<rparr>"
  have d: "wf_backend base ?d"
    by (rule wf_same_cur[OF c(12), where x = sp and y = "chain (cur c)" and z = lvl])
       (simp_all add: frame_defs c(2))
  have f: "same_log b ?d" "same_rest b ?d" "same_chars b ?d" using c(9-11) by (simp_all add: frame_defs)
  show thesis
  proof (rule wf_start_sub[OF d])
    show "blockState (cur ?d) = TBLOCK_SUBBEGIN" using c(3) by simp
  next
    fix e assume e: "StartSubTransaction ?d = Inr e"
      "cur e = (cur ?d)\<lparr>curTransactionOwner := Some (owner_seq ?d), state := TRANS_INPROGRESS\<rparr>"
      "parents e = parents ?d" "same_log ?d e" "same_rest ?d e" "same_chars ?d e"
      "wf_backend base (with_block TBLOCK_SUBINPROGRESS e)"
    have "redefine_savepoint sp lvl b = Inr (with_block TBLOCK_SUBINPROGRESS e)"
      using c(1,3) e(1) by (simp add: redefine_savepoint_def stmt_simps)
    then show thesis
      using c(2,5,8) e(2,3,7) same_log_trans[OF f(1) e(4)] same_rest_trans[OF f(2) e(5)] same_chars_trans[OF f(3) e(6)]
      by (intro that(1)[of "with_block TBLOCK_SUBINPROGRESS e"]) (simp_all add: frame_defs)
  qed
qed

subsection \<open>CommitTransactionCommand\<close>

definition cmd_ok :: "TransactionId \<Rightarrow> bool \<Rightarrow> backend \<Rightarrow> backend res \<Rightarrow> bool" where
  "cmd_ok base im b r \<longleftrightarrow>
     (\<exists>b'. r = Inr b' \<and> wf_backend base b' \<and> between_ok im (blocks b') \<and> env b' = env b) \<or>
     (\<exists>m b'. r = Inl (ERROR m, b') \<and> wf_err base b' \<and> plan_ok (blocks b') \<and> env b' = env b)"

lemma cmd_ok_env: "cmd_ok base im c r \<Longrightarrow> env c = env b \<Longrightarrow> cmd_ok base im b r"
  by (simp add: cmd_ok_def)

lemma cmd_ok_Inr: "wf_backend base b' \<Longrightarrow> between_ok im (blocks b') \<Longrightarrow> env b' = env b \<Longrightarrow> cmd_ok base im b (Inr b')"
  by (simp add: cmd_ok_def)

lemma cmd_ok_ERROR: "wf_err base b' \<Longrightarrow> plan_ok (blocks b') \<Longrightarrow> env b' = env b \<Longrightarrow> cmd_ok base im b (Inl (ERROR m, b'))"
  by (simp add: cmd_ok_def)

lemma ended_ok: "ended base b ch b' \<Longrightarrow> cmd_ok base im b (Inr b')"
  by (rule cmd_ok_Inr) (auto simp: ended_def between_defs)

lemma live_plan: "live_block bs \<Longrightarrow> plan_ok bs"
  by (induction bs rule: live_block.induct) auto

lemma live_between: "live_block bs \<Longrightarrow> between_ok im bs"
  by (simp add: between_defs)

lemma live_cur: "live_block (blocks b) \<Longrightarrow> blockState (cur b) \<in> {TBLOCK_INPROGRESS, TBLOCK_SUBINPROGRESS}"
  by (cases "parents b") (auto simp: stack_def)

lemma counter_ok:
  assumes "wf_backend base b" "plan_ok (blocks b)" "between_ok im (blocks b)"
  shows "cmd_ok base im b (CommandCounterIncrement b)"
proof -
  have "\<not> IsParallelWorker (env b)" using assms(1) by (simp add: wf_backend_def wf_defs)
  then show ?thesis
  proof (rule CommandCounterIncrement_cases)
    fix b' assume e: "CommandCounterIncrement b = Inr b'" "cur b' = cur b" "parents b' = parents b"
      "same_log b b'" "same_rest b b'" "same_top b b'" "same_chars b b'"
    have "wf_backend base b'" using assms(1) e by (auto intro: wf_same_stack simp: same_rest_def)
    then show ?thesis unfolding e(1)
      using assms(3) e(2,3,5) by (intro cmd_ok_Inr) (simp_all add: stack_def same_rest_def)
  next
    fix m assume "CommandCounterIncrement b = Inl (ERROR m, b)"
    then show ?thesis using assms by (simp add: cmd_ok_ERROR wf_backend_err)
  qed
qed

lemma redefine_ok:
  assumes "wf_backend base b" "live_block (blocks b)"
  shows "cmd_ok base im b (redefine_savepoint sp lvl b)"
proof (rule redefine_savepoint_cases[OF assms(1) live_cur[OF assms(2)], of sp lvl])
  fix b' assume e: "redefine_savepoint sp lvl b = Inr b'" "parents b' = cur b # parents b"
      "blockState (cur b') = TBLOCK_SUBINPROGRESS" "same_rest b b'" "wf_backend base b'"
  then show ?thesis unfolding e(1)
    using assms(2) by (intro cmd_ok_Inr live_between) (simp_all add: stack_def same_rest_def)
next
  fix m assume "redefine_savepoint sp lvl b = Inl (ERROR m, b)"
  then show ?thesis using assms by (simp add: cmd_ok_ERROR wf_backend_err live_plan)
qed

lemma wf_save: "wf_backend base (SaveTransactionCharacteristics b) = wf_backend base b"
  by (simp add: SaveTransactionCharacteristics_def wf_backend_def wf_defs)

text \<open>The top-level cases of the switch.\<close>

lemma commit_switch_top:
  assumes "wf_backend base b" "plan_ok (blocks b)" "parents b = []"
    "blocks b = [TBLOCK_IMPLICIT_INPROGRESS] \<Longrightarrow> im"
  shows "cmd_ok base im b (commit_switch n again b)"
proof -
  have bl: "blocks b = [blockState (cur b)]" using assms(3) by (simp add: stack_def)
  show ?thesis
  proof (cases "trans_of (blockState (cur b)) = TRANS_INPROGRESS")
    case live: True
    consider (started) "blockState (cur b) = TBLOCK_STARTED" | (bgn) "blockState (cur b) = TBLOCK_BEGIN"
      | (in_prog) "blockState (cur b) \<in> {TBLOCK_INPROGRESS, TBLOCK_IMPLICIT_INPROGRESS}"
      | (fin) "blockState (cur b) = TBLOCK_END" | (pending) "blockState (cur b) = TBLOCK_ABORT_PENDING"
      | (prepare) "blockState (cur b) = TBLOCK_PREPARE"
      using assms(2) live bl by auto
    then show ?thesis
    proof cases
      case started
      show ?thesis
      proof (rule wf_commit[OF assms(1) live assms(3)])
        fix b' assume e: "CommitTransaction b = Inr b'" "parents b' = []" "same_rest b b'"
          "wf_backend base (with_block TBLOCK_DEFAULT b')"
        then show ?thesis using started
          by (auto simp: commit_switch_def with_state_def set_blockState_def stack_def same_rest_def between_defs
              intro!: cmd_ok_Inr)
      next
        fix m b' assume e: "CommitTransaction b = Inl (ERROR m, b')" "blockState (cur b') = blockState (cur b)"
          "parents b' = []" "same_rest b b'" "wf_err base b'"
        then show ?thesis using started
          by (auto simp: commit_switch_def with_state_def stack_def same_rest_def intro!: cmd_ok_ERROR)
      qed
    next
      case bgn
      have "wf_backend base (with_block TBLOCK_INPROGRESS b)"
        using assms(1) bgn by (auto simp: wf_backend_def intro!: wf_core_blockState)
      then show ?thesis using bgn assms(3)
        by (auto simp: commit_switch_def with_state_def set_blockState_def stack_def between_defs intro!: cmd_ok_Inr)
    next
      case in_prog
      then have "commit_switch n again b = CommandCounterIncrement b"
        by (auto simp: commit_switch_def with_state_def)
      moreover have "between_ok im (blocks b)" using in_prog bl assms(4) by (auto simp: between_defs)
      ultimately show ?thesis using counter_ok assms(1,2) by simp
    next
      case fin
      then have u: "commit_switch n again b = seq [CommitTransaction, set_blockState TBLOCK_DEFAULT, restart_chain] b"
        by (simp add: commit_switch_def with_state_def)
      show ?thesis unfolding u
        by (rule commit_top_cases[OF assms(1) live assms(3)]) (use assms(2) in \<open>simp_all only: ended_ok cmd_ok_ERROR\<close>)
    next
      case pending
      then have u: "commit_switch n again b =
          seq [AbortTransaction, CleanupTransaction, set_blockState TBLOCK_DEFAULT, restart_chain] b"
        by (simp add: commit_switch_def with_state_def)
      show ?thesis unfolding u
        by (rule abort_top_effect[OF wf_backend_err[OF assms(1)] live assms(3)]) (simp only: ended_ok)
    next
      case prepare
      then have u: "commit_switch n again b = seq [PrepareTransaction, set_blockState TBLOCK_DEFAULT] b"
        by (simp add: commit_switch_def with_state_def)
      show ?thesis unfolding u
        by (rule prepare_top_cases[OF assms(1) live assms(3)])
           (use assms(2) in \<open>simp_all only: cmd_ok_Inr cmd_ok_ERROR\<close>, simp add: cmd_ok_Inr between_defs)
    qed
  next
    case False
    then consider (abort) "blockState (cur b) = TBLOCK_ABORT" | (fin) "blockState (cur b) = TBLOCK_ABORT_END"
      using assms(2) bl by auto
    then show ?thesis
    proof cases
      case abort
      then show ?thesis using assms(1) bl
        by (auto simp: commit_switch_def with_state_def between_defs intro!: cmd_ok_Inr)
    next
      case fin
      then have u: "commit_switch n again b = seq [CleanupTransaction, set_blockState TBLOCK_DEFAULT, restart_chain] b"
        and ab: "trans_of (blockState (cur b)) = TRANS_ABORT"
        by (simp_all add: commit_switch_def with_state_def)
      show ?thesis unfolding u
        by (rule cleanup_top_effect[OF assms(1) ab assms(3)]) (simp only: ended_ok)
    qed
  qed
qed

text \<open>Committing the marked subtransactions, and then the rest.\<close>

lemma plan_prefix:
  assumes "plan_ok (bs # ts)" "bs \<in> {TBLOCK_SUBRELEASE, TBLOCK_SUBCOMMIT}"
  obtains k where "0 < k" "k < length (bs # ts)" "\<And>j. j \<le> k \<Longrightarrow> (bs # ts) ! j = bs \<longleftrightarrow> j < k"
    "bs = TBLOCK_SUBRELEASE \<Longrightarrow> live_block (drop k (bs # ts))"
    "bs = TBLOCK_SUBCOMMIT \<Longrightarrow> drop k (bs # ts) \<in> {[TBLOCK_END], [TBLOCK_PREPARE]}"
    "\<And>j. j \<le> k \<Longrightarrow> plan_ok (drop j (bs # ts))"
proof -
  have "\<exists>k. 0 < k \<and> k < length (bs # ts) \<and> (\<forall>j \<le> k. (bs # ts) ! j = bs \<longleftrightarrow> j < k) \<and>
     (bs = TBLOCK_SUBRELEASE \<longrightarrow> live_block (drop k (bs # ts))) \<and>
     (bs = TBLOCK_SUBCOMMIT \<longrightarrow> drop k (bs # ts) \<in> {[TBLOCK_END], [TBLOCK_PREPARE]}) \<and>
     (\<forall>j \<le> k. plan_ok (drop j (bs # ts)))"
    using assms
  proof (induction ts)
    case (Cons t ts)
    show ?case
    proof (cases "t = bs")
      case True
      then have "plan_ok (bs # ts)" using Cons.prems by (auto simp: live_plan)
      from Cons.IH[OF this Cons.prems(2)] obtain k where
        k: "0 < k" "k < length (bs # ts)" "\<forall>j \<le> k. (bs # ts) ! j = bs \<longleftrightarrow> j < k"
         "bs = TBLOCK_SUBRELEASE \<longrightarrow> live_block (drop k (bs # ts))"
         "bs = TBLOCK_SUBCOMMIT \<longrightarrow> drop k (bs # ts) \<in> {[TBLOCK_END], [TBLOCK_PREPARE]}"
         "\<forall>j \<le> k. plan_ok (drop j (bs # ts))" by blast
      have "(bs # t # ts) ! j = bs \<longleftrightarrow> j < Suc k" "plan_ok (drop j (bs # t # ts))" if "j \<le> Suc k" for j
        using k(3,6) True Cons.prems(1) that by (cases j; simp)+
      then show ?thesis using k True by (intro exI[of _ "Suc k"]) simp
    next
      case False
      have "live_block (t # ts) \<or> ts = [] \<and> t \<in> {TBLOCK_END, TBLOCK_PREPARE}"
        and "bs = TBLOCK_SUBRELEASE \<longleftrightarrow> live_block (t # ts)"
        using Cons.prems False by auto
      moreover have "(bs # t # ts) ! j = bs \<longleftrightarrow> j < 1" "plan_ok (drop j (bs # t # ts))" if "j \<le> 1" for j
        using that False Cons.prems calculation(1) by (cases j; auto simp: live_plan)+
      ultimately show ?thesis using Cons.prems(2) by (intro exI[of _ 1]) auto
    qed
  qed auto
  then show thesis using that by blast
qed

lemma blocks_stack: "blocks b = blockState (cur b) # map blockState (parents b)"
  by (simp add: stack_def)

lemma commit_marked_ok:
  assumes "wf_backend base b" "plan_ok (blocks b)" "length (parents b) \<le> n"
    "blockState (cur b) \<in> {TBLOCK_SUBRELEASE, TBLOCK_SUBCOMMIT}"
  shows "cmd_ok base im b (commit_switch n again b)"
proof (rule plan_prefix[OF assms(2)[unfolded blocks_stack] assms(4)], fold blocks_stack)
  let ?bs = "blockState (cur b)"
  fix k assume k: "0 < k" "k < length (blocks b)" "\<And>j. j \<le> k \<Longrightarrow> blocks b ! j = ?bs \<longleftrightarrow> j < k"
    "?bs = TBLOCK_SUBRELEASE \<Longrightarrow> live_block (drop k (blocks b))"
    "?bs = TBLOCK_SUBCOMMIT \<Longrightarrow> drop k (blocks b) \<in> {[TBLOCK_END], [TBLOCK_PREPARE]}"
    "\<And>j. j \<le> k \<Longrightarrow> plan_ok (drop j (blocks b))"
  have len: "k < length (stack b)" "length (stack b) = Suc (length (parents b))"
    using k(2) by (simp_all add: stack_def)
  have pre: "trans_of ?bs = TRANS_INPROGRESS" "k \<le> n" using assms(3,4) len by auto
  have eqs: "blockState (stack b ! j) = ?bs \<longleftrightarrow> j < k" if "j \<le> k" for j
    using k(3)[OF that] len that by simp
  show ?thesis
  proof (rule commit_subs_cases[OF assms(1) pre len(1) eqs k(1)])
    fix m b' j assume e: "commit_subs ?bs n b = Inl (ERROR m, b')" "wf_err base b'" "j < k"
      "blocks b' = drop j (blocks b)" "same_log b b'" "same_rest b b'"
    have "commit_switch n again b = Inl (ERROR m, b')"
      using assms(4) e(1) by (auto simp: commit_switch_def with_state_def)
    then show ?thesis using k(6)[of j] e by (simp add: cmd_ok_ERROR same_rest_def)
  next
    fix c assume c: "commit_subs ?bs n b = Inr c" "wf_backend base c"
      "map skel (stack c) = map skel (drop k (stack b))" "live_xids (stack c) = live_xids (stack b)"
      "same_log b c" "same_rest b c"
    have bl: "blocks c = drop k (blocks b)" using skel_blocks[OF c(3)] by (simp add: drop_map)
    have env: "env c = env b" using c(6) by (simp add: same_rest_def)
    consider (rel) "?bs = TBLOCK_SUBRELEASE" | (com) "?bs = TBLOCK_SUBCOMMIT" using assms(4) by blast
    then show ?thesis
    proof cases
      case rel
      have l: "live_block (blocks c)" using k(4)[OF rel] bl by simp
      have "commit_switch n again b = Inr c"
        using rel c(1) live_cur[OF l] by (auto simp: commit_switch_def with_state_def assert_that_def)
      then show ?thesis using l c(2) env by (simp add: cmd_ok_Inr live_between)
    next
      case com
      have top: "parents c = []" "blockState (cur c) \<in> {TBLOCK_END, TBLOCK_PREPARE}"
        using k(5)[OF com] bl by (auto simp: stack_def)
      have "commit_switch n again b = commit_switch n again c"
        using com c(1) top
        by (auto simp: commit_switch_def with_state_def assert_that_def split: sum.split)
      moreover have "plan_ok (blocks c)" using k(6)[of k] bl by simp
      ultimately show ?thesis
        using cmd_ok_env[OF commit_switch_top[OF c(2) _ top(1)] env] k(5)[OF com] bl by auto
    qed
  qed
qed

lemma restart_sub_ok:
  assumes "wf_backend base b" "plan_ok (blocks b)"
    "blockState (cur b) \<in> {TBLOCK_SUBRESTART, TBLOCK_SUBABORT_RESTART}"
  shows "cmd_ok base im b (commit_switch n again b)"
proof -
  obtain p ps where p: "parents b = p # ps"
    using assms by (cases "parents b") (auto simp: stack_def)
  have l: "live_block (map blockState (p # ps))" using assms p by (auto simp: stack_def)
  let ?b = "b\<lparr>cur := (cur b)\<lparr>name := None\<rparr>\<rparr>"
  have w: "wf_backend base ?b"
    by (rule wf_same_cur[OF assms(1), where x = None and y = "chain (cur b)" and z = "savepointLevel (cur b)"])
       (simp_all add: frame_defs)
  have redo: "cmd_ok base im b (redefine_savepoint sp lvl c)"
    if "wf_backend base c" "cur c = p" "parents c = ps" "same_rest ?b c" for c sp lvl
    using redefine_ok[OF that(1), of im sp lvl] l that(2-4) by (auto simp: stack_def same_rest_def intro: cmd_ok_env)
  show ?thesis
  proof (cases "blockState (cur b) = TBLOCK_SUBRESTART")
    case True
    have "wf_core base ?b" "state (cur ?b) \<noteq> TRANS_ABORT" "parents ?b = p # ps"
      using w True p by (simp_all add: wf_backend_def)
    then show ?thesis
    proof (rule wf_abort_cleanup_sub)
      fix b1 c assume c: "AbortSubTransaction ?b = Inr b1" "CleanupSubTransaction b1 = Inr c"
        "cur c = p" "parents c = ps" "same_rest ?b c" "wf_backend base c"
      have "commit_switch n again b = redefine_savepoint (name (cur b)) (savepointLevel (cur b)) c"
        using True c(1,2) by (simp add: commit_switch_def with_state_def upd_def set_cur_def split: sum.split)
      then show ?thesis using redo[OF c(6,3,4,5)] by simp
    qed
  next
    case False
    then have bs: "blockState (cur b) = TBLOCK_SUBABORT_RESTART" using assms(3) by simp
    have "wf_core base ?b" "parents ?b = p # ps" using w p by (simp_all add: wf_backend_def)
    then show ?thesis
    proof (rule wf_cleanup_sub)
      fix c assume c: "CleanupSubTransaction ?b = Inr c" "cur c = p" "parents c = ps" "same_rest ?b c"
        "wf_backend base c"
      have "commit_switch n again b = redefine_savepoint (name (cur b)) (savepointLevel (cur b)) c"
        using bs c(1) by (simp add: commit_switch_def with_state_def upd_def set_cur_def split: sum.split)
      then show ?thesis using redo[OF c(5,2,3,4)] by simp
    qed
  qed
qed

lemma commit_cmd_ok:
  "wf_backend base b \<Longrightarrow> plan_ok (blocks b) \<Longrightarrow> length (parents b) < n \<Longrightarrow>
   (blocks b = [TBLOCK_IMPLICIT_INPROGRESS] \<Longrightarrow> im) \<Longrightarrow> cmd_ok base im b (commit_cmd n b)"
proof (induction n arbitrary: b)
  case (Suc n)
  define c where "c = (if chain (cur b) then SaveTransactionCharacteristics b else b)"
  have c: "cur c = cur b" "parents c = parents b" "env c = env b" "stack c = stack b"
    by (auto simp: c_def SaveTransactionCharacteristics_def stack_def)
  have wc: "wf_backend base c" using Suc.prems(1) by (simp add: c_def wf_save)
  have pc: "plan_ok (blocks c)" using Suc.prems(2) c by simp
  have unf: "commit_cmd (Suc n) b = commit_switch (Suc n) (commit_cmd n) c"
    by (simp add: c_def when_do_def upd_def split: sum.split)
  have "cmd_ok base im c (commit_switch (Suc n) (commit_cmd n) c)"
  proof (cases "parents c")
    case Nil
    then show ?thesis using Suc.prems(4) c(4) by (intro commit_switch_top[OF wc pc]) simp_all
  next
    case (Cons p ps)
    have again: "cmd_ok base im c (commit_cmd n d)"
      if "wf_backend base d" "cur d = p" "parents d = ps" "same_rest c d" "plan_ok (map blockState (p # ps))"
        "map blockState (p # ps) \<noteq> [TBLOCK_IMPLICIT_INPROGRESS]" for d
    proof (rule cmd_ok_env)
      show "cmd_ok base im d (commit_cmd n d)"
        using that Suc.prems(3) c(2)[symmetric] Cons by (intro Suc.IH) (simp_all add: stack_def)
    qed (use that(4) in \<open>simp add: same_rest_def\<close>)
    consider (bgn) "blockState (cur c) = TBLOCK_SUBBEGIN" "live_block (map blockState (p # ps))"
      | (live) "blockState (cur c) = TBLOCK_SUBINPROGRESS" "live_block (map blockState (p # ps))"
      | (failed) "blockState (cur c) = TBLOCK_SUBABORT" "live_block (map blockState (p # ps))"
      | (marked) "blockState (cur c) \<in> {TBLOCK_SUBRELEASE, TBLOCK_SUBCOMMIT}"
      | (restart) "blockState (cur c) \<in> {TBLOCK_SUBRESTART, TBLOCK_SUBABORT_RESTART}"
      | (aend) "blockState (cur c) = TBLOCK_SUBABORT_END" "plan_ok (map blockState (p # ps))"
          "map blockState (p # ps) \<noteq> [TBLOCK_IMPLICIT_INPROGRESS]"
      | (pend) "blockState (cur c) = TBLOCK_SUBABORT_PENDING" "plan_ok (map blockState (p # ps))"
          "map blockState (p # ps) \<noteq> [TBLOCK_IMPLICIT_INPROGRESS]"
      using pc Cons by (auto simp: stack_def)
    then show ?thesis
    proof cases
      case bgn
      show ?thesis
      proof (rule wf_start_sub[OF wc bgn(1)])
        fix d assume d: "StartSubTransaction c = Inr d" "parents d = parents c" "same_rest c d"
          "wf_backend base (with_block TBLOCK_SUBINPROGRESS d)"
        have "commit_switch (Suc n) (commit_cmd n) c = Inr (with_block TBLOCK_SUBINPROGRESS d)"
          using bgn(1) d(1) by (simp add: commit_switch_def with_state_def set_blockState_def)
        then show ?thesis using d bgn(2) Cons
          by (auto simp: stack_def same_rest_def intro!: cmd_ok_Inr live_between)
      qed
    next
      case live
      then have "commit_switch (Suc n) (commit_cmd n) c = CommandCounterIncrement c"
        by (simp add: commit_switch_def with_state_def)
      moreover have "between_ok im (blocks c)" using live Cons by (intro live_between) (simp add: stack_def)
      ultimately show ?thesis using counter_ok[OF wc pc] by simp
    next
      case failed
      then show ?thesis using wc Cons
        by (auto simp: commit_switch_def with_state_def between_defs stack_def intro!: cmd_ok_Inr)
    next
      case marked
      then show ?thesis using commit_marked_ok[OF wc pc] Suc.prems(3) c(2) by simp
    next
      case restart
      then show ?thesis by (rule restart_sub_ok[OF wc pc])
    next
      case aend
      have "wf_core base c" using wc by (simp add: wf_backend_def)
      from this Cons show ?thesis
      proof (rule wf_cleanup_sub)
        fix d assume d: "CleanupSubTransaction c = Inr d" "cur d = p" "parents d = ps" "same_rest c d"
          "wf_backend base d"
        have "commit_switch (Suc n) (commit_cmd n) c = commit_cmd n d"
          using aend(1) d(1) by (simp add: commit_switch_def with_state_def split: sum.split)
        then show ?thesis using again[OF d(5,2-4) aend(2,3)] by simp
      qed
    next
      case pend
      have "wf_core base c" "state (cur c) \<noteq> TRANS_ABORT" using wc pend by (simp_all add: wf_backend_def)
      from this Cons show ?thesis
      proof (rule wf_abort_cleanup_sub)
        fix b1 d assume d: "AbortSubTransaction c = Inr b1" "CleanupSubTransaction b1 = Inr d"
          "cur d = p" "parents d = ps" "same_rest c d" "wf_backend base d"
        have "commit_switch (Suc n) (commit_cmd n) c = commit_cmd n d"
          using pend(1) d(1,2) by (simp add: commit_switch_def with_state_def split: sum.split)
        then show ?thesis using again[OF d(6,3-5) pend(2,3)] by simp
      qed
    qed
  qed
  then show ?case unfolding unf using c(3) by (rule cmd_ok_env)
qed simp

subsection \<open>Error recovery\<close>

lemma sum_case_id: "(case x of Inl e \<Rightarrow> Inl e | Inr s \<Rightarrow> Inr s) = x"
  "(case x of Inl e \<Rightarrow> Inl e | Inr s \<Rightarrow> seq [] s) = x"
  by (cases x; simp)+

lemma abort_xids_cong: "set xs = set ys \<Longrightarrow> abort_xids xs = abort_xids ys"
  by (simp add: abort_xids_def fun_eq_iff)

lemma wf_core_trace [simp]: "wf_core base (b\<lparr>trace := t\<rparr>) = wf_core base b"
  by (simp add: wf_defs)

lemma wf_err_trace [simp]: "wf_err base (b\<lparr>trace := t\<rparr>) = wf_err base b"
  by (simp add: wf_err_def)

lemma wf_entry: "wf_core base b \<Longrightarrow> entry_ok (cur b)"
  by (simp add: wf_defs)

lemma wf_sub_parents: "wf_core base b \<Longrightarrow> is_sub (blockState (cur b)) \<longleftrightarrow> parents b \<noteq> []"
  by (cases "parents b") (auto simp: wf_defs)

lemma wf_err_core: "wf_err base b \<Longrightarrow> wf_core base b"
  by (simp add: wf_err_def)

text \<open>Leaving the current subtransaction by aborting it, or by dropping it when it has failed already.\<close>

lemma leave_sub:
  assumes "wf_err base b" "parents b = p # ps"
    "f = (if trans_of (blockState (cur b)) = TRANS_ABORT then CleanupSubTransaction
          else seq [AbortSubTransaction, CleanupSubTransaction])"
  obtains b' where "f b = Inr b'" "cur b' = p" "parents b' = ps" "wf_backend base b'"
    "pg_xact b' = abort_xids (own_xids (cur b)) (pg_xact b)" "env b' = env b" "xid_source b' = xid_source b"
    "same_rest b b'"
proof -
  have w: "wf_core base b" using assms(1) by (rule wf_err_core)
  show thesis
  proof (cases "trans_of (blockState (cur b)) = TRANS_ABORT")
    case True
    then have st: "state (cur b) = TRANS_ABORT" using assms(1) by (simp add: wf_err_def)
    have id: "abort_xids (own_xids (cur b)) (pg_xact b) = pg_xact b"
      using w st by (intro abort_xids_done[of base]) (simp_all add: wf_core_def)
    show thesis
      by (rule wf_cleanup_sub[OF w assms(2)], rule that)
         (use True id in \<open>simp_all add: assms(3) same_log_def same_rest_def\<close>)
  next
    case False
    then have "state (cur b) \<noteq> TRANS_ABORT" using assms(1) by (auto simp: wf_err_def split: if_splits)
    show thesis
    proof (rule wf_abort_cleanup_sub[OF w \<open>state (cur b) \<noteq> TRANS_ABORT\<close> assms(2)])
      fix b1 b' assume c: "AbortSubTransaction b = Inr b1" "CleanupSubTransaction b1 = Inr b'"
        "cur b' = p" "parents b' = ps" "pg_xact b' = abort_status b"
        "same_log b (b'\<lparr>pg_xact := pg_xact b\<rparr>)" "same_rest b b'" "wf_backend base b'"
      then show thesis using False abort_status_own[OF wf_entry[OF w]]
        by (intro that[of b']) (simp_all add: assms(3) same_log_def same_rest_def)
    qed
  qed
qed

text \<open>Leaving the top-level transaction likewise.\<close>

lemma leave_top:
  assumes "wf_err base b" "parents b = []" "trans_of (blockState (cur b)) \<noteq> TRANS_DEFAULT"
    "f = (if trans_of (blockState (cur b)) = TRANS_ABORT then seq [CleanupTransaction, set_blockState TBLOCK_DEFAULT]
          else seq [AbortTransaction, CleanupTransaction, set_blockState TBLOCK_DEFAULT])"
  obtains b' where "f b = Inr b'" "blocks b' = [TBLOCK_DEFAULT]" "wf_backend base b'" "parents b' = []"
    "pg_xact b' = abort_xids (own_xids (cur b)) (pg_xact b)" "env b' = env b" "xid_source b' = xid_source b"
proof -
  have w: "wf_core base b" using assms(1) by (rule wf_err_core)
  show thesis
  proof (cases "trans_of (blockState (cur b)) = TRANS_ABORT")
    case True
    then have st: "state (cur b) = TRANS_ABORT" using assms(1) by (simp add: wf_err_def)
    have id: "abort_xids (own_xids (cur b)) (pg_xact b) = pg_xact b"
      using w st by (intro abort_xids_done[of base]) (simp_all add: wf_core_def)
    show thesis
    proof (rule wf_cleanup[OF w assms(2) st])
      fix c assume "CleanupTransaction b = Inr c" "cur c = idle_entry (cur b)" "parents c = []"
        "same_log b c" "same_rest b c" "wf_backend base (with_block TBLOCK_DEFAULT c)"
      then show thesis using True id
        by (intro that[of "with_block TBLOCK_DEFAULT c"])
           (simp_all add: assms(4) set_blockState_def same_log_def same_rest_def stack_def)
    qed
  next
    case False
    then have live: "trans_of (blockState (cur b)) = TRANS_INPROGRESS"
      using assms(3) by (cases "blockState (cur b)") auto
    show thesis
    proof (rule wf_abort_cleanup[OF assms(1) live assms(2)])
      fix b1 c assume "AbortTransaction b = Inr b1" "CleanupTransaction b1 = Inr c"
        "cur c = idle_entry (cur b)" "parents c = []" "pg_xact c = abort_status b"
        "same_log b (c\<lparr>pg_xact := pg_xact b\<rparr>)" "same_rest b c" "wf_backend base (with_block TBLOCK_DEFAULT c)"
      then show thesis using False abort_status_own[OF wf_entry[OF w]]
        by (intro that[of "with_block TBLOCK_DEFAULT c"])
           (simp_all add: assms(4) set_blockState_def same_log_def same_rest_def stack_def)
    qed
  qed
qed

text \<open>\<^verbatim>\<open>AbortOutOfAnyTransaction\<close> rolls back everything, from any state error recovery can start in.\<close>

lemma abort_out_ok:
  "wf_err base b \<Longrightarrow> length (parents b) < n \<Longrightarrow>
   \<exists>b'. abort_out n b = Inr b' \<and> wf_backend base b' \<and> blocks b' = [TBLOCK_DEFAULT] \<and>
     pg_xact b' = abort_xids (live_xids (stack b)) (pg_xact b) \<and> env b' = env b \<and> xid_source b' = xid_source b"
proof (induction n arbitrary: b)
  case (Suc n)
  have w: "wf_core base b" using Suc.prems(1) by (rule wf_err_core)
  show ?case
  proof (cases "parents b")
    case Nil
    then have live: "live_xids (stack b) = own_xids (cur b)" by (simp add: stack_def live_xids_Cons)
    show ?thesis
    proof (cases "blockState (cur b) = TBLOCK_DEFAULT")
      case True
      then have wb: "wf_backend base b" "state (cur b) = TRANS_DEFAULT"
        using Suc.prems(1) by (simp_all add: wf_backend_def wf_err_def)
      then show ?thesis using True Nil wf_default_xids[OF wb(1)]
        by (simp add: with_state_def when_do_def stack_def)
    next
      case False
      then have ns: "trans_of (blockState (cur b)) \<noteq> TRANS_DEFAULT" "\<not> is_sub (blockState (cur b))"
        "blockState (cur b) \<noteq> TBLOCK_PARALLEL_INPROGRESS"
        using wf_sub_parents[OF w] Nil wf_entry[OF w] by (cases "blockState (cur b)"; simp add: entry_ok_def)+
      let ?b = "if trans_of (blockState (cur b)) = TRANS_ABORT then b\<lparr>trace := trace b @ [Call ''AtAbort_Portals'' []]\<rparr> else b"
      have we: "wf_err base ?b" using Suc.prems(1) by simp
      show ?thesis
      proof (rule leave_top[OF we _ _ refl])
        fix b' assume e: "(if trans_of (blockState (cur ?b)) = TRANS_ABORT
            then seq [CleanupTransaction, set_blockState TBLOCK_DEFAULT]
            else seq [AbortTransaction, CleanupTransaction, set_blockState TBLOCK_DEFAULT]) ?b = Inr b'"
          "blocks b' = [TBLOCK_DEFAULT]" "wf_backend base b'" "parents b' = []"
          "pg_xact b' = abort_xids (own_xids (cur ?b)) (pg_xact ?b)" "env b' = env ?b" "xid_source b' = xid_source ?b"
        have "blockState (cur b') = TBLOCK_DEFAULT" using e(2) by (simp add: stack_def)
        then have "abort_out (Suc n) b = Inr b'"
          using e(1) ns False
          by (cases "blockState (cur b)") (simp_all add: with_state_def when_do_def Let_def emit_def split: sum.splits)
        then show ?thesis using e live by (cases "trans_of (blockState (cur b)) = TRANS_ABORT") auto
      qed (use Nil ns in auto)
    qed
  next
    case (Cons p ps)
    then have sub: "is_sub (blockState (cur b))" using wf_sub_parents[OF w] by simp
    let ?b = "if trans_of (blockState (cur b)) = TRANS_ABORT \<and> curTransactionOwner (cur b) \<noteq> None
      then b\<lparr>trace := trace b @ [Call ''AtSubAbort_Portals'' (subid_args b @
                      [AOwner (curTransactionOwner (cur b)), AOwner (curTransactionOwner (parent b))])]\<rparr> else b"
    have b: "cur ?b = cur b" "parents ?b = parents b" "pg_xact ?b = pg_xact b" "env ?b = env b"
      "xid_source ?b = xid_source b" by simp_all
    have we: "wf_err base ?b" using Suc.prems(1) by simp
    show ?thesis
    proof (rule leave_sub[OF we _ refl, unfolded b])
      show "parents b = p # ps" by (rule Cons)
      fix c assume c: "(if trans_of (blockState (cur b)) = TRANS_ABORT then CleanupSubTransaction
          else seq [AbortSubTransaction, CleanupSubTransaction]) ?b = Inr c"
        "cur c = p" "parents c = ps" "wf_backend base c"
        "pg_xact c = abort_xids (own_xids (cur b)) (pg_xact b)" "env c = env b" "xid_source c = xid_source b"
      have ne: "blockState (cur c) \<noteq> TBLOCK_DEFAULT" using w Cons c(2) by (auto simp: wf_defs)
      have step: "abort_out (Suc n) b = abort_out n c"
      proof (cases "trans_of (blockState (cur b)) = TRANS_ABORT")
        case True
        then have ow: "curTransactionOwner (cur b) \<noteq> None" using wf_entry[OF w] by (simp add: entry_ok_def)
        then show ?thesis using c(1) True sub ne
          by (cases "blockState (cur b)") (simp_all add: with_state_def when_do_def Let_def emit_def sum_case_id)
      next
        case False
        then have "seq [AbortSubTransaction, CleanupSubTransaction] b = Inr c" using c(1) by simp
        then show ?thesis using False sub ne
          by (cases "blockState (cur b)")
             (simp_all add: with_state_def when_do_def Let_def sum_case_id)
      qed
      have "\<exists>b'. abort_out n c = Inr b' \<and> wf_backend base b' \<and> blocks b' = [TBLOCK_DEFAULT] \<and>
         pg_xact b' = abort_xids (live_xids (stack c)) (pg_xact c) \<and> env b' = env c \<and> xid_source b' = xid_source c"
        using Suc.prems(2) Cons c(3,4) by (intro Suc.IH wf_backend_err) simp_all
      moreover have "abort_xids (live_xids (stack c)) (pg_xact c) = abort_xids (live_xids (stack b)) (pg_xact b)"
        unfolding c(5) abort_xids_append
        by (rule fun_cong[OF abort_xids_cong]) (auto simp: stack_def c(2,3) Cons live_xids_Cons)
      ultimately show ?thesis using step c(6,7) by simp
    qed
  qed
qed simp

definition aborted_ok :: "TBlockState list \<Rightarrow> bool" where
  "aborted_ok bs \<longleftrightarrow> bs \<in> {[TBLOCK_DEFAULT], [TBLOCK_ABORT]} \<or>
     (\<exists>ts. bs = TBLOCK_SUBABORT # ts \<and> live_block ts)"

text \<open>What \<^verbatim>\<open>AbortCurrentTransaction\<close> achieves.\<close>

definition recovered :: "TransactionId \<Rightarrow> backend \<Rightarrow> backend \<Rightarrow> bool" where
  "recovered base b b' \<longleftrightarrow> wf_backend base b' \<and> aborted_ok (blocks b') \<and> env b' = env b \<and>
     xid_source b' = xid_source b \<and>
     (\<exists>j. parents b' = drop (Suc j) (stack b) \<and>
        pg_xact b' = abort_xids (live_xids (take (Suc j) (stack b))) (pg_xact b))"

lemma recovered_pop:
  assumes "recovered base c b'" "parents b = cur c # parents c" "pg_xact c = abort_xids (own_xids (cur b)) (pg_xact b)"
    "env c = env b" "xid_source c = xid_source b"
  shows "recovered base b b'"
proof -
  obtain j where j: "parents b' = drop (Suc j) (stack c)"
    "pg_xact b' = abort_xids (live_xids (take (Suc j) (stack c))) (pg_xact c)"
    using assms(1) by (auto simp: recovered_def)
  have sb: "stack b = cur b # stack c" using assms(2) by (simp add: stack_def)
  have "parents b' = drop (Suc (Suc j)) (stack b)" using j(1) sb by simp
  moreover have "pg_xact b' = abort_xids (live_xids (take (Suc (Suc j)) (stack b))) (pg_xact b)"
    using j(2) assms(3) by (simp add: sb live_xids_Cons abort_xids_def fun_eq_iff)
  ultimately show ?thesis using assms(1,4,5) unfolding recovered_def by (metis (no_types))
qed

lemma live_xids_single [simp]: "live_xids [s] = own_xids s"
  by (simp add: live_xids_Cons)

lemma wf_keep:
  assumes "wf_backend base b" "aborted_ok (blocks b)"
  shows "recovered base b b"
proof -
  have w: "log_ok base b" "entry_ok (cur b)" "state (cur b) = trans_of (blockState (cur b))"
    using assms(1) by (auto simp: wf_backend_def wf_defs)
  have "blockState (cur b) \<in> {TBLOCK_DEFAULT, TBLOCK_ABORT, TBLOCK_SUBABORT}"
    using assms(2) by (auto simp: aborted_ok_def stack_def)
  then have "own_xids (cur b) = [] \<or> state (cur b) = TRANS_ABORT"
    using w(2,3) by (auto simp: entry_ok_def own_xids_def)
  then have "abort_xids (own_xids (cur b)) (pg_xact b) = pg_xact b"
    using abort_xids_done[OF w(1)] by auto
  then show ?thesis
    using assms unfolding recovered_def by (intro conjI exI[of _ 0]) (simp_all add: stack_def)
qed

lemma abort_cur_top:
  assumes "wf_err base b" "plan_ok (blocks b) \<or> blocks b = [TBLOCK_DEFAULT]" "parents b = []"
  shows "\<exists>b'. abort_cur (Suc n) b = Inr b' \<and> recovered base b b'"
proof -
  have w: "wf_core base b" using assms(1) by (rule wf_err_core)
  have bl: "blocks b = [blockState (cur b)]" "stack b = [cur b]" using assms(3) by (simp_all add: stack_def)
  consider (idle) "blockState (cur b) \<in> {TBLOCK_DEFAULT, TBLOCK_ABORT}" | (live) "blockState (cur b) = TBLOCK_INPROGRESS"
    | (leave) "blockState (cur b) \<in> {TBLOCK_STARTED, TBLOCK_BEGIN, TBLOCK_IMPLICIT_INPROGRESS, TBLOCK_END,
        TBLOCK_ABORT_END, TBLOCK_ABORT_PENDING, TBLOCK_PREPARE}"
    using assms(2) bl by auto
  then show ?thesis
  proof cases
    case idle
    then have "wf_backend base b" using assms(1) by (auto simp: wf_err_def wf_backend_def)
    moreover have "abort_cur (Suc n) b = Inr b"
      using idle calculation by (auto simp: with_state_def wf_backend_def)
    ultimately show ?thesis using idle bl wf_keep[of base b] by (auto simp: aborted_ok_def)
  next
    case live
    then have tr: "trans_of (blockState (cur b)) = TRANS_INPROGRESS" by simp
    show ?thesis
    proof (rule wf_abort[OF assms(1) tr assms(3)])
      fix c assume c: "AbortTransaction b = Inr c" "cur c = (cur b)\<lparr>state := TRANS_ABORT\<rparr>" "parents c = []"
        "pg_xact c = abort_status b" "same_log b (c\<lparr>pg_xact := pg_xact b\<rparr>)" "same_rest b c" "wf_core base c"
      let ?d = "with_block TBLOCK_ABORT c"
      have "wf_core base ?d"
        using c(2,3,7) live by (auto simp: wf_defs entry_ok_def)
      then have "wf_backend base ?d" using c(2) by (simp add: wf_backend_def)
      moreover have "pg_xact ?d = abort_xids (own_xids (cur b)) (pg_xact b)"
        using c(4) abort_status_own[OF wf_entry[OF w]] by simp
      moreover have "abort_cur (Suc n) b = Inr ?d"
        using live c(1) by (simp add: with_state_def set_blockState_def)
      ultimately show ?thesis using c(3,5,6) bl
        by (auto simp: recovered_def aborted_ok_def stack_def same_rest_def same_log_def)
    qed
  next
    case leave
    then have tr: "trans_of (blockState (cur b)) \<noteq> TRANS_DEFAULT" by auto
    show ?thesis
    proof (rule leave_top[OF assms(1,3) tr refl])
      fix b' assume e: "(if trans_of (blockState (cur b)) = TRANS_ABORT
            then seq [CleanupTransaction, set_blockState TBLOCK_DEFAULT]
            else seq [AbortTransaction, CleanupTransaction, set_blockState TBLOCK_DEFAULT]) b = Inr b'"
        "blocks b' = [TBLOCK_DEFAULT]" "wf_backend base b'" "parents b' = []"
        "pg_xact b' = abort_xids (own_xids (cur b)) (pg_xact b)" "env b' = env b" "xid_source b' = xid_source b"
      have "abort_cur (Suc n) b = Inr b'" using leave e(1) by (auto simp: with_state_def)
      then show ?thesis using e(2-) bl
        by (auto simp: recovered_def aborted_ok_def)
    qed
  qed
qed

lemma abort_cur_ok:
  "wf_err base b \<Longrightarrow> plan_ok (blocks b) \<or> blocks b = [TBLOCK_DEFAULT] \<Longrightarrow> length (parents b) < n \<Longrightarrow>
   \<exists>b'. abort_cur n b = Inr b' \<and> recovered base b b'"
proof (induction n arbitrary: b)
  case (Suc n)
  have w: "wf_core base b" using Suc.prems(1) by (rule wf_err_core)
  show ?case
  proof (cases "parents b")
    case Nil
    then show ?thesis by (rule abort_cur_top[OF Suc.prems(1,2)])
  next
    case (Cons p ps)
    consider (failed) "blockState (cur b) = TBLOCK_SUBABORT" "live_block (map blockState (p # ps))"
      | (live) "blockState (cur b) = TBLOCK_SUBINPROGRESS" "live_block (map blockState (p # ps))"
      | (leave) "blockState (cur b) \<in> {TBLOCK_SUBBEGIN, TBLOCK_SUBRELEASE, TBLOCK_SUBCOMMIT, TBLOCK_SUBABORT_END,
           TBLOCK_SUBABORT_PENDING, TBLOCK_SUBRESTART, TBLOCK_SUBABORT_RESTART}" "plan_ok (map blockState (p # ps))"
      using Suc.prems(2) Cons live_plan by (auto simp: stack_def)
    then show ?thesis
    proof cases
      case failed
      then have "wf_backend base b" using Suc.prems(1) by (auto simp: wf_err_def wf_backend_def)
      then show ?thesis using failed Cons
        by (auto simp: with_state_def aborted_ok_def stack_def intro!: wf_keep)
    next
      case live
      have st: "state (cur b) \<noteq> TRANS_ABORT" using Suc.prems(1) live by (auto simp: wf_err_def)
      show ?thesis
      proof (rule wf_abort_sub[OF w st Cons])
        fix c assume c: "AbortSubTransaction b = Inr c" "cur c = aborted_sub (cur b)" "parents c = p # ps"
          "pg_xact c = abort_status b" "same_log b (c\<lparr>pg_xact := pg_xact b\<rparr>)" "same_rest b c" "wf_core base c"
        let ?d = "with_block TBLOCK_SUBABORT c"
        have cb: "blockState (cur c) = TBLOCK_SUBINPROGRESS" "state (cur c) = TRANS_ABORT"
          using c(2) live by (auto simp: aborted_sub_def)
        then have "wf_core base ?d" using c(3,7) by (auto simp: wf_defs entry_ok_def)
        then have "wf_backend base ?d" using cb by (simp add: wf_backend_def)
        moreover have "pg_xact ?d = abort_xids (own_xids (cur b)) (pg_xact b)"
          using c(4) abort_status_own[OF wf_entry[OF w]] by simp
        moreover have "abort_cur (Suc n) b = Inr ?d"
          using live c(1) by (simp add: with_state_def set_blockState_def)
        ultimately show ?thesis using c(3,5,6) Cons live
          by (auto simp: recovered_def aborted_ok_def stack_def same_rest_def same_log_def intro!: exI[of _ 0])
      qed
    next
      case leave
      show ?thesis
      proof (rule leave_sub[OF Suc.prems(1) Cons refl])
        fix c assume c: "(if trans_of (blockState (cur b)) = TRANS_ABORT then CleanupSubTransaction
          else seq [AbortSubTransaction, CleanupSubTransaction]) b = Inr c"
          "cur c = p" "parents c = ps" "wf_backend base c"
          "pg_xact c = abort_xids (own_xids (cur b)) (pg_xact b)" "env c = env b" "xid_source c = xid_source b"
        have "abort_cur (Suc n) b = abort_cur n c"
          using leave(1) c(1) by (auto simp: with_state_def sum_case_id split: sum.splits)
        moreover have "\<exists>b'. abort_cur n c = Inr b' \<and> recovered base c b'"
          using Suc.prems(3) Cons c(2,3) leave(2)
          by (intro Suc.IH wf_backend_err[OF c(4)]) (simp_all add: stack_def)
        ultimately show ?thesis
          using recovered_pop[of base c _ b] c Cons by auto
      qed
    qed
  qed
qed simp
end
