(* ===== verification/Frames.thy ===== *)
theory Frames
  imports Xact_Block
begin

section \<open>Relations every step of a routine respects\<close>

text \<open>
  \<open>keeps R f\<close>: the state \<open>f\<close> ends in, normally or by an error, is related by \<open>R\<close> to the one it
  started in. For a preorder \<open>R\<close> this is closed under the statement combinators, so it is
  proved for a routine by walking through its text.
\<close>

definition keeps :: "('s \<Rightarrow> 's \<Rightarrow> bool) \<Rightarrow> 's stmt \<Rightarrow> bool" where
  "keeps R f \<longleftrightarrow> (\<forall>b. case f b of Inl (e, b') \<Rightarrow> R b b' | Inr b' \<Rightarrow> R b b')"

definition vkeeps :: "('s \<Rightarrow> 's \<Rightarrow> bool) \<Rightarrow> ('s \<Rightarrow> ('s, 'a) vres) \<Rightarrow> bool" where
  "vkeeps R f \<longleftrightarrow> (\<forall>b. case f b of Inl (e, b') \<Rightarrow> R b b' | Inr (x, b') \<Rightarrow> R b b')"

definition vkept :: "('s \<Rightarrow> 's \<Rightarrow> bool) \<Rightarrow> 's \<Rightarrow> ('s, 'a) vres \<Rightarrow> bool" where
  "vkept R b r \<longleftrightarrow> (case r of Inl (e, b') \<Rightarrow> R b b' | Inr (x, b') \<Rightarrow> R b b')"

lemma vkeeps_vkept: "vkeeps R f \<longleftrightarrow> (\<forall>b. vkept R b (f b))"
  by (simp add: vkeeps_def vkept_def)

lemma keepsD:
  assumes "keeps R f"
  shows "f b = Inr b' \<Longrightarrow> R b b'" "f b = Inl (e, b') \<Longrightarrow> R b b'"
  using assms by (auto simp: keeps_def dest: spec[of _ b])

lemma keeps_eta: "(\<And>b. f b = g b) \<Longrightarrow> keeps R g \<Longrightarrow> keeps R f"
  by (simp add: keeps_def)

locale frame_rel =
  fixes R :: "'s \<Rightarrow> 's \<Rightarrow> bool"
  assumes R_refl: "R b b"
    and R_trans: "R a b \<Longrightarrow> R b c \<Longrightarrow> R a c"
begin

lemma keeps_Nil: "keeps R (seq [])"
  by (simp add: keeps_def R_refl)

lemma keeps_Cons: "keeps R f \<Longrightarrow> keeps R (seq fs) \<Longrightarrow> keeps R (seq (f # fs))"
  unfolding keeps_def by (auto split: sum.splits prod.splits) (meson R_trans)+

lemma keeps_raise: "keeps R (raise e)"
  by (simp add: keeps_def raise_def R_refl)

lemma keeps_assert: "keeps R (assert_that m P)"
  by (simp add: keeps_def assert_that_def R_refl)

lemma keeps_upd: "(\<And>b. R b (f b)) \<Longrightarrow> keeps R (upd f)"
  by (simp add: keeps_def upd_def)

lemma keeps_when: "keeps R f \<Longrightarrow> keeps R (when_do P f)"
  by (auto simp: keeps_def when_do_def R_refl)

lemma keeps_if_do: "keeps R f \<Longrightarrow> keeps R g \<Longrightarrow> keeps R (if_do P f g)"
  by (auto simp: keeps_def if_do_def)

lemma keeps_if: "keeps R f \<Longrightarrow> keeps R g \<Longrightarrow> keeps R (if c then f else g)"
  by simp

lemma keeps_with: "(\<And>b. keeps R (f b)) \<Longrightarrow> keeps R (with_state f)"
  by (auto simp: keeps_def with_state_def)

lemma keeps_let: "(\<And>x. keeps R (f x)) \<Longrightarrow> keeps R (Let y f)"
  by simp

lemma keeps_let_do:
  assumes "vkeeps R f" "\<And>x. keeps R (g x)"
  shows "keeps R (let_do f g)"
  unfolding keeps_def
proof
  fix b
  show "case let_do f g b of Inl (e, b') \<Rightarrow> R b b' | Inr b' \<Rightarrow> R b b'"
  proof (cases "f b")
    case (Inl p)
    then show ?thesis using assms(1) by (cases p) (auto simp: vkeeps_def let_do_def dest: spec[of _ b])
  next
    case (Inr p)
    then have "R b (snd p)" using assms(1) by (cases p) (auto simp: vkeeps_def dest: spec[of _ b])
    then show ?thesis
      using Inr keepsD[OF assms(2)[of "fst p"], of "snd p"] R_trans
      by (cases p) (auto simp: let_do_def split: sum.splits prod.splits; blast)
  qed
qed

lemma vkept_Inr: "R b c \<Longrightarrow> vkept R b (Inr (x, c))"
  by (simp add: vkept_def)

lemma vkept_if: "vkept R b f \<Longrightarrow> vkept R b g \<Longrightarrow> vkept R b (if c then f else g)"
  by simp

lemma vkept_bind:
  assumes "keeps R f" "R b c" "\<And>d. R b d \<Longrightarrow> vkept R b (g d)"
  shows "vkept R b (case f c of Inl e \<Rightarrow> Inl e | Inr d \<Rightarrow> g d)"
  using keepsD[OF assms(1), of c] R_trans[OF assms(2)] assms(3)
  by (cases "f c") (auto simp: vkept_def split: prod.splits)

lemma keeps_map: "(\<And>x. keeps R (f x)) \<Longrightarrow> keeps R (seq (map f xs))"
  by (induction xs) (auto intro: keeps_Nil keeps_Cons)

lemmas keeps_rules = keeps_Nil keeps_Cons keeps_raise keeps_assert keeps_when keeps_if_do keeps_if keeps_with
  keeps_let keeps_let_do keeps_map

end

text \<open>The flag that asks for an immediate commit is only ever cleared by transaction processing.\<close>

definition immediate :: "backend \<Rightarrow> bool" where
  "immediate b \<longleftrightarrow> and (MyXactFlags b) XACT_FLAGS_NEEDIMMEDIATECOMMIT \<noteq> 0"

definition no_new_immediate :: "backend \<Rightarrow> backend \<Rightarrow> bool" where
  "no_new_immediate b b' \<longleftrightarrow> (immediate b' \<longrightarrow> immediate b)"

interpretation imm: frame_rel no_new_immediate
  by unfold_locales (auto simp: no_new_immediate_def)

named_theorems imm_intros \<open>routines that do not set the immediate-commit flag\<close>

lemmas [imm_intros] = imm.keeps_rules

lemma imm_same: "(\<And>b. MyXactFlags (f b) = MyXactFlags b) \<Longrightarrow> keeps no_new_immediate (upd f)"
  by (rule imm.keeps_upd) (simp add: no_new_immediate_def immediate_def)

lemma imm_calls [imm_intros]:
  "keeps no_new_immediate (emit f)" "keeps no_new_immediate (ext s xs)"
  "keeps no_new_immediate (set_state x)" "keeps no_new_immediate (set_blockState y)"
  by (auto simp: keeps_def no_new_immediate_def immediate_def stmt_simps set_state_def set_blockState_def set_cur_def ext_def)

lemma imm_starts [imm_intros]: "keeps no_new_immediate AtStart_ResourceOwner"
  "keeps no_new_immediate AtSubStart_ResourceOwner"
  unfolding AtStart_ResourceOwner_def AtSubStart_ResourceOwner_def
  by (intro imm_intros imm_same; simp add: Let_def ResourceOwnerCreate_def set_cur_def)+

lemma imm_clear: "(\<And>b. MyXactFlags (f b) \<in> {MyXactFlags b, 0}) \<Longrightarrow> keeps no_new_immediate (upd f)"
proof (rule imm.keeps_upd)
  fix b assume "\<And>b. MyXactFlags (f b) \<in> {MyXactFlags b, 0}"
  then have "MyXactFlags (f b) = MyXactFlags b \<or> MyXactFlags (f b) = 0" by blast
  then show "no_new_immediate b (f b)" by (auto simp: no_new_immediate_def immediate_def)
qed

lemmas flag_simps = set_cur_def XLogInsert_def AtEOXact_GUC_def clear_owners_def reset_TransactionState_def
  AtAbort_ResourceOwner_def AtSubAbort_ResourceOwner_def AtSubAbort_childXids_def EnterParallelMode_def Let_def
  upd_entry_def set_stack_def set_top_def NewGUCNestLevel_def ResourceOwnerCreate_def
  RestoreTransactionCharacteristics_def SaveTransactionCharacteristics_def split_def

lemma imm_StartTransaction [imm_intros]: "keeps no_new_immediate StartTransaction"
  unfolding StartTransaction_def by (intro imm_intros imm_clear; simp add: flag_simps)

lemma imm_precommit_portals [imm_intros]: "keeps no_new_immediate (precommit_portals p n)"
  by (induction n) (simp only: precommit_portals.simps; intro imm_intros; assumption)+

lemma imm_RecordTransactionCommit_parts:
  "keeps no_new_immediate (RecordTransactionCommit_log x m n k xs)"
  "keeps no_new_immediate (RecordTransactionCommit_mark x m w n xs)"
  unfolding RecordTransactionCommit_log_def RecordTransactionCommit_mark_def
  by (intro imm_intros imm_clear; simp add: flag_simps)+

lemma imm_RecordTransactionCommit [imm_intros]: "vkeeps no_new_immediate RecordTransactionCommit"
  unfolding vkeeps_vkept RecordTransactionCommit_def Let_def
  by (intro allI imm.vkept_bind[OF imm_RecordTransactionCommit_parts(1)] imm.vkept_if imm.vkept_Inr
      imm.vkept_bind[OF imm_RecordTransactionCommit_parts(2)])
     (simp_all add: no_new_immediate_def immediate_def)

lemma imm_RecordTransactionAbort [imm_intros]: "vkeeps no_new_immediate (RecordTransactionAbort s)"
  unfolding vkeeps_def RecordTransactionAbort_def
  by (auto simp: Let_def XLogInsert_def no_new_immediate_def immediate_def split: option.splits prod.splits bool.splits)

lemma imm_CommitTransaction [imm_intros]: "keeps no_new_immediate CommitTransaction"
  unfolding CommitTransaction_def CommitTransaction_precommit_def CommitTransaction_postcommit_def
  by (intro imm_intros imm_clear; simp add: flag_simps)

lemma imm_AbortTransaction [imm_intros]: "keeps no_new_immediate AbortTransaction"
  unfolding AbortTransaction_def AbortTransaction_begin_def AbortTransaction_end_def
  by (intro imm_intros imm_clear; simp add: flag_simps)

lemma imm_CleanupTransaction [imm_intros]: "keeps no_new_immediate CleanupTransaction"
  unfolding CleanupTransaction_def by (intro imm_intros imm_clear; simp add: flag_simps)

lemma imm_counter [imm_intros]: "keeps no_new_immediate CommandCounterIncrement"
  unfolding CommandCounterIncrement_def by (intro imm_intros imm_clear; simp add: flag_simps)

lemma imm_stack [imm_intros]: "keeps no_new_immediate PushTransaction" "keeps no_new_immediate PopTransaction"
  unfolding PushTransaction_def PopTransaction_def by (intro imm_intros imm_clear; simp add: flag_simps)+

lemma imm_sub [imm_intros]: "keeps no_new_immediate StartSubTransaction" "keeps no_new_immediate AtSubCommit_childXids"
  unfolding StartSubTransaction_def AtSubCommit_childXids_def by (intro imm_intros imm_clear; simp add: flag_simps)+

lemma imm_CommitSubTransaction [imm_intros]: "keeps no_new_immediate CommitSubTransaction"
  unfolding CommitSubTransaction_def CommitSubTransaction_end_def by (intro imm_intros imm_clear; simp add: flag_simps)

lemma imm_AbortSubTransaction [imm_intros]: "keeps no_new_immediate AbortSubTransaction"
  unfolding AbortSubTransaction_def AbortSubTransaction_owned_def by (intro imm_intros imm_clear; simp add: flag_simps)

lemma imm_CleanupSubTransaction [imm_intros]: "keeps no_new_immediate CleanupSubTransaction"
  unfolding CleanupSubTransaction_def by (intro imm_intros imm_clear; simp add: flag_simps)


lemma imm_report_subxid [imm_intros]: "keeps no_new_immediate (report_subxid i l x)"
  unfolding report_subxid_def by (intro imm_intros imm_clear; simp add: flag_simps)

lemma imm_GetNewTransactionId [imm_intros]: "vkeeps no_new_immediate GetNewTransactionId"
  by (auto simp: vkeeps_def GetNewTransactionId_def no_new_immediate_def immediate_def split: list.split)

lemma imm_assign_entry [imm_intros]: "keeps no_new_immediate (assign_entry i)"
  unfolding assign_entry_def by (intro imm_intros imm_clear; simp add: flag_simps split: list.split)

lemma imm_AssignTransactionId: "keeps no_new_immediate (AssignTransactionId i)"
  unfolding AssignTransactionId_def assign_parent_def assign_checks_def by (intro imm_intros)

lemma imm_GetCurrentTransactionId [imm_intros]: "vkeeps no_new_immediate GetCurrentTransactionId"
  unfolding vkeeps_def GetCurrentTransactionId_def
  using keepsD[OF imm_AssignTransactionId] imm.R_refl by (auto split: sum.splits prod.splits)

lemma imm_PrepareTransaction [imm_intros]: "keeps no_new_immediate PrepareTransaction"
  unfolding PrepareTransaction_def PrepareTransaction_preprepare_def PrepareTransaction_prepare_def
    PrepareTransaction_cleanup_def
  by (intro imm_intros imm_clear; simp add: flag_simps)

lemma imm_restart_chain [imm_intros]: "keeps no_new_immediate restart_chain"
  unfolding restart_chain_def by (intro imm_intros imm_clear; simp add: flag_simps)

lemma imm_commit_subs [imm_intros]: "keeps no_new_immediate (commit_subs bs n)"
proof (induction n)
  case (Suc n)
  have "commit_subs bs (Suc n) = seq [CommitSubTransaction, when_do (\<lambda>b. blockState (cur b) = bs) (commit_subs bs n)]"
    by (rule ext) (rule commit_subs.simps)
  then show ?case using Suc by (simp only:) (intro imm_intros)
qed (simp add: keeps_def raise_def imm.R_refl)

lemma keeps_TBlockState:
  assumes "keeps R f0" "keeps R f1" "keeps R f2" "keeps R f3" "keeps R f4" "keeps R f5" "keeps R f6"
    "keeps R f7" "keeps R f8" "keeps R f9" "keeps R f10" "keeps R f11" "keeps R f12" "keeps R f13"
    "keeps R f14" "keeps R f15" "keeps R f16" "keeps R f17" "keeps R f18" "keeps R f19"
  shows "keeps R (case x of TBLOCK_DEFAULT \<Rightarrow> f0 | TBLOCK_STARTED \<Rightarrow> f1 | TBLOCK_BEGIN \<Rightarrow> f2 | TBLOCK_INPROGRESS \<Rightarrow> f3
      | TBLOCK_IMPLICIT_INPROGRESS \<Rightarrow> f4 | TBLOCK_PARALLEL_INPROGRESS \<Rightarrow> f5 | TBLOCK_END \<Rightarrow> f6 | TBLOCK_ABORT \<Rightarrow> f7
      | TBLOCK_ABORT_END \<Rightarrow> f8 | TBLOCK_ABORT_PENDING \<Rightarrow> f9 | TBLOCK_PREPARE \<Rightarrow> f10 | TBLOCK_SUBBEGIN \<Rightarrow> f11
      | TBLOCK_SUBINPROGRESS \<Rightarrow> f12 | TBLOCK_SUBRELEASE \<Rightarrow> f13 | TBLOCK_SUBCOMMIT \<Rightarrow> f14 | TBLOCK_SUBABORT \<Rightarrow> f15
      | TBLOCK_SUBABORT_END \<Rightarrow> f16 | TBLOCK_SUBABORT_PENDING \<Rightarrow> f17 | TBLOCK_SUBRESTART \<Rightarrow> f18 | TBLOCK_SUBABORT_RESTART \<Rightarrow> f19)"
  using assms by (cases x) simp_all

lemmas [imm_intros] = keeps_TBlockState

lemma imm_DefineSavepoint [imm_intros]: "keeps no_new_immediate (DefineSavepoint sp)"
  unfolding DefineSavepoint_def by (intro imm_intros imm_clear; simp add: flag_simps)

lemma imm_redefine_savepoint [imm_intros]: "keeps no_new_immediate (redefine_savepoint sp lvl)"
  unfolding redefine_savepoint_def by (intro imm_intros imm_clear; simp add: flag_simps)

lemma imm_commit_cmd: "keeps no_new_immediate (commit_cmd n)"
proof (induction n)
  case (Suc n)
  then show ?case
    unfolding commit_cmd.simps commit_switch_def by (intro imm_intros imm_clear; simp add: flag_simps)
qed (simp add: keeps_def raise_def imm.R_refl)

lemma imm_abort_cur: "keeps no_new_immediate (abort_cur n)"
proof (induction n)
  case (Suc n)
  show ?case by (rule keeps_eta[OF abort_cur.simps(2)]) (intro imm_intros Suc)
qed (simp add: keeps_def raise_def imm.R_refl)

lemma StartTransaction_flag: "StartTransaction b = Inr b' \<Longrightarrow> \<not> immediate b'"
  by (auto simp: StartTransaction_def stmt_simps AtStart_ResourceOwner_def ResourceOwnerCreate_def Let_def
      set_state_def set_cur_def immediate_def split: if_splits)
end
