(* ===== verification/Utility_Inv.thy ===== *)
theory Utility_Inv
  imports Xact_Block_Inv Frames
begin

section \<open>Transaction control commands keep the invariant\<close>

text \<open>
  Every command that \<^verbatim>\<open>standard_ProcessUtility\<close> dispatches to turns a state in which a command
  may start into one that \<^verbatim>\<open>CommitTransactionCommand\<close> can carry out, or raises an ordinary
  error.
\<close>

subsection \<open>Re-marking the stack\<close>

definition same_kind :: "TBlockState \<Rightarrow> TBlockState \<Rightarrow> bool" where
  "same_kind x y \<longleftrightarrow> trans_of y = trans_of x \<and> is_sub y = is_sub x \<and> y \<noteq> TBLOCK_PARALLEL_INPROGRESS \<and>
     (y = TBLOCK_DEFAULT \<longleftrightarrow> x = TBLOCK_DEFAULT)"

definition reblock :: "TransactionStateData \<Rightarrow> TransactionStateData \<Rightarrow> bool" where
  "reblock s s' \<longleftrightarrow> (\<exists>c. s' = s\<lparr>blockState := blockState s', chain := c\<rparr>) \<and> same_kind (blockState s) (blockState s')"

lemma reblockI: "same_kind (blockState s) x \<Longrightarrow> reblock s (s\<lparr>blockState := x\<rparr>)"
  unfolding reblock_def by (intro conjI exI[of _ "chain s"]) simp_all

lemma reblock_chain: "same_kind (blockState s) (blockState s) \<Longrightarrow> reblock s (s\<lparr>chain := c\<rparr>)"
  unfolding reblock_def by (intro conjI exI[of _ c]) simp_all

lemma reblock_fields:
  assumes "reblock s s'"
  shows "state s' = state s" "fullTransactionId s' = fullTransactionId s" "own_xids s' = own_xids s"
    "nestingLevel s' = nestingLevel s" "curTransactionOwner s' = curTransactionOwner s" "name s' = name s"
    "trans_of (blockState s') = trans_of (blockState s)" "is_sub (blockState s') = is_sub (blockState s)"
    "entry_ok s \<Longrightarrow> entry_ok s'" "blockState s' = TBLOCK_DEFAULT \<longleftrightarrow> blockState s = TBLOCK_DEFAULT"
proof -
  obtain x c where x: "s' = s\<lparr>blockState := x, chain := c\<rparr>" "same_kind (blockState s) x"
    using assms by (auto simp: reblock_def)
  show "state s' = state s" "fullTransactionId s' = fullTransactionId s" "own_xids s' = own_xids s"
    "nestingLevel s' = nestingLevel s" "curTransactionOwner s' = curTransactionOwner s" "name s' = name s"
    "trans_of (blockState s') = trans_of (blockState s)" "is_sub (blockState s') = is_sub (blockState s)"
    "entry_ok s \<Longrightarrow> entry_ok s'" "blockState s' = TBLOCK_DEFAULT \<longleftrightarrow> blockState s = TBLOCK_DEFAULT"
    using x(2) unfolding x(1) by (simp_all add: entry_ok_def own_xids_def same_kind_def)
qed

lemma reblock_trans: "reblock a b \<Longrightarrow> reblock b c \<Longrightarrow> reblock a c"
proof -
  assume "reblock a b" "reblock b c"
  then obtain x y x' y' where e: "b = a\<lparr>blockState := x, chain := y\<rparr>" "c = b\<lparr>blockState := x', chain := y'\<rparr>"
    and k: "same_kind (blockState a) (blockState b)" "same_kind (blockState b) (blockState c)"
    unfolding reblock_def by blast
  have "same_kind (blockState a) (blockState c)" using k by (auto simp: same_kind_def)
  then show "reblock a c" unfolding reblock_def e by (intro conjI exI[of _ y']) simp_all
qed

lemma entry_kind: "entry_ok s \<Longrightarrow> same_kind (blockState s) (blockState s)"
  by (simp add: entry_ok_def same_kind_def)

lemma reblock_refl: "entry_ok s \<Longrightarrow> reblock s s"
  using reblockI[OF entry_kind, of s] by simp

lemma reblock_all: "list_all entry_ok ss \<Longrightarrow> list_all2 reblock ss ss"
  by (auto simp: list_all2_conv_all_nth list_all_length intro: reblock_refl)

lemma reblock_all_trans: "list_all2 reblock as bs \<Longrightarrow> list_all2 reblock bs cs \<Longrightarrow> list_all2 reblock as cs"
  by (rule list_all2_trans[of reblock reblock reblock]) (blast intro: reblock_trans)

lemma stack_ok_reblock: "list_all2 reblock ss ss' \<Longrightarrow> stack_ok ss \<Longrightarrow> stack_ok ss'"
proof (induction ss arbitrary: ss' rule: stack_ok.induct)
  case (3 s t ss)
  then obtain s' t' ss'' where "ss' = s' # t' # ss''" "reblock s s'" "reblock t t'" "list_all2 reblock ss ss''"
    by (auto simp: list_all2_Cons1)
  then show ?case using "3.IH"[of "t' # ss''"] "3.prems" reblock_fields[of s s'] reblock_fields[of t t'] by auto
qed (auto simp: list_all2_Cons1 reblock_fields)

lemma live_xids_reblock: "list_all2 reblock ss ss' \<Longrightarrow> live_xids ss' = live_xids ss"
  by (induction rule: list_all2_induct) (auto simp: live_xids_Cons reblock_fields)

text \<open>A state whose stack has only been re-marked.\<close>

definition remarked :: "backend \<Rightarrow> backend \<Rightarrow> bool" where
  "remarked b b' \<longleftrightarrow> list_all2 reblock (stack b) (stack b') \<and> same_log b b' \<and> same_rest b b' \<and> same_top b b' \<and>
     MyXactFlags b' = MyXactFlags b"

lemma remarked_trans: "remarked a b \<Longrightarrow> remarked b c \<Longrightarrow> remarked a c"
  by (auto simp: remarked_def intro: reblock_all_trans same_log_trans same_rest_trans same_top_trans)

lemma flags_set_stack: "MyXactFlags (set_stack ss b) = MyXactFlags b"
  by (simp add: set_stack_def split: list.split)

lemma remarked_set_stack: "list_all2 reblock (stack b) ss \<Longrightarrow> remarked b (set_stack ss b)"
  by (cases "ss = []") (auto simp: remarked_def same_set_stack stack_set_stack flags_set_stack)

lemma wf_remarked:
  assumes "wf_backend base b" "remarked b b'"
  shows "wf_backend base b'"
proof -
  have ss: "reblock (cur b) (cur b')" "list_all2 reblock (parents b) (parents b')"
    and all: "list_all2 reblock (stack b) (stack b')"
    using assms(2) by (auto simp: remarked_def stack_def)
  have w: "wf_core base b" using assms(1) by (simp add: wf_backend_def)
  have same: "same_log b b'" "same_rest b b'" "same_top b b'" using assms(2) by (auto simp: remarked_def)
  have last: "reblock (top b) (top b')"
    using list_all2_nthD[OF all, of "length (stack b) - 1"] list_all2_lengthD[OF all]
    by (simp add: top_def last_conv_nth)
  have "list_all entry_ok (stack b')"
    using w all by (auto simp: wf_core_def list_all_length list_all2_conv_all_nth reblock_fields)
  moreover have "stack_ok (stack b')" using w all stack_ok_reblock by (auto simp: wf_core_def)
  moreover have "glob_ok b'"
    using w reblock_fields[OF last] same by (simp add: wf_core_def glob_ok_def same_rest_def same_top_def)
  moreover have "log_ok base b'"
    using w reblock_fields[OF ss(1)] live_xids_reblock[OF ss(2)] same
    by (simp add: wf_core_def log_ok_def future_xids_def same_log_def)
  ultimately have "wf_core base b'" by (simp add: wf_core_def)
  then show ?thesis using assms(1) reblock_fields[OF ss(1)] by (simp add: wf_backend_def)
qed

lemma live_block_iff: "live_block bs \<longleftrightarrow> (\<exists>n. bs = replicate n TBLOCK_SUBINPROGRESS @ [TBLOCK_INPROGRESS])"
proof
  show "live_block bs \<Longrightarrow> \<exists>n. bs = replicate n TBLOCK_SUBINPROGRESS @ [TBLOCK_INPROGRESS]"
  proof (induction bs rule: live_block.induct)
    case (2 t)
    then show ?case by (intro exI[of _ 0]) simp
  next
    case (3 s t ss)
    then obtain n where "t # ss = replicate n TBLOCK_SUBINPROGRESS @ [TBLOCK_INPROGRESS]" by auto
    moreover have "s = TBLOCK_SUBINPROGRESS" using "3.prems" by simp
    ultimately show ?case by (intro exI[of _ "Suc n"]) simp
  qed simp
next
  assume "\<exists>n. bs = replicate n TBLOCK_SUBINPROGRESS @ [TBLOCK_INPROGRESS]"
  then obtain n where "bs = replicate n TBLOCK_SUBINPROGRESS @ [TBLOCK_INPROGRESS]" by blast
  moreover have "live_block (replicate n TBLOCK_SUBINPROGRESS @ [TBLOCK_INPROGRESS])"
  proof (induction n)
    case (Suc n)
    then show ?case by (cases n) simp_all
  qed simp
  ultimately show "live_block bs" by simp
qed

text \<open>Marking: every entry but the last by \<open>fs\<close>, the last by \<open>ft\<close>.\<close>

lemma mark_stack_ok:
  assumes "ss \<noteq> []" "\<forall>s \<in> set (butlast ss). fs (blockState s) \<noteq> None" "ft (blockState (last ss)) \<noteq> None"
  shows "mark_stack fs ft ss = (map (\<lambda>s. s\<lparr>blockState := the (fs (blockState s))\<rparr>) (butlast ss) @
           [(last ss)\<lparr>blockState := the (ft (blockState (last ss)))\<rparr>], True)"
  using assms by (induction fs ft ss rule: mark_stack.induct) auto

lemma reblock_map:
  "\<forall>s \<in> set ss. same_kind (blockState s) x \<Longrightarrow> list_all2 reblock ss (map (\<lambda>s. s\<lparr>blockState := x\<rparr>) ss)"
  by (induction ss) (auto intro: reblockI)

lemma list_all2_marks:
  assumes "ss \<noteq> []" "\<And>s. s \<in> set (butlast ss) \<Longrightarrow> reblock s (f s)" "reblock (last ss) (g (last ss))"
  shows "list_all2 reblock ss (map f (butlast ss) @ [g (last ss)])"
proof -
  have "list_all2 reblock (butlast ss @ [last ss]) (map f (butlast ss) @ [g (last ss)])"
    using assms(2,3) by (intro list_all2_appendI) (auto simp: list_all2_conv_all_nth)
  then show ?thesis using assms(1) by simp
qed

lemma wf_entries: "wf_backend base b \<Longrightarrow> list_all entry_ok (stack b)"
  by (simp add: wf_backend_def wf_core_def)

lemma remarked_top:
  assumes "wf_backend base b" "reblock (top b) (f (top b))"
  shows "remarked b (set_top f b)"
proof -
  have "list_all entry_ok (butlast (stack b))"
    using wf_entries[OF assms(1)] by (auto simp: list_all_iff dest: in_set_butlastD)
  then have "list_all2 reblock (butlast (stack b) @ [last (stack b)]) (butlast (stack b) @ [f (top b)])"
    using assms(2) by (intro list_all2_appendI reblock_all) (simp_all add: top_def)
  then show ?thesis unfolding set_top_set_stack by (intro remarked_set_stack) simp
qed

lemma mark_all_ok:
  assumes "blocks b = bs @ [t]" "\<And>s. s \<in> set bs \<Longrightarrow> fs s = Some (f s) \<and> same_kind s (f s)"
    "ft t = Some t'" "same_kind t t'"
  shows "\<exists>b'. mark_all fs ft msg b = Inr b' \<and> blocks b' = map f bs @ [t'] \<and> remarked b b'"
proof -
  have bl: "map blockState (butlast (stack b)) = bs" "blockState (last (stack b)) = t"
    using assms(1) by (metis map_butlast butlast_snoc, metis last_map last_snoc stack_ne)
  let ?ss = "map (\<lambda>s. s\<lparr>blockState := the (fs (blockState s))\<rparr>) (butlast (stack b)) @
           [(last (stack b))\<lparr>blockState := the (ft (blockState (last (stack b))))\<rparr>]"
  have mem: "fs (blockState s) = Some (f (blockState s)) \<and> same_kind (blockState s) (f (blockState s))"
    if "s \<in> set (butlast (stack b))" for s
    using assms(2)[of "blockState s"] bl(1) that by (metis imageI image_set)
  have "mark_stack fs ft (stack b) = (?ss, True)"
    using mem assms(3) bl(2) by (intro mark_stack_ok) auto
  moreover have "list_all2 reblock (stack b) ?ss"
    using mem assms(3,4) bl(2) by (intro list_all2_marks reblockI) auto
  moreover have "map blockState ?ss = map f bs @ [t']"
    using mem bl assms(3) by (auto simp flip: bl(1))
  ultimately show ?thesis
    by (intro exI[of _ "set_stack ?ss b"]) (simp add: mark_all_def remarked_set_stack stack_set_stack)
qed

subsection \<open>The commands\<close>

text \<open>
  What a transaction command leaves: a plan for \<^verbatim>\<open>CommitTransactionCommand\<close>, the same xids in the
  same order, no status touched.
\<close>

definition planned :: "TransactionId \<Rightarrow> backend \<Rightarrow> backend \<Rightarrow> bool" where
  "planned base b b' \<longleftrightarrow> wf_backend base b' \<and> plan_ok (blocks b') \<and> env b' = env b \<and>
     pg_xact b' = pg_xact b \<and> xid_source b' = xid_source b \<and> live_xids (stack b') = live_xids (stack b) \<and>
     (blocks b' = [TBLOCK_IMPLICIT_INPROGRESS] \<longrightarrow> blocks b = [TBLOCK_IMPLICIT_INPROGRESS]) \<and>
     (immediate b' \<longrightarrow> immediate b \<or> blocks b = [TBLOCK_STARTED] \<and> blocks b' = [TBLOCK_STARTED])"

definition util_ok :: "TransactionId \<Rightarrow> backend \<Rightarrow> backend res \<Rightarrow> bool" where
  "util_ok base b r \<longleftrightarrow> (\<exists>b'. r = Inr b' \<and> planned base b b') \<or> (\<exists>m b'. r = Inl (ERROR m, b') \<and> planned base b b')"

lemma util_Inr: "planned base b b' \<Longrightarrow> util_ok base b (Inr b')"
  by (simp add: util_ok_def)

lemma util_ERROR: "planned base b b' \<Longrightarrow> util_ok base b (Inl (ERROR m, b'))"
  by (simp add: util_ok_def)

lemma planned_refl: "wf_backend base b \<Longrightarrow> plan_ok (blocks b) \<Longrightarrow> planned base b b"
  by (simp add: planned_def)

lemma planned_then:
  "planned base a b \<Longrightarrow> remarked b c \<Longrightarrow> blocks c = blocks b \<Longrightarrow> planned base a c"
  by (auto simp: planned_def wf_remarked remarked_def same_rest_def same_log_def live_xids_reblock immediate_def)

lemma planned_remarked:
  "wf_backend base b \<Longrightarrow> remarked b b' \<Longrightarrow> plan_ok (blocks b') \<Longrightarrow>
   (blocks b' = [TBLOCK_IMPLICIT_INPROGRESS] \<Longrightarrow> blocks b = [TBLOCK_IMPLICIT_INPROGRESS]) \<Longrightarrow> planned base b b'"
  by (auto simp: planned_def wf_remarked remarked_def same_rest_def same_log_def live_xids_reblock immediate_def)

lemma ready_plan: "ready_ok bs \<Longrightarrow> plan_ok bs"
  by (auto simp: ready_ok_def live_plan) (metis list.exhaust live_block.simps(1) plan_ok.simps(3) insertI1 insertI2)

lemma remarked_trace:
  "wf_backend base b \<Longrightarrow> remarked b (b\<lparr>trace := trace b @ t\<rparr>)"
  using reblock_all[OF wf_entries] by (simp add: remarked_def frame_defs stack_def)

lemma remarked_block:
  assumes "wf_backend base b" "same_kind (blockState (cur b)) x"
  shows "remarked b (b\<lparr>cur := (cur b)\<lparr>blockState := x\<rparr>\<rparr>)"
  using reblock_all[OF wf_entries[OF assms(1)]] reblockI[OF assms(2)]
  by (simp add: remarked_def frame_defs stack_def)

lemma plan_commit: "plan_ok (replicate n TBLOCK_SUBCOMMIT @ [t]) \<longleftrightarrow>
    (if n = 0 then plan_ok [t] else t \<in> {TBLOCK_END, TBLOCK_PREPARE})"
proof (induction n)
  case (Suc n)
  then show ?case by (cases n) auto
qed simp

lemma plan_abort: "plan_ok (replicate n TBLOCK_SUBABORT_PENDING @ [TBLOCK_ABORT_PENDING])"
proof (induction n)
  case (Suc n)
  then show ?case by (cases n) auto
qed simp

lemma plan_rollback_to: "live_block ts \<Longrightarrow> plan_ok (replicate n TBLOCK_SUBABORT_PENDING @ TBLOCK_SUBRESTART # ts)"
proof (induction n)
  case 0
  then show ?case by (cases ts) auto
next
  case (Suc n)
  then show ?case by (cases n) auto
qed

lemma plan_abort_end: "plan_ok (TBLOCK_SUBABORT_PENDING # bs) \<Longrightarrow> plan_ok (TBLOCK_SUBABORT_END # bs)"
  by (cases bs) auto

lemma plan_release: "live_block ts \<Longrightarrow> plan_ok (replicate (Suc n) TBLOCK_SUBRELEASE @ ts)"
proof (induction n)
  case 0
  then show ?case by (cases ts) auto
next
  case (Suc n)
  then show ?case by auto
qed

lemma BeginTransactionBlock_ok:
  assumes "wf_backend base b" "ready_ok (blocks b)"
  shows "util_ok base b (BeginTransactionBlock b)"
proof -
  consider (new) "blocks b = [TBLOCK_STARTED] \<or> blocks b = [TBLOCK_IMPLICIT_INPROGRESS]"
    | (warn) "blockState (cur b) \<in> {TBLOCK_INPROGRESS, TBLOCK_SUBINPROGRESS, TBLOCK_ABORT, TBLOCK_SUBABORT}"
    using assms(2) live_cur[of b] by (auto simp: ready_ok_def stack_def)
  then show ?thesis
  proof cases
    case new
    then have k: "same_kind (blockState (cur b)) TBLOCK_BEGIN" by (auto simp: stack_def same_kind_def)
    have "BeginTransactionBlock b = Inr (b\<lparr>cur := (cur b)\<lparr>blockState := TBLOCK_BEGIN\<rparr>\<rparr>)"
      using new by (auto simp: BeginTransactionBlock_def stack_def set_blockState_def upd_def set_cur_def)
    then show ?thesis
      using planned_remarked[OF assms(1) remarked_block[OF assms(1) k]] new by (auto simp: stack_def intro: util_Inr)
  next
    case warn
    then have "BeginTransactionBlock b = Inr (b\<lparr>trace := trace b @ [Warning ''there is already a transaction in progress'']\<rparr>)"
      by (auto simp: BeginTransactionBlock_def stmt_simps)
    then show ?thesis
      using planned_remarked[OF assms(1) remarked_trace[OF assms(1)]] ready_plan[OF assms(2)]
      by (auto simp: stack_def intro: util_Inr)
  qed
qed

lemma set_top_cur: "parents b = [] \<Longrightarrow> set_top f b = set_cur f b"
  by (simp add: set_top_def set_cur_def)

lemma block_tail_ok:
  assumes "wf_backend base c" "last (blocks c) \<in> set oks" "\<not> atTop \<Longrightarrow> parents c = []"
  shows "\<exists>d. block_tail atTop oks ch c = Inr d \<and> blocks d = blocks c \<and> remarked c d"
proof -
  have e: "entry_ok (top c)" using wf_entries[OF assms(1)] by (simp add: top_def list_all_iff)
  let ?d = "set_top (\<lambda>s. s\<lparr>chain := ch\<rparr>) c"
  have "blockState (top c) \<in> set oks" using assms(2) by (simp add: top_def last_map)
  then have "block_tail atTop oks ch c = Inr ?d"
    using assms(3) by (cases atTop) (simp_all add: block_tail_def stmt_simps set_top_cur top_def stack_def)
  moreover have "blocks ?d = butlast (blocks c) @ [last (blocks c)]"
    by (simp add: set_top_set_stack stack_set_stack top_def last_map map_butlast del: append_butlast_last_id)
  moreover have "remarked c ?d"
    by (rule remarked_top[OF assms(1)]) (rule reblock_chain[OF entry_kind[OF e]])
  ultimately show ?thesis by simp
qed

text \<open>Re-marking, then the common tail.\<close>

lemma marked_tail:
  assumes "wf_backend base b" "remarked b c" "plan_ok (blocks c)" "last (blocks c) \<in> set oks"
    "\<not> atTop \<Longrightarrow> parents c = []" "blocks c \<noteq> [TBLOCK_IMPLICIT_INPROGRESS]"
  shows "\<exists>d. block_tail atTop oks ch c = Inr d \<and> blocks d = blocks c \<and> planned base b d \<and> remarked b d"
proof -
  have "wf_backend base c" using wf_remarked assms(1,2) by blast
  from block_tail_ok[OF this assms(4,5)] obtain d
    where d: "block_tail atTop oks ch c = Inr d" "blocks d = blocks c" "remarked c d" by blast
  have "remarked b d" using remarked_trans[OF assms(2) d(3)] .
  moreover from this have "planned base b d"
    using d(2) assms(3,6) by (intro planned_remarked[OF assms(1)]) auto
  ultimately show ?thesis using d by blast
qed

lemma mark_commit:
  assumes "blocks b = replicate n TBLOCK_SUBINPROGRESS @ [TBLOCK_INPROGRESS]"
  shows "\<exists>c. mark_all sub_commit_mark top_commit_mark msg b = Inr c \<and>
    blocks c = replicate n TBLOCK_SUBCOMMIT @ [TBLOCK_END] \<and> remarked b c"
  using mark_all_ok[OF assms, of sub_commit_mark "\<lambda>_. TBLOCK_SUBCOMMIT" top_commit_mark]
  by (auto simp: sub_commit_mark_def top_commit_mark_def same_kind_def map_replicate_const)

lemma mark_abort:
  assumes "blocks b = hs @ replicate n TBLOCK_SUBINPROGRESS @ [TBLOCK_INPROGRESS]" "set hs \<subseteq> {TBLOCK_SUBABORT}"
  shows "\<exists>c. mark_all sub_abort_mark top_abort_mark msg b = Inr c \<and>
    blocks c = map (\<lambda>_. TBLOCK_SUBABORT_END) hs @ replicate n TBLOCK_SUBABORT_PENDING @ [TBLOCK_ABORT_PENDING] \<and>
    remarked b c"
proof -
  let ?f = "\<lambda>x. if x = TBLOCK_SUBABORT then TBLOCK_SUBABORT_END else TBLOCK_SUBABORT_PENDING"
  have bl: "blocks b = (hs @ replicate n TBLOCK_SUBINPROGRESS) @ [TBLOCK_INPROGRESS]" using assms(1) by simp
  have mk: "sub_abort_mark x = Some (?f x) \<and> same_kind x (?f x)" if "x \<in> set (hs @ replicate n TBLOCK_SUBINPROGRESS)" for x
    using that assms(2) by (auto simp: sub_abort_mark_def same_kind_def split: if_splits)
  have "\<exists>c. mark_all sub_abort_mark top_abort_mark msg b = Inr c \<and>
      blocks c = map ?f (hs @ replicate n TBLOCK_SUBINPROGRESS) @ [TBLOCK_ABORT_PENDING] \<and> remarked b c"
    by (rule mark_all_ok[OF bl mk]) (simp_all add: top_abort_mark_def same_kind_def)
  moreover have "map ?f hs = map (\<lambda>_. TBLOCK_SUBABORT_END) hs" using assms(2) by auto
  ultimately show ?thesis by simp
qed

lemma plan_abort_all:
  "length hs \<le> 1 \<Longrightarrow> plan_ok (map (\<lambda>_. TBLOCK_SUBABORT_END) hs @ replicate n TBLOCK_SUBABORT_PENDING @ [TBLOCK_ABORT_PENDING])"
  using plan_abort[of n] plan_abort[of "Suc n"] by (cases hs) (auto intro: plan_abort_end)

text \<open>The shapes of a stack in which a command may start.\<close>

lemma ready_cases:
  assumes "ready_ok (blocks b)"
  obtains (started) "blocks b = [TBLOCK_STARTED]" | (implicit) "blocks b = [TBLOCK_IMPLICIT_INPROGRESS]"
    | (failed) "blocks b = [TBLOCK_ABORT]" | (inblock) "blocks b = [TBLOCK_INPROGRESS]"
    | (insub) n where "blocks b = TBLOCK_SUBINPROGRESS # replicate n TBLOCK_SUBINPROGRESS @ [TBLOCK_INPROGRESS]"
    | (failedsub) n where "blocks b = TBLOCK_SUBABORT # replicate n TBLOCK_SUBINPROGRESS @ [TBLOCK_INPROGRESS]"
proof -
  have "thesis" if "blocks b = replicate n TBLOCK_SUBINPROGRESS @ [TBLOCK_INPROGRESS]" for n
    using that by (cases n) (auto intro: inblock insub)
  then show thesis
    using assms by (auto simp: ready_ok_def live_block_iff intro: started implicit failed failedsub)
qed

lemma blocks_single: "blocks b = [x] \<longleftrightarrow> parents b = [] \<and> blockState (cur b) = x"
  by (auto simp: stack_def)

lemma blocks_Cons: "blocks b = x # xs \<longleftrightarrow> blockState (cur b) = x \<and> map blockState (parents b) = xs"
  by (simp add: stack_def)

lemma set_blockState_eq: "set_blockState x b = Inr (b\<lparr>cur := (cur b)\<lparr>blockState := x\<rparr>\<rparr>)"
  by (simp add: set_blockState_def stmt_simps set_cur_def)

lemma marked_block:
  assumes "wf_backend base b" "parents b = []" "same_kind (blockState (cur b)) x"
  shows "\<exists>c. set_blockState x b = Inr c \<and> blocks c = [x] \<and> parents c = [] \<and> remarked b c"
  using remarked_block[OF assms(1,3)] assms(2) by (simp add: set_blockState_eq stack_def)

text \<open>What \<^verbatim>\<open>EndTransactionBlock\<close> plans: a commit of every entry, or the end of a failed block.\<close>

definition commit_plan :: "TBlockState list \<Rightarrow> bool" where
  "commit_plan bs \<longleftrightarrow> bs = [TBLOCK_STARTED] \<or> (\<exists>n. bs = replicate n TBLOCK_SUBCOMMIT @ [TBLOCK_END])"

lemma commit_plan_ok: "commit_plan bs \<Longrightarrow> plan_ok bs \<and> bs \<noteq> [TBLOCK_IMPLICIT_INPROGRESS] \<and> last bs \<in> set end_block_states"
  by (auto simp: commit_plan_def plan_commit end_block_states_def)

lemma commit_plan_END: "bs = [TBLOCK_END] \<Longrightarrow> commit_plan bs"
  unfolding commit_plan_def by (intro disjI2 exI[of _ 0]) simp

definition rollback_plan :: "TBlockState list \<Rightarrow> bool" where
  "rollback_plan bs \<longleftrightarrow> bs = [TBLOCK_ABORT_END] \<or>
     (\<exists>(hs :: TBlockState list) n. length hs \<le> 1 \<and>
        bs = map (\<lambda>_. TBLOCK_SUBABORT_END) hs @ replicate n TBLOCK_SUBABORT_PENDING @ [TBLOCK_ABORT_PENDING])"

lemma rollback_plan_ok:
  "rollback_plan bs \<Longrightarrow> plan_ok bs \<and> bs \<noteq> [TBLOCK_IMPLICIT_INPROGRESS] \<and> last bs \<in> {TBLOCK_ABORT_END, TBLOCK_ABORT_PENDING}"
  by (auto simp: rollback_plan_def plan_abort_all Cons_eq_append_conv)

lemma seq_two: "x b = Inr c \<Longrightarrow> seq [x, f] b = f c"
  by (simp split: sum.split)

lemma EndTransactionBlock_cases:
  assumes "wf_backend base b" "ready_ok (blocks b)"
  obtains (commits) d where "EndTransactionBlock ch b = Inr (True, d)" "commit_plan (blocks d)" "planned base b d"
      "remarked b d" "\<not> IsAbortedTransactionBlockState b" "live_block (blocks b) \<Longrightarrow> last (blocks d) = TBLOCK_END"
  | (fails) d where "EndTransactionBlock ch b = Inr (False, d)" "rollback_plan (blocks d)" "planned base b d"
      "remarked b d" "IsAbortedTransactionBlockState b"
  | (refused) m where "EndTransactionBlock ch b = Inl (ERROR m, b)" "ch" "\<not> live_block (blocks b)"
      "\<not> IsAbortedTransactionBlockState b"
proof -
  let ?tail = "\<lambda>at c. block_tail at end_block_states ch c"
  have commit: thesis
    if "remarked b c" "commit_plan (blocks c)" "\<not> at \<Longrightarrow> parents c = []" "\<not> IsAbortedTransactionBlockState b"
      "EndTransactionBlock ch b = (case seq [x, ?tail at] b of Inl e \<Rightarrow> Inl e | Inr b' \<Rightarrow> Inr (True, b'))"
      "x b = Inr c" "live_block (blocks b) \<Longrightarrow> last (blocks c) = TBLOCK_END" for at c x
    using marked_tail[OF assms(1) that(1), of end_block_states at ch] commit_plan_ok[OF that(2)] that(2-) commits
      seq_two[of x b c "?tail at"]
    by (auto simp del: seq.simps)
  have abort: thesis
    if "remarked b c" "rollback_plan (blocks c)" "\<not> at \<Longrightarrow> parents c = []" "IsAbortedTransactionBlockState b"
      "EndTransactionBlock ch b = (case seq [x, ?tail at] b of Inl e \<Rightarrow> Inl e | Inr b' \<Rightarrow> Inr (False, b'))"
      "x b = Inr c" for at c x
    using marked_tail[OF assms(1) that(1), of end_block_states at ch] rollback_plan_ok[OF that(2)] that(2-) fails
      seq_two[of x b c "?tail at"]
    by (auto simp del: seq.simps simp: end_block_states_def)
  let ?n = "if_do (\<lambda>b. ch) (raise (ERROR ''COMMIT AND CHAIN can only be used in transaction blocks''))
    (emit (\<lambda>b. [Warning ''there is no transaction in progress'']))"
  let ?w = "b\<lparr>trace := trace b @ [Warning ''there is no transaction in progress'']\<rparr>"
  have n: "?n b = (if ch then Inl (ERROR ''COMMIT AND CHAIN can only be used in transaction blocks'', b) else Inr ?w)"
    by (simp add: stmt_simps)
  have w: "remarked b ?w" by (rule remarked_trace[OF assms(1)])
  note defs = EndTransactionBlock_def Let_def IsAbortedTransactionBlockState_def blocks_Cons
  from assms(2) show thesis
  proof (cases rule: ready_cases)
    case started
    then show thesis
      using commit[OF w, of False ?n] refused n by (cases ch) (simp_all add: defs commit_plan_def stack_def)
  next
    case implicit
    have "\<exists>c. seq [?n, set_blockState TBLOCK_END] b = Inr c \<and> blocks c = [TBLOCK_END] \<and> parents c = [] \<and> remarked b c" if "\<not> ch"
      using marked_block[OF wf_remarked[OF assms(1) w], of TBLOCK_END] implicit that
        seq_two[of ?n b ?w "set_blockState TBLOCK_END"] remarked_trans[OF w] n
      by (auto simp: blocks_Cons same_kind_def simp del: seq.simps)
    then have thesis if "\<not> ch"
      using commit[of _ False "seq [?n, set_blockState TBLOCK_END]", OF _ commit_plan_END] implicit that
      by (auto simp: defs simp del: seq.simps)
    moreover have thesis if ch using refused n implicit that by (simp add: defs)
    ultimately show thesis by blast
  next
    case failed
    then show thesis
      using marked_block[OF assms(1), of TBLOCK_ABORT_END] abort[of _ False "set_blockState TBLOCK_ABORT_END"]
      by (auto simp: defs rollback_plan_def same_kind_def)
  next
    case inblock
    then show thesis
      using marked_block[OF assms(1), of TBLOCK_END] commit[of _ False "set_blockState TBLOCK_END", OF _ commit_plan_END]
      by (auto simp: defs same_kind_def) (auto simp: stack_def)
  next
    case (insub n)
    then have "blocks b = replicate (Suc n) TBLOCK_SUBINPROGRESS @ [TBLOCK_INPROGRESS]" by simp
    from mark_commit[OF this] obtain c where
      "mark_all sub_commit_mark top_commit_mark ''EndTransactionBlock: unexpected state'' b = Inr c"
      "blocks c = replicate (Suc n) TBLOCK_SUBCOMMIT @ [TBLOCK_END]" "remarked b c" by blast
    moreover from this have "commit_plan (blocks c)" unfolding commit_plan_def by blast
    moreover from calculation have "last (blocks c) = TBLOCK_END" by simp
    ultimately show thesis
      using commit[of c True "mark_all sub_commit_mark top_commit_mark ''EndTransactionBlock: unexpected state''"] insub
      by (simp add: defs)
  next
    case (failedsub n)
    then have "blocks b = [TBLOCK_SUBABORT] @ replicate n TBLOCK_SUBINPROGRESS @ [TBLOCK_INPROGRESS]" by simp
    moreover have "set [TBLOCK_SUBABORT] \<subseteq> {TBLOCK_SUBABORT}" by simp
    ultimately obtain c where
      "mark_all sub_abort_mark top_abort_mark ''EndTransactionBlock: unexpected state'' b = Inr c"
      "blocks c = map (\<lambda>_. TBLOCK_SUBABORT_END) [TBLOCK_SUBABORT] @ replicate n TBLOCK_SUBABORT_PENDING @ [TBLOCK_ABORT_PENDING]"
      "remarked b c" using mark_abort[of b "[TBLOCK_SUBABORT]" n] by blast
    moreover from this have "rollback_plan (blocks c)"
      unfolding rollback_plan_def by (intro disjI2 exI[of _ "[TBLOCK_SUBABORT]"] exI[of _ n]) simp
    ultimately show thesis
      using abort[of c True "mark_all sub_abort_mark top_abort_mark ''EndTransactionBlock: unexpected state''"] failedsub
      by (simp add: defs)
  qed
qed

lemma UserAbortTransactionBlock_cases:
  assumes "wf_backend base b" "ready_ok (blocks b)"
  obtains (aborts) d where "UserAbortTransactionBlock ch b = Inr d" "rollback_plan (blocks d)" "planned base b d"
      "remarked b d"
  | (refused) m where "UserAbortTransactionBlock ch b = Inl (ERROR m, b)" "ch" "\<not> live_block (blocks b)"
proof -
  let ?oks = "[TBLOCK_ABORT_END, TBLOCK_ABORT_PENDING]"
  have abort: thesis
    if "remarked b c" "rollback_plan (blocks c)" "\<not> at \<Longrightarrow> parents c = []"
      "UserAbortTransactionBlock ch b = seq [x, block_tail at ?oks ch] b" "x b = Inr c" for at c x
    using marked_tail[OF assms(1) that(1), of ?oks at ch] rollback_plan_ok[OF that(2)] that(2-) aborts
      seq_two[of x b c "block_tail at ?oks ch"]
    by (auto simp del: seq.simps)
  have single: "rollback_plan bs" if "bs = [TBLOCK_ABORT_PENDING]" for bs
    unfolding rollback_plan_def that by (intro disjI2 exI[of _ "[]"] exI[of _ 0]) simp
  let ?n = "if_do (\<lambda>b. ch) (raise (ERROR ''ROLLBACK AND CHAIN can only be used in transaction blocks''))
    (emit (\<lambda>b. [Warning ''there is no transaction in progress'']))"
  let ?w = "b\<lparr>trace := trace b @ [Warning ''there is no transaction in progress'']\<rparr>"
  have n: "?n b = (if ch then Inl (ERROR ''ROLLBACK AND CHAIN can only be used in transaction blocks'', b) else Inr ?w)"
    by (simp add: stmt_simps)
  have w: "remarked b ?w" by (rule remarked_trace[OF assms(1)])
  note defs = UserAbortTransactionBlock_def Let_def blocks_Cons
  let ?m = "mark_all sub_abort_mark top_abort_mark ''UserAbortTransactionBlock: unexpected state''"
  have sub: thesis if bl: "blocks b = hs @ replicate n TBLOCK_SUBINPROGRESS @ [TBLOCK_INPROGRESS]"
      "set hs \<subseteq> {TBLOCK_SUBABORT}" "length hs \<le> 1" "blockState (cur b) \<in> {TBLOCK_SUBINPROGRESS, TBLOCK_SUBABORT}" for hs n
  proof -
    from mark_abort[OF bl(1,2)] obtain c where c: "?m b = Inr c" "remarked b c"
      "blocks c = map (\<lambda>_. TBLOCK_SUBABORT_END) hs @ replicate n TBLOCK_SUBABORT_PENDING @ [TBLOCK_ABORT_PENDING]"
      by blast
    then have "rollback_plan (blocks c)" unfolding rollback_plan_def using bl(3) by blast
    then show thesis using abort[of c True ?m] c bl(4) by (auto simp: defs)
  qed
  have out: thesis if bl: "parents b = []" "blockState (cur b) \<in> {TBLOCK_STARTED, TBLOCK_IMPLICIT_INPROGRESS}"
  proof (cases ch)
    case True
    then show thesis using refused n bl by (auto simp: defs stack_def)
  next
    case False
    have "\<exists>c. seq [?n, set_blockState TBLOCK_ABORT_PENDING] b = Inr c \<and> blocks c = [TBLOCK_ABORT_PENDING] \<and>
        parents c = [] \<and> remarked b c"
      using marked_block[OF wf_remarked[OF assms(1) w], of TBLOCK_ABORT_PENDING] bl False
        seq_two[of ?n b ?w "set_blockState TBLOCK_ABORT_PENDING"] remarked_trans[OF w] n
      by (auto simp: same_kind_def simp del: seq.simps)
    then show thesis
      using abort[of _ False "seq [?n, set_blockState TBLOCK_ABORT_PENDING]", OF _ single] bl False
      by (auto simp: defs simp del: seq.simps)
  qed
  from assms(2) show thesis
  proof (cases rule: ready_cases)
    case failed
    then show thesis
      using marked_block[OF assms(1), of TBLOCK_ABORT_END] abort[of _ False "set_blockState TBLOCK_ABORT_END"]
      by (auto simp: defs rollback_plan_def same_kind_def)
  next
    case inblock
    then show thesis
      using marked_block[OF assms(1), of TBLOCK_ABORT_PENDING]
        abort[of _ False "set_blockState TBLOCK_ABORT_PENDING", OF _ single]
      by (auto simp: defs same_kind_def)
  next
    case (insub n)
    then show thesis using sub[of "[]" "Suc n"] by (simp add: blocks_Cons)
  next
    case (failedsub n)
    then show thesis using sub[of "[TBLOCK_SUBABORT]" n] by (simp add: blocks_Cons)
  qed (use out in \<open>simp_all add: blocks_single\<close>)
qed

lemma PrepareTransactionBlock_cases:
  assumes "wf_backend base b" "ready_ok (blocks b)"
  obtains (prepares) d where "PrepareTransactionBlock gid b = Inr (True, d)" "planned base b d" "prepareGID d = Some gid"
      "last (blocks d) = TBLOCK_PREPARE" "remarked b d" "\<exists>n. blocks d = replicate n TBLOCK_SUBCOMMIT @ [TBLOCK_PREPARE]"
  | (other) d where "PrepareTransactionBlock gid b = Inr (False, d)" "planned base b d" "\<not> live_block (blocks b)"
  using assms
proof (cases rule: EndTransactionBlock_cases[where ch = False])
  case (commits d)
  show thesis
  proof (cases "last (blocks d) = TBLOCK_END")
    case True
    then obtain n where n: "blocks d = replicate n TBLOCK_SUBCOMMIT @ [TBLOCK_END]"
      using commits(2) by (auto simp: commit_plan_def)
    define e where "e = set_top (\<lambda>s. s\<lparr>blockState := TBLOCK_PREPARE\<rparr>) (d\<lparr>prepareGID := Some gid\<rparr>)"
    let ?g = "d\<lparr>prepareGID := Some gid\<rparr>"
    have wd: "wf_backend base d" using commits(3) by (simp add: planned_def)
    have g: "remarked d ?g" using reblock_all[OF wf_entries[OF wd]] by (simp add: remarked_def frame_defs stack_def)
    have t: "blockState (top d) = TBLOCK_END" using True by (simp add: top_def last_map)
    have "remarked ?g e" unfolding e_def
      by (rule remarked_top[OF wf_remarked[OF wd g]], rule reblockI)
         (use t in \<open>simp add: top_def stack_def same_kind_def\<close>)
    then have r: "remarked b e" using commits(4) g remarked_trans by blast
    have "blocks e = butlast (blocks d) @ [TBLOCK_PREPARE]"
      by (simp add: e_def set_top_set_stack stack_set_stack map_butlast) (simp add: stack_def)
    then have be: "blocks e = replicate n TBLOCK_SUBCOMMIT @ [TBLOCK_PREPARE]" using n by simp
    have "planned base b e"
      using be by (intro planned_remarked[OF assms(1) r]) (auto simp: plan_commit)
    moreover have "PrepareTransactionBlock gid b = Inr (True, e)"
      using commits(1) t by (simp add: PrepareTransactionBlock_def e_def)
    moreover have "prepareGID e = Some gid" by (simp add: e_def set_top_def)
    ultimately show thesis using prepares be r by auto
  next
    case False
    then have "blocks d = [TBLOCK_STARTED]" "\<not> live_block (blocks b)"
      using commits(2,6) by (auto simp: commit_plan_def)
    moreover from this have "blockState (top d) = TBLOCK_STARTED" by (simp add: top_def stack_def)
    ultimately show thesis using commits(1,3) other by (simp add: PrepareTransactionBlock_def)
  qed
next
  case (fails d)
  then have "\<not> live_block (blocks b)" using live_cur[of b] by (auto simp: IsAbortedTransactionBlockState_def)
  then show thesis using fails other by (simp add: PrepareTransactionBlock_def)
qed simp

text \<open>Savepoint commands: the guard \<^verbatim>\<open>RequireTransactionBlock\<close> has passed.\<close>

lemma find_savepoint_nth:
  "find_savepoint sp ss = Some t \<Longrightarrow> t < length ss \<and> name (ss ! t) = Some sp \<and> (\<forall>j < t. name (ss ! j) \<noteq> Some sp)"
proof (induction sp ss arbitrary: t rule: find_savepoint.induct)
  case (2 sp s ss)
  then show ?case by (cases t) (auto simp: nth_Cons split: if_splits nat.splits)
qed simp

lemma find_savepoint_none: "find_savepoint sp ss = None \<longleftrightarrow> (\<forall>s \<in> set ss. name s \<noteq> Some sp)"
  by (induction sp ss rule: find_savepoint.induct) auto

lemma stack_ok_last_name: "stack_ok ss \<Longrightarrow> name (last ss) = None"
  by (induction ss rule: stack_ok.induct) auto

lemma savepoint_inner:
  assumes "wf_backend base b" "find_savepoint sp (stack b) = Some t"
  shows "Suc t < length (stack b)"
proof -
  have "name (last (stack b)) = None" using assms(1) by (simp add: wf_backend_def wf_core_def stack_ok_last_name)
  then have "t \<noteq> length (stack b) - 1"
    using find_savepoint_nth[OF assms(2)] by (auto simp: last_conv_nth)
  then show ?thesis using find_savepoint_nth[OF assms(2)] by auto
qed

text \<open>Re-marking the entries down to the savepoint and leaving the outer ones.\<close>

lemma remark_prefix:
  assumes "wf_backend base b" "list_all2 reblock (take k (stack b)) ss"
  shows "remarked b (set_stack (ss @ drop k (stack b)) b)"
proof -
  have "list_all entry_ok (drop k (stack b))"
    using wf_entries[OF assms(1)] by (auto simp: list_all_iff dest: in_set_dropD)
  then have "list_all2 reblock (take k (stack b) @ drop k (stack b)) (ss @ drop k (stack b))"
    using assms(2) reblock_all by (intro list_all2_appendI) auto
  then show ?thesis by (intro remarked_set_stack) simp
qed

lemma live_drop: "live_block bs \<Longrightarrow> k < length bs \<Longrightarrow> live_block (drop k bs)"
proof -
  assume "live_block bs" "k < length bs"
  then obtain n where "bs = replicate n TBLOCK_SUBINPROGRESS @ [TBLOCK_INPROGRESS]" "k \<le> n"
    by (auto simp: live_block_iff)
  then have "drop k bs = replicate (n - k) TBLOCK_SUBINPROGRESS @ [TBLOCK_INPROGRESS]" by simp
  then show ?thesis unfolding live_block_iff by blast
qed

lemma live_take:
  assumes "live_block bs" "k < length bs" shows "take k bs = replicate k TBLOCK_SUBINPROGRESS"
proof -
  obtain n where "bs = replicate n TBLOCK_SUBINPROGRESS @ [TBLOCK_INPROGRESS]" "k \<le> n"
    using assms by (auto simp: live_block_iff)
  then show ?thesis by (simp add: min_def)
qed

lemma ReleaseSavepoint_cases:
  assumes "wf_backend base b" "live_block (blocks b)"
  obtains (releases) d t where "ReleaseSavepoint sp b = Inr d" "find_savepoint sp (stack b) = Some t"
      "Suc t < length (stack b)" "savepointLevel (stack b ! t) = savepointLevel (cur b)"
      "blocks d = replicate (Suc t) TBLOCK_SUBRELEASE @ drop (Suc t) (blocks b)" "planned base b d" "remarked b d"
      "drop (Suc t) (stack d) = drop (Suc t) (stack b)"
  | (refused) m where "ReleaseSavepoint sp b = Inl (ERROR m, b)"
      "\<And>t. find_savepoint sp (stack b) = Some t \<Longrightarrow> savepointLevel (stack b ! t) \<noteq> savepointLevel (cur b)"
proof -
  have np: "\<not> IsInParallelMode b" using assms(1) wf_not_parallel[of base b] by (simp add: wf_backend_def)
  let ?C = "find_savepoint sp (stack b)"
  have none: thesis if "ReleaseSavepoint sp b = Inl (ERROR m, b)"
      "\<And>t. ?C = Some t \<Longrightarrow> savepointLevel (stack b ! t) \<noteq> savepointLevel (cur b)" for m
    using refused that by blast
  show thesis
  proof (cases "parents b = []")
    case True
    then have "blockState (cur b) = TBLOCK_INPROGRESS" "?C = None"
      using assms savepoint_inner[OF assms(1), of sp] by (cases ?C; auto simp: stack_def)+
    then show thesis using np none by (simp add: ReleaseSavepoint_def stmt_simps)
  next
    case False
    then have cur: "blockState (cur b) = TBLOCK_SUBINPROGRESS"
      using assms(2) by (cases "parents b") (auto simp: stack_def)
    have unf: "ReleaseSavepoint sp b = savepoint_target sp (\<lambda>t. seq
         [ assert_that ''xact->blockState == TBLOCK_SUBINPROGRESS''
             (\<lambda>b. list_all (\<lambda>e. blockState e = TBLOCK_SUBINPROGRESS) (take (Suc t) (stack b))),
           upd (\<lambda>b. set_stack (map (\<lambda>e. e\<lparr>blockState := TBLOCK_SUBRELEASE\<rparr>) (take (Suc t) (stack b)) @
                              drop (Suc t) (stack b)) b) ]) b"
      using np cur by (simp add: ReleaseSavepoint_def stmt_simps split: sum.split)
    show thesis
    proof (cases "\<exists>t. ?C = Some t \<and> savepointLevel (stack b ! t) = savepointLevel (cur b)")
      case False
      then show thesis using none by (cases ?C) (auto simp: unf savepoint_target_def stmt_simps)
    next
      case True
      then obtain t where t: "?C = Some t" "savepointLevel (stack b ! t) = savepointLevel (cur b)" by blast
      have len: "Suc t < length (stack b)" using savepoint_inner[OF assms(1) t(1)] .
      have tk: "map blockState (take (Suc t) (stack b)) = replicate (Suc t) TBLOCK_SUBINPROGRESS"
        using live_take[OF assms(2), of "Suc t"] len by (simp add: take_map)
      let ?r = "map (\<lambda>e. e\<lparr>blockState := TBLOCK_SUBRELEASE\<rparr>) (take (Suc t) (stack b))"
      let ?d = "set_stack (?r @ drop (Suc t) (stack b)) b"
      have all: "\<forall>e \<in> set (take (Suc t) (stack b)). blockState e = TBLOCK_SUBINPROGRESS"
        using arg_cong[OF tk, of set] by (auto simp: image_def split: if_splits)
      then have eq: "ReleaseSavepoint sp b = Inr ?d"
        using t by (simp add: unf savepoint_target_def stmt_simps list_all_iff)
      have bd: "blocks ?d = replicate (Suc t) TBLOCK_SUBRELEASE @ drop (Suc t) (blocks b)"
        using len by (simp add: stack_set_stack drop_map map_replicate_const o_def)
      have rm: "remarked b ?d"
        using all by (intro remark_prefix[OF assms(1)])
          (simp add: reblock_map same_kind_def)
      have "planned base b ?d"
        using plan_release[OF live_drop[OF assms(2)], of "Suc t" t] len bd
        by (intro planned_remarked[OF assms(1) rm]) auto
      moreover have "drop (Suc t) (stack ?d) = drop (Suc t) (stack b)"
        using len by (simp add: stack_set_stack)
      ultimately show thesis using releases[OF eq t(1) len t(2) bd] rm by blast
    qed
  qed
qed

text \<open>What \<^verbatim>\<open>RollbackToSavepoint\<close> marks, given the block states down to the savepoint.\<close>

definition rollback_to_marks :: "TBlockState list \<Rightarrow> TBlockState list" where
  "rollback_to_marks bs = map (the \<circ> sub_abort_mark) (butlast bs) @ [the (restart_mark (last bs))]"

lemma rollback_to_plan:
  assumes "bs = x # replicate t TBLOCK_SUBINPROGRESS" "x \<in> {TBLOCK_SUBINPROGRESS, TBLOCK_SUBABORT}" "live_block ts"
  shows "plan_ok (rollback_to_marks bs @ ts)"
proof (cases t)
  case 0
  then show ?thesis using assms by (cases ts) (auto simp: rollback_to_marks_def restart_mark_def)
next
  case (Suc k)
  have "butlast bs = x # replicate k TBLOCK_SUBINPROGRESS" "last bs = TBLOCK_SUBINPROGRESS"
    unfolding assms(1) Suc by (simp_all add: butlast_append replicate_append_same[symmetric] del: replicate_append_same)
  then have "rollback_to_marks bs =
      the (sub_abort_mark x) # replicate k TBLOCK_SUBABORT_PENDING @ [TBLOCK_SUBRESTART]"
    by (simp add: rollback_to_marks_def sub_abort_mark_def restart_mark_def)
  then show ?thesis
    using assms(2) plan_rollback_to[OF assms(3), of "Suc k"] plan_abort_end[of "replicate k TBLOCK_SUBABORT_PENDING @ TBLOCK_SUBRESTART # ts"]
    by (auto simp: sub_abort_mark_def)
qed

lemma RollbackToSavepoint_cases:
  assumes "wf_backend base b" "blocks b = x # ts" "x \<in> {TBLOCK_SUBINPROGRESS, TBLOCK_SUBABORT}" "live_block ts"
  obtains (rolls) d t where "RollbackToSavepoint sp b = Inr d" "find_savepoint sp (stack b) = Some t"
      "Suc t < length (stack b)" "savepointLevel (stack b ! t) = savepointLevel (cur b)"
      "blocks d = rollback_to_marks (take (Suc t) (blocks b)) @ drop (Suc t) (blocks b)" "planned base b d" "remarked b d"
      "drop (Suc t) (stack d) = drop (Suc t) (stack b)"
  | (refused) m where "RollbackToSavepoint sp b = Inl (ERROR m, b)"
      "\<And>t. find_savepoint sp (stack b) = Some t \<Longrightarrow> savepointLevel (stack b ! t) \<noteq> savepointLevel (cur b)"
proof -
  have np: "\<not> IsInParallelMode b" using assms(1) wf_not_parallel[of base b] by (simp add: wf_backend_def)
  let ?C = "find_savepoint sp (stack b)"
  have unf: "RollbackToSavepoint sp b = savepoint_target sp (\<lambda>t b.
         let (ss, ok) = mark_stack sub_abort_mark restart_mark (take (Suc t) (stack b));
             b' = set_stack (ss @ drop (Suc t) (stack b)) b in
         if ok then Inr b' else Inl (FATAL ''RollbackToSavepoint: unexpected state'', b')) b"
    using np assms(2,3) by (auto simp: RollbackToSavepoint_def stmt_simps blocks_Cons split: sum.split)
  show thesis
  proof (cases "\<exists>t. ?C = Some t \<and> savepointLevel (stack b ! t) = savepointLevel (cur b)")
    case False
    then show thesis using refused by (cases ?C) (auto simp: unf savepoint_target_def stmt_simps)
  next
    case True
    then obtain t where t: "?C = Some t" "savepointLevel (stack b ! t) = savepointLevel (cur b)" by blast
    have len: "Suc t < length (stack b)" using savepoint_inner[OF assms(1) t(1)] .
    then have lt: "t < length ts" using assms(2) by (metis Suc_less_SucD length_Cons length_map)
    let ?p = "take (Suc t) (stack b)"
    have tk: "map blockState ?p = x # replicate t TBLOCK_SUBINPROGRESS"
      using live_take[OF assms(4) lt] assms(2) by (simp flip: take_map)
    have mem: "blockState s \<in> {TBLOCK_SUBINPROGRESS, TBLOCK_SUBABORT}" if "s \<in> set ?p" for s
      using arg_cong[OF tk, of set] assms(3) that by (auto split: if_splits)
    have ne: "?p \<noteq> []" using len by auto
    note bm = mem[OF in_set_butlastD] and lm = mem[OF last_in_set[OF ne]]
    let ?r = "map (\<lambda>s. s\<lparr>blockState := the (sub_abort_mark (blockState s))\<rparr>) (butlast ?p) @
           [(last ?p)\<lparr>blockState := the (restart_mark (blockState (last ?p)))\<rparr>]"
    let ?d = "set_stack (?r @ drop (Suc t) (stack b)) b"
    have kinds: "sub_abort_mark y \<noteq> None" "same_kind y (the (sub_abort_mark y))" "restart_mark y \<noteq> None"
      "same_kind y (the (restart_mark y))" if "y \<in> {TBLOCK_SUBINPROGRESS, TBLOCK_SUBABORT}" for y
      using that by (auto simp: sub_abort_mark_def restart_mark_def same_kind_def)
    have "mark_stack sub_abort_mark restart_mark ?p = (?r, True)"
      by (intro mark_stack_ok[OF ne] ballI kinds bm lm)
    then have eq: "RollbackToSavepoint sp b = Inr ?d"
      using t by (simp add: unf savepoint_target_def stmt_simps)
    have bd: "blocks ?d = rollback_to_marks (take (Suc t) (blocks b)) @ drop (Suc t) (blocks b)"
      using ne by (simp add: stack_set_stack rollback_to_marks_def take_map drop_map map_butlast[symmetric] last_map)
    have rm: "remarked b ?d"
      by (intro remark_prefix[OF assms(1)] list_all2_marks[OF ne] reblockI kinds bm lm)
    have "live_block (drop (Suc t) (blocks b))" using live_drop[OF assms(4) lt] assms(2) by simp
    then have "planned base b ?d"
      using rollback_to_plan[OF tk[folded take_map] assms(3)] bd
      by (intro planned_remarked[OF assms(1) rm]) (auto simp: rollback_to_marks_def append_eq_Cons_conv)
    moreover have "length ?r = Suc t" using len by simp
    then have "drop (Suc t) (stack ?d) = drop (Suc t) (stack b)"
      by (simp add: stack_set_stack)
    ultimately show thesis using rolls[OF eq t(1) len t(2) bd] rm by blast
  qed
qed
end
