(* ===== verification/FD_Trigger.thy ===== *)
theory FD_Trigger
  imports Xact_Block
begin

section \<open>Functional dependencies (postgres.c): recognising the command, generating the trigger\<close>

text \<open>
  A functional dependency is declared by inserting into \<^verbatim>\<open>FD_table\<close>. \<^verbatim>\<open>exec_simple_query\<close>
  recognises such a command textually, cuts the identifiers out of it and calls
  \<^verbatim>\<open>add_trigger\<close>, which creates a trigger function and a trigger through the server
  programming interface. The query string is a C string: index \<open>length q\<close> holds the
  terminating NUL, and every access beyond it, like every write past the end of a fixed
  buffer, is undefined behaviour.
\<close>

abbreviation NUL :: char where "NUL \<equiv> CHR 0x00"
abbreviation QUOTE :: char where "QUOTE \<equiv> CHR 0x27"
abbreviation DQUOTE :: char where "DQUOTE \<equiv> CHR 0x22"

definition c_at :: "string \<Rightarrow> nat \<Rightarrow> char option" where
  "c_at s i = (if i < length s then Some (s ! i) else if i = length s then Some NUL else None)"

lemma c_at_bound: "c_at s i = Some c \<Longrightarrow> i \<le> length s"
  by (auto simp: c_at_def split: if_splits)

subsection \<open>Recognising the command\<close>

text \<open>\<^verbatim>\<open>insert into FD_table values ('\<close>, compared without regard to case by \<^verbatim>\<open>strcasecmp\<close>.\<close>

definition fd_query_prefix :: string where
  "fd_query_prefix = ''insert into FD_table values ('' @ [QUOTE]"

definition tolower :: "char \<Rightarrow> char" where
  "tolower c = (let n = (of_char c :: nat) in if 65 \<le> n \<and> n \<le> 90 then char_of (n + 32) else c)"

text \<open>The copy into \<^verbatim>\<open>char temp[1000]\<close> by \<^verbatim>\<open>strcpy\<close> comes first.\<close>

definition is_fd_query :: "string \<Rightarrow> string + bool" where
  "is_fd_query q =
     (if length q + 1 > 1000 then Inl ''strcpy past the end of temp''
      else Inr (map tolower (take (length fd_query_prefix) q) = map tolower fd_query_prefix))"

subsection \<open>Cutting out the identifiers\<close>

text \<open>The loops that copy characters up to the next single quote into a buffer of \<open>cap\<close> bytes.\<close>

function copy_until_quote :: "nat \<Rightarrow> string \<Rightarrow> nat \<Rightarrow> string \<Rightarrow> string + (string \<times> nat)" where
  "copy_until_quote cap q i acc =
     (case c_at q i of
        None \<Rightarrow> Inl ''read past the end of query_string''
      | Some c \<Rightarrow>
          if length acc \<ge> cap then Inl ''write past the end of the buffer''
          else if c = QUOTE then Inr (acc, i)
          else copy_until_quote cap q (i + 1) (acc @ [c]))"
  by pat_completeness auto
termination
  by (relation "measure (\<lambda>(cap, q, i, acc). length q + 1 - i)") (auto dest: c_at_bound)

declare copy_until_quote.simps [simp del]

text \<open>
  The loops that collect the column names: \<open>buf\<close> is what has been written to \<^verbatim>\<open>ptr\<close>, so
  \<^verbatim>\<open>cidx\<close> is its length; \<open>names\<close> are the offsets stored in \<^verbatim>\<open>lhs\<close> or \<^verbatim>\<open>rhs\<close>. A closing
  quote also consumes the character after it. Characters outside quotes go to the buffer
  too. The result index is that of the closing brace.
\<close>

definition PTR_SIZE :: nat where "PTR_SIZE = 10000"
definition NAMES_SIZE :: nat where "NAMES_SIZE = 100"

function scan_names ::
    "string \<Rightarrow> nat \<Rightarrow> bool \<Rightarrow> nat \<Rightarrow> string \<Rightarrow> nat list \<Rightarrow> string + (nat \<times> string \<times> nat list)" where
  "scan_names q i flag start_idx buf names =
     (case c_at q i of
        None \<Rightarrow> Inl ''read past the end of query_string''
      | Some c \<Rightarrow>
          if c = DQUOTE then
            (if flag then
               (if length buf \<ge> PTR_SIZE then Inl ''write past the end of ptr''
                else if length names \<ge> NAMES_SIZE then Inl ''write past the end of the name array''
                else case c_at q (i + 1) of
                    None \<Rightarrow> Inl ''read past the end of query_string''
                  | Some d \<Rightarrow>
                      if d = CHR 0x7D then Inr (i + 1, buf @ [NUL], names @ [start_idx])
                      else scan_names q (i + 2) False start_idx (buf @ [NUL]) (names @ [start_idx]))
             else scan_names q (i + 1) True (length buf) buf names)
          else if length buf \<ge> PTR_SIZE then Inl ''write past the end of ptr''
          else scan_names q (i + 1) flag start_idx (buf @ [c]) names)"
  by pat_completeness auto
termination
  by (relation "measure (\<lambda>(q, i, flag, start_idx, buf, names). length q + 1 - i)")
     (auto dest: c_at_bound)

declare scan_names.simps [simp del]

definition cstr_at :: "string \<Rightarrow> nat \<Rightarrow> string" where
  "cstr_at buf off = takeWhile (\<lambda>c. c \<noteq> NUL) (drop off buf)"

text \<open>
  The four loops in sequence. The second name list continues in the same buffer;
  \<^verbatim>\<open>flag\<close> is 0 again and \<^verbatim>\<open>start_idx\<close> is set before it is next read.
\<close>

definition parse_fd_query :: "string \<Rightarrow> string + (string \<times> string \<times> string list \<times> string list)" where
  "parse_fd_query q =
     (case copy_until_quote 100 q (length fd_query_prefix) [] of
        Inl e \<Rightarrow> Inl e
      | Inr (fd_id, i1) \<Rightarrow>
     (case copy_until_quote 100 q (i1 + 3) [] of
        Inl e \<Rightarrow> Inl e
      | Inr (relation, i2) \<Rightarrow>
     (case scan_names q (i2 + 4) False 0 [] [] of
        Inl e \<Rightarrow> Inl e
      | Inr (i3, buf, ls) \<Rightarrow>
     (case scan_names q (i3 + 5) False 0 buf [] of
        Inl e \<Rightarrow> Inl e
      | Inr (i4, buf', rs) \<Rightarrow>
          Inr (fd_id, relation, map (cstr_at buf') ls, map (cstr_at buf') rs)))))"

subsection \<open>The trigger text\<close>

text \<open>The three loops over \<^verbatim>\<open>append\<close>: names separated by commas, and the condition.\<close>

fun join_with :: "string \<Rightarrow> string list \<Rightarrow> string" where
  "join_with sep [] = []"
| "join_with sep [x] = x"
| "join_with sep (x # y # xs) = x @ sep @ join_with sep (y # xs)"

definition trigger_cond :: "string list \<Rightarrow> string" where
  "trigger_cond lhs = join_with '' AND '' (map (\<lambda>a. a @ ''=NEW.'' @ a) lhs)"

definition tabs :: "nat \<Rightarrow> string" where
  "tabs n = replicate n (CHR 0x09)"

text \<open>The \<^verbatim>\<open>sprintf\<close> template; continued source lines keep their leading tabs.\<close>

definition trigger_command :: "string \<Rightarrow> string \<Rightarrow> string \<Rightarrow> string \<Rightarrow> string" where
  "trigger_command fd_id R relation cond =
     ''CREATE FUNCTION '' @ fd_id @ ''_check() RETURNS TRIGGER language plpgsql '' @
     tabs 3 @ ''as $$'' @
     tabs 3 @ ''declare '' @
     tabs 4 @ ''cnt integer;'' @
     tabs 3 @ ''begin'' @
     tabs 4 @ ''SELECT COUNT(DISTINCT '' @ R @ '')  '' @
     tabs 4 @ ''INTO cnt'' @
     tabs 4 @ ''FROM '' @ relation @ '' '' @
     tabs 4 @ ''WHERE '' @ cond @ '' ;'' @
     tabs 4 @ ''if cnt > 1 THEN '' @
     tabs 4 @ ''RAISE EXCEPTION '' @ [QUOTE] @ ''Functional dependency fd1 failed'' @ [QUOTE] @ ''; '' @
     tabs 4 @ ''END IF;'' @
     tabs 3 @ ''end;'' @
     tabs 3 @ ''$$ ;'' @
     tabs 3 @ ''CREATE TRIGGER trigg_'' @ fd_id @ '' BEFORE INSERT OR UPDATE ON '' @ relation @ '' '' @
     tabs 3 @ ''FOR EACH ROW '' @
     tabs 3 @ ''EXECUTE FUNCTION '' @ fd_id @ ''_check();''"

subsection \<open>The server programming interface, as far as add_trigger uses it\<close>

datatype CmdType = CMD_UNKNOWN | CMD_SELECT | CMD_UPDATE | CMD_INSERT | CMD_DELETE | CMD_UTILITY | CMD_NOTHING

text \<open>
  The utility nodes the interface looks at; for \<^verbatim>\<open>CopyStmt\<close>, whether there is a file name.
  \<open>requiresSnapshot\<close> is the answer of \<^verbatim>\<open>PlannedStmtRequiresSnapshot\<close>.
\<close>

datatype utility_node = CopyStmt bool | TransactionStmtNode | CreateTableAsStmt bool | OtherUtility

record PlannedStmt =
  commandType :: CmdType
  rowMarks :: bool
  hasModifyingCTE :: bool
  utilityStmt :: "utility_node option"
  canSetTag :: bool
  requiresSnapshot :: bool

definition CommandIsReadOnly :: "PlannedStmt \<Rightarrow> bool" where
  "CommandIsReadOnly pstmt =
     (case commandType pstmt of
        CMD_SELECT \<Rightarrow> (if rowMarks pstmt then False else if hasModifyingCTE pstmt then False else True)
      | CMD_UPDATE \<Rightarrow> False | CMD_INSERT \<Rightarrow> False | CMD_DELETE \<Rightarrow> False
      | CMD_UTILITY \<Rightarrow> False
      | _ \<Rightarrow> False)"

definition SPI_ERROR_COPY :: int where "SPI_ERROR_COPY = -2"
definition SPI_ERROR_TRANSACTION :: int where "SPI_ERROR_TRANSACTION = -8"
definition SPI_OK_UTILITY :: int where "SPI_OK_UTILITY = 4"
definition SPI_OK_SELINTO :: int where "SPI_OK_SELINTO = 6"
definition SPI_OK_REWRITTEN :: int where "SPI_OK_REWRITTEN = 14"

text \<open>
  The body of the loop over planned statements in \<^verbatim>\<open>_SPI_execute_plan\<close>, which runs a
  statement through \<open>pquery\<close> (\<^verbatim>\<open>_SPI_pquery\<close>) or \<open>utility\<close> (\<^verbatim>\<open>ProcessUtility\<close>). \<open>pushed\<close> is
  \<^verbatim>\<open>pushed_active_snap\<close>; the boolean of the result tells that the loops were left through
  \<^verbatim>\<open>goto fail\<close>.
\<close>

definition spi_stmt ::
    "(PlannedStmt \<Rightarrow> backend \<Rightarrow> (backend, int) vres) \<Rightarrow> (PlannedStmt \<Rightarrow> xstmt) \<Rightarrow> bool \<Rightarrow> bool \<Rightarrow>
     PlannedStmt \<Rightarrow> int \<Rightarrow> backend \<Rightarrow> (backend, int \<times> bool) vres" where
  "spi_stmt pquery utility read_only pushed stmt my_res b =
     (if utilityStmt stmt = Some (CopyStmt False) then Inr ((SPI_ERROR_COPY, True), b)
      else if utilityStmt stmt = Some TransactionStmtNode then Inr ((SPI_ERROR_TRANSACTION, True), b)
      else if read_only \<and> \<not> CommandIsReadOnly stmt
      then Inl (ERROR ''command is not allowed in a non-volatile function'', b)
      else
        (case (if \<not> read_only \<and> pushed then CommandCounterIncrement b else Inr b) of
           Inl e \<Rightarrow> Inl e
         | Inr b1 \<Rightarrow>
           (case (case utilityStmt stmt of
                    None \<Rightarrow> pquery stmt b1
                  | Some u \<Rightarrow>
                      (case utility stmt b1 of
                         Inl e \<Rightarrow> Inl e
                       | Inr b2 \<Rightarrow> Inr (if u = CreateTableAsStmt True then SPI_OK_SELINTO
                                      else SPI_OK_UTILITY, b2))) of
              Inl e \<Rightarrow> Inl e
            | Inr (res, b2) \<Rightarrow>
                let my_res' = (if canSetTag stmt then res else my_res) in
                if res < 0 then Inr ((res, True), b2) else Inr ((my_res', False), b2))))"

fun spi_stmts ::
    "(PlannedStmt \<Rightarrow> backend \<Rightarrow> (backend, int) vres) \<Rightarrow> (PlannedStmt \<Rightarrow> xstmt) \<Rightarrow> bool \<Rightarrow> bool \<Rightarrow>
     PlannedStmt list \<Rightarrow> int \<Rightarrow> backend \<Rightarrow> (backend, int \<times> bool) vres" where
  "spi_stmts pquery utility read_only pushed [] my_res b = Inr ((my_res, False), b)"
| "spi_stmts pquery utility read_only pushed (s # ss) my_res b =
     (case spi_stmt pquery utility read_only pushed s my_res b of
        Inl e \<Rightarrow> Inl e
      | Inr ((r, failed), b') \<Rightarrow>
          if failed then Inr ((r, True), b') else spi_stmts pquery utility read_only pushed ss r b')"

text \<open>
  \<open>spi\<close> stands for what this theory does not model: \<^verbatim>\<open>raw_parser\<close> (\<open>spi_parse\<close>, which may reject the
  text), the analysis and planning of one raw statement (\<open>spi_plan\<close>, which may raise), and the
  execution of one planned statement. Raw statements are represented by their text.
\<close>

record spi =
  spi_parse :: "string \<Rightarrow> string + string list"
  spi_plan :: "string \<Rightarrow> backend \<Rightarrow> (backend, PlannedStmt list) vres"
  spi_pquery :: "PlannedStmt \<Rightarrow> backend \<Rightarrow> (backend, int) vres"
  spi_utility :: "PlannedStmt \<Rightarrow> xstmt"

definition snapshot_needed :: "PlannedStmt list \<Rightarrow> bool" where
  "snapshot_needed p \<longleftrightarrow> length p > 1 \<or> length p = 1 \<and> requiresSnapshot (hd p)"

text \<open>
  The outer loop of \<^verbatim>\<open>_SPI_execute_plan\<close>, over the one-shot plan sources: each is analysed and
  planned when its turn comes.
\<close>

fun spi_sources :: "spi \<Rightarrow> bool \<Rightarrow> bool \<Rightarrow> string list \<Rightarrow> int \<Rightarrow> backend \<Rightarrow> (backend, int) vres" where
  "spi_sources x read_only pushed [] my_res b = Inr (if my_res = 0 then SPI_OK_REWRITTEN else my_res, b)"
| "spi_sources x read_only pushed (src # srcs) my_res b =
     (case spi_plan x src b of
        Inl e \<Rightarrow> Inl e
      | Inr (p, b1) \<Rightarrow>
          let pushed' = (pushed \<or> snapshot_needed p \<and> \<not> read_only) in
          case spi_stmts (spi_pquery x) (spi_utility x) read_only pushed' p my_res b1 of
            Inl e \<Rightarrow> Inl e
          | Inr ((r, failed), b2) \<Rightarrow>
              if failed then Inr (if r = 0 then SPI_OK_REWRITTEN else r, b2)
              else case (if read_only then Inr b2 else CommandCounterIncrement b2) of
                  Inl e \<Rightarrow> Inl e
                | Inr b3 \<Rightarrow> spi_sources x read_only pushed' srcs r b3)"

text \<open>
  \<^verbatim>\<open>SPI_execute\<close> with an open connection: \<^verbatim>\<open>_SPI_prepare_oneshot_plan\<close> parses the whole text, then the
  plan is executed.
\<close>

definition SPI_execute :: "spi \<Rightarrow> string \<Rightarrow> bool \<Rightarrow> backend \<Rightarrow> (backend, int) vres" where
  "SPI_execute x src read_only b =
     (case spi_parse x src of
        Inl m \<Rightarrow> Inl (ERROR m, b)
      | Inr sources \<Rightarrow> spi_sources x read_only False sources 0 b)"

subsection \<open>add_trigger\<close>

text \<open>
  The four work areas have 10000 bytes each. \<^verbatim>\<open>command\<close> was obtained from \<^verbatim>\<open>malloc\<close>, so the
  final \<^verbatim>\<open>pfree\<close> reads a chunk header that is not there.
\<close>

definition fits :: "string \<Rightarrow> xstmt" where
  "fits s = when_do (\<lambda>b. length s + 1 > 10000) (raise (UndefinedBehaviour ''write past the end of the work area''))"

definition add_trigger :: "spi \<Rightarrow> string \<Rightarrow> string \<Rightarrow> string list \<Rightarrow> string list \<Rightarrow> xstmt" where
  "add_trigger x fd_id relation lhs rhs =
     (let R = join_with '','' rhs; cond = trigger_cond lhs;
          command = trigger_command fd_id R relation cond in seq
     [ StartTransactionCommand,
       emit (\<lambda>b. [Call ''SPI_connect'' [], Call ''PushActiveSnapshot'' []]),
       fits (join_with '','' lhs), fits R, fits cond, fits command,
       let_do (SPI_execute x command True) (\<lambda>ret.
         when_do (\<lambda>b. ret \<noteq> SPI_OK_UTILITY) (raise (ERROR ''ALTER command failed''))),
       emit (\<lambda>b. [Call ''SPI_finish'' [], Call ''PopActiveSnapshot'' []]),
       CommitTransactionCommand,
       raise (UndefinedBehaviour ''pfree of memory obtained from malloc'') ])"

text \<open>The part of \<^verbatim>\<open>exec_simple_query\<close> that precedes the processing of the query proper.\<close>

definition fd_prologue :: "spi \<Rightarrow> string \<Rightarrow> xstmt" where
  "fd_prologue x q =
     (case is_fd_query q of
        Inl e \<Rightarrow> raise (UndefinedBehaviour e)
      | Inr False \<Rightarrow> seq []
      | Inr True \<Rightarrow>
          (case parse_fd_query q of
             Inl e \<Rightarrow> raise (UndefinedBehaviour e)
           | Inr (fd_id, relation, lhs, rhs) \<Rightarrow> add_trigger x fd_id relation lhs rhs))"

subsection \<open>What the generated trigger computes\<close>

text \<open>
  The statement inside the generated function for one right-hand column: \<^verbatim>\<open>COUNT(DISTINCT c)\<close>
  over the rows of the table, as they are before the new row is stored, that agree with
  \<^verbatim>\<open>NEW\<close> on the left-hand columns. NULL compares with nothing and is not counted.
\<close>

type_synonym 'v row = "string \<Rightarrow> 'v option"

definition row_matches :: "string list \<Rightarrow> 'v row \<Rightarrow> 'v row \<Rightarrow> bool" where
  "row_matches lhs new r = list_all (\<lambda>a. r a \<noteq> None \<and> new a \<noteq> None \<and> r a = new a) lhs"

definition trigger_count :: "string list \<Rightarrow> string \<Rightarrow> 'v row list \<Rightarrow> 'v row \<Rightarrow> nat" where
  "trigger_count lhs c rows new =
     length (remdups (List.map_filter (\<lambda>r. if row_matches lhs new r then r c else None) rows))"

text \<open>
  The function body: raise if the count exceeds one, otherwise reach the end. PL/pgSQL
  raises there as well, since a trigger function must return.
\<close>

definition trigger_body :: "string list \<Rightarrow> string \<Rightarrow> 'v row list \<Rightarrow> 'v row \<Rightarrow> string + 'v row" where
  "trigger_body lhs c rows new =
     (if trigger_count lhs c rows new > 1 then Inl ''Functional dependency fd1 failed''
      else Inl ''control reached end of trigger procedure without RETURN'')"

end
