(* ===== verification/Session.thy ===== *)
theory Session
  imports FD_Trigger
begin

section \<open>Executing a simple query (postgres.c, utility.c, variable.c)\<close>

text \<open>
  The traffic cop as far as transaction control goes: the check hooks of the transaction
  characteristics, the \<^verbatim>\<open>TransactionStmt\<close> branch of \<^verbatim>\<open>standard_ProcessUtility\<close>, the loop of
  \<^verbatim>\<open>exec_simple_query\<close> over the statements of a query string, and the error recovery of
  \<^verbatim>\<open>PostgresMain\<close>. What any other statement does is the argument \<open>run\<close>; parsing is the
  argument \<open>parse\<close>.
\<close>

subsection \<open>Transaction characteristics\<close>

definition XACT_SERIALIZABLE :: nat where "XACT_SERIALIZABLE = 3"

definition check_transaction_read_only :: "bool \<Rightarrow> backend \<Rightarrow> bool" where
  "check_transaction_read_only newval b =
     (if newval = False \<and> XactReadOnly b \<and> IsTransactionState b then
        (if IsSubTransaction b then False
         else if FirstSnapshotSet (env b) then False
         else if RecoveryInProgress (env b) then False
         else True)
      else True)"

definition check_XactIsoLevel :: "nat \<Rightarrow> backend \<Rightarrow> bool" where
  "check_XactIsoLevel newXactIsoLevel b =
     (if newXactIsoLevel \<noteq> XactIsoLevel b \<and> IsTransactionState b then
        (if FirstSnapshotSet (env b) then False
         else if IsSubTransaction b then False
         else if newXactIsoLevel = XACT_SERIALIZABLE \<and> RecoveryInProgress (env b) then False
         else True)
      else True)"

definition check_transaction_deferrable :: "bool \<Rightarrow> backend \<Rightarrow> bool" where
  "check_transaction_deferrable newval b =
     (if IsSubTransaction b then False else if FirstSnapshotSet (env b) then False else True)"

datatype xact_option =
    transaction_isolation nat | transaction_read_only bool | transaction_deferrable bool

text \<open>\<^verbatim>\<open>SetPGVariable\<close> on one of the three variables: the check hook, then the assignment.\<close>

fun SetPGVariable :: "xact_option \<Rightarrow> xstmt" where
  "SetPGVariable (transaction_isolation v) b =
     (if check_XactIsoLevel v b then Inr (b\<lparr>XactIsoLevel := v\<rparr>)
      else raise (ERROR ''SET TRANSACTION ISOLATION LEVEL'') b)"
| "SetPGVariable (transaction_read_only v) b =
     (if check_transaction_read_only v b then Inr (b\<lparr>XactReadOnly := v\<rparr>)
      else raise (ERROR ''cannot set transaction read-write mode'') b)"
| "SetPGVariable (transaction_deferrable v) b =
     (if check_transaction_deferrable v b then Inr (b\<lparr>XactDeferrable := v\<rparr>)
      else raise (ERROR ''SET TRANSACTION [NOT] DEFERRABLE'') b)"

subsection \<open>Transaction statements\<close>

datatype TransactionStmt =
    TRANS_STMT_BEGIN "xact_option list" | TRANS_STMT_START "xact_option list"
  | TRANS_STMT_COMMIT bool | TRANS_STMT_ROLLBACK bool
  | TRANS_STMT_SAVEPOINT string | TRANS_STMT_RELEASE string | TRANS_STMT_ROLLBACK_TO string
  | TRANS_STMT_PREPARE string | TRANS_STMT_COMMIT_PREPARED string | TRANS_STMT_ROLLBACK_PREPARED string

text \<open>
  \<^verbatim>\<open>ClassifyUtilityCommandAsReadOnly\<close> for these nodes: \<open>True\<close> is
  \<^verbatim>\<open>COMMAND_IS_STRICTLY_READ_ONLY\<close>, \<open>False\<close> is \<^verbatim>\<open>COMMAND_OK_IN_READ_ONLY_TXN\<close>.
\<close>

fun strictly_read_only :: "TransactionStmt \<Rightarrow> bool" where
  "strictly_read_only (TRANS_STMT_BEGIN _) = True"
| "strictly_read_only (TRANS_STMT_START _) = True"
| "strictly_read_only (TRANS_STMT_COMMIT _) = True"
| "strictly_read_only (TRANS_STMT_ROLLBACK _) = True"
| "strictly_read_only (TRANS_STMT_SAVEPOINT _) = True"
| "strictly_read_only (TRANS_STMT_RELEASE _) = True"
| "strictly_read_only (TRANS_STMT_ROLLBACK_TO _) = True"
| "strictly_read_only (TRANS_STMT_PREPARE _) = False"
| "strictly_read_only (TRANS_STMT_COMMIT_PREPARED _) = False"
| "strictly_read_only (TRANS_STMT_ROLLBACK_PREPARED _) = False"

definition utility_read_only_checks :: "TransactionStmt \<Rightarrow> xstmt" where
  "utility_read_only_checks stmt =
     when_do (\<lambda>b. \<not> strictly_read_only stmt \<and> (XactReadOnly b \<or> IsInParallelMode b)) (seq
       [ when_do IsInParallelMode (raise (ERROR ''cannot execute during a parallel operation'')),
         when_do (\<lambda>b. RecoveryInProgress (env b)) (raise (ERROR ''cannot execute during recovery'')) ])"

text \<open>
  The switch over \<^verbatim>\<open>stmt->kind\<close>. The boolean of the result tells that the completion tag
  became \<^verbatim>\<open>ROLLBACK\<close>.
\<close>

definition keep_tag :: "xstmt \<Rightarrow> backend \<Rightarrow> (backend, bool) vres" where
  "keep_tag f b = (case f b of Inl e \<Rightarrow> Inl e | Inr b' \<Rightarrow> Inr (False, b'))"

definition commit_tag :: "(backend, bool) vres \<Rightarrow> (backend, bool) vres" where
  "commit_tag r = (case r of Inl e \<Rightarrow> Inl e | Inr (done, b') \<Rightarrow> Inr (\<not> done, b'))"

fun transaction_stmt_switch :: "bool \<Rightarrow> TransactionStmt \<Rightarrow> backend \<Rightarrow> (backend, bool) vres" where
  "transaction_stmt_switch isTopLevel (TRANS_STMT_BEGIN options) b =
     keep_tag (seq (BeginTransactionBlock # map SetPGVariable options)) b"
| "transaction_stmt_switch isTopLevel (TRANS_STMT_START options) b =
     keep_tag (seq (BeginTransactionBlock # map SetPGVariable options)) b"
| "transaction_stmt_switch isTopLevel (TRANS_STMT_COMMIT ch) b = commit_tag (EndTransactionBlock ch b)"
| "transaction_stmt_switch isTopLevel (TRANS_STMT_PREPARE gid) b = commit_tag (PrepareTransactionBlock gid b)"
| "transaction_stmt_switch isTopLevel (TRANS_STMT_COMMIT_PREPARED gid) b =
     keep_tag (seq [ PreventInTransactionBlock isTopLevel ''COMMIT PREPARED'',
                     ext ''FinishPreparedTransaction'' [ABool True] ]) b"
| "transaction_stmt_switch isTopLevel (TRANS_STMT_ROLLBACK_PREPARED gid) b =
     keep_tag (seq [ PreventInTransactionBlock isTopLevel ''ROLLBACK PREPARED'',
                     ext ''FinishPreparedTransaction'' [ABool False] ]) b"
| "transaction_stmt_switch isTopLevel (TRANS_STMT_ROLLBACK ch) b =
     keep_tag (UserAbortTransactionBlock ch) b"
| "transaction_stmt_switch isTopLevel (TRANS_STMT_SAVEPOINT sp) b =
     keep_tag (seq [RequireTransactionBlock isTopLevel ''SAVEPOINT'', DefineSavepoint (Some sp)]) b"
| "transaction_stmt_switch isTopLevel (TRANS_STMT_RELEASE sp) b =
     keep_tag (seq [RequireTransactionBlock isTopLevel ''RELEASE SAVEPOINT'', ReleaseSavepoint sp]) b"
| "transaction_stmt_switch isTopLevel (TRANS_STMT_ROLLBACK_TO sp) b =
     keep_tag (seq [RequireTransactionBlock isTopLevel ''ROLLBACK TO SAVEPOINT'', RollbackToSavepoint sp]) b"

definition standard_ProcessUtility :: "bool \<Rightarrow> TransactionStmt \<Rightarrow> backend \<Rightarrow> (backend, bool) vres" where
  "standard_ProcessUtility isTopLevel stmt b =
     (case utility_read_only_checks stmt b of
        Inl e \<Rightarrow> Inl e
      | Inr b' \<Rightarrow> transaction_stmt_switch isTopLevel stmt b')"

subsection \<open>The session\<close>

record session =
  sess :: backend
  xact_started :: bool

definition on_backend :: "xstmt \<Rightarrow> session stmt" where
  "on_backend f s =
     (case f (sess s) of Inl (e, b) \<Rightarrow> Inl (e, s\<lparr>sess := b\<rparr>) | Inr b \<Rightarrow> Inr (s\<lparr>sess := b\<rparr>))"

definition start_xact_command :: "session stmt" where
  "start_xact_command = when_do (\<lambda>s. \<not> xact_started s)
     (seq [on_backend StartTransactionCommand, upd (\<lambda>s. s\<lparr>xact_started := True\<rparr>)])"

definition finish_xact_command :: "session stmt" where
  "finish_xact_command = when_do xact_started
     (seq [on_backend CommitTransactionCommand, upd (\<lambda>s. s\<lparr>xact_started := False\<rparr>)])"

datatype 'q raw_stmt = RawTransaction TransactionStmt | RawOther 'q

fun IsTransactionExitStmt :: "'q raw_stmt \<Rightarrow> bool" where
  "IsTransactionExitStmt (RawTransaction (TRANS_STMT_COMMIT _)) = True"
| "IsTransactionExitStmt (RawTransaction (TRANS_STMT_PREPARE _)) = True"
| "IsTransactionExitStmt (RawTransaction (TRANS_STMT_ROLLBACK _)) = True"
| "IsTransactionExitStmt (RawTransaction (TRANS_STMT_ROLLBACK_TO _)) = True"
| "IsTransactionExitStmt _ = False"

fun is_transaction_stmt :: "'q raw_stmt \<Rightarrow> bool" where
  "is_transaction_stmt (RawTransaction _) = True"
| "is_transaction_stmt (RawOther _) = False"

text \<open>Analysis, planning and \<^verbatim>\<open>PortalRun\<close> of one statement, always at top level.\<close>

fun run_stmt :: "('q \<Rightarrow> xstmt) \<Rightarrow> 'q raw_stmt \<Rightarrow> xstmt" where
  "run_stmt run (RawTransaction t) b =
     (case standard_ProcessUtility True t b of Inl e \<Rightarrow> Inl e | Inr (tag, b') \<Rightarrow> Inr b')"
| "run_stmt run (RawOther q) b = run q b"

text \<open>The end of one round of the loop: \<open>is_last\<close> tells that no statement follows.\<close>

definition finish_stmt :: "bool \<Rightarrow> bool \<Rightarrow> 'q raw_stmt \<Rightarrow> session stmt" where
  "finish_stmt use_implicit_block is_last stmt =
     (if is_last then seq
        [ when_do (\<lambda>s. use_implicit_block) (upd (\<lambda>s. s\<lparr>sess := EndImplicitTransactionBlock (sess s)\<rparr>)),
          finish_xact_command ]
      else if is_transaction_stmt stmt then finish_xact_command
      else seq
        [ assert_that ''!(MyXactFlags & XACT_FLAGS_NEEDIMMEDIATECOMMIT)''
            (\<lambda>s. and (MyXactFlags (sess s)) XACT_FLAGS_NEEDIMMEDIATECOMMIT = 0),
          on_backend CommandCounterIncrement ])"

definition exec_stmt :: "('q \<Rightarrow> xstmt) \<Rightarrow> bool \<Rightarrow> bool \<Rightarrow> 'q raw_stmt \<Rightarrow> session stmt" where
  "exec_stmt run use_implicit_block is_last stmt = seq
     [ when_do (\<lambda>s. IsAbortedTransactionBlockState (sess s) \<and> \<not> IsTransactionExitStmt stmt)
         (raise (ERROR ''current transaction is aborted, commands ignored until end of transaction block'')),
       start_xact_command,
       when_do (\<lambda>s. use_implicit_block) (upd (\<lambda>s. s\<lparr>sess := BeginImplicitTransactionBlock (sess s)\<rparr>)),
       on_backend (run_stmt run stmt),
       finish_stmt use_implicit_block is_last stmt ]"

fun exec_stmts :: "('q \<Rightarrow> xstmt) \<Rightarrow> bool \<Rightarrow> 'q raw_stmt list \<Rightarrow> session stmt" where
  "exec_stmts run use_implicit_block [] s = Inr s"
| "exec_stmts run use_implicit_block (st # sts) s =
     (case exec_stmt run use_implicit_block (sts = []) st s of
        Inl e \<Rightarrow> Inl e
      | Inr s' \<Rightarrow> exec_stmts run use_implicit_block sts s')"

definition exec_query :: "('q \<Rightarrow> xstmt) \<Rightarrow> (string \<Rightarrow> string + 'q raw_stmt list) \<Rightarrow> string \<Rightarrow> session stmt" where
  "exec_query run parse q = seq
     [ start_xact_command,
       (case parse q of
          Inl m \<Rightarrow> raise (ERROR m)
        | Inr parsetree_list \<Rightarrow> exec_stmts run (length parsetree_list > 1) parsetree_list),
       finish_xact_command ]"

definition exec_simple_query ::
    "spi \<Rightarrow> ('q \<Rightarrow> xstmt) \<Rightarrow> (string \<Rightarrow> string + 'q raw_stmt list) \<Rightarrow> string \<Rightarrow> session stmt" where
  "exec_simple_query x run parse q = seq [on_backend (fd_prologue x q), exec_query run parse q]"

text \<open>
  One simple-query message in the main loop: an error is reported, the transaction is
  aborted and the session goes on; anything worse ends it.
\<close>

definition recover :: "session \<Rightarrow> session res" where
  "recover = seq [on_backend AbortCurrentTransaction, upd (\<lambda>s. s\<lparr>xact_started := False\<rparr>)]"

definition PostgresMain_query ::
    "spi \<Rightarrow> ('q \<Rightarrow> xstmt) \<Rightarrow> (string \<Rightarrow> string + 'q raw_stmt list) \<Rightarrow> string \<Rightarrow> session stmt" where
  "PostgresMain_query x run parse q s =
     (case exec_simple_query x run parse q s of
        Inr s' \<Rightarrow> Inr s'
      | Inl (ERROR m, s') \<Rightarrow> recover s'
      | Inl (e, s') \<Rightarrow> Inl (e, s'))"

end
