(* ===== verification/Session_Inv.thy ===== *)
theory Session_Inv
  imports Utility_Inv Session
begin

section \<open>A session never leaves its protocol\<close>

text \<open>
  Every transaction statement, run through \<^verbatim>\<open>standard_ProcessUtility\<close> in a state in which a
  command may start, plans work for \<^verbatim>\<open>CommitTransactionCommand\<close> or raises an ordinary error.
  Composed with the loop of \<^verbatim>\<open>exec_simple_query\<close> and the error recovery of \<^verbatim>\<open>PostgresMain\<close> this
  gives the session invariant: between messages the transaction state is well formed and
  idle, in an open block, or in a failed block.
\<close>

subsection \<open>Transaction statements\<close>

lemma SetPGVariable_cases:
  assumes "wf_backend base b"
  obtains c where "SetPGVariable op b = Inr c" "remarked b c" "blocks c = blocks b"
  | m where "SetPGVariable op b = Inl (ERROR m, b)"
proof -
  have r: "remarked b (b\<lparr>XactIsoLevel := v\<rparr>)" "remarked b (b\<lparr>XactReadOnly := w\<rparr>)"
    "remarked b (b\<lparr>XactDeferrable := w\<rparr>)" for v w
    using reblock_all[OF wf_entries[OF assms]] by (simp_all add: remarked_def frame_defs stack_def)
  have k: "blocks (b\<lparr>XactIsoLevel := v\<rparr>) = blocks b" "blocks (b\<lparr>XactReadOnly := w\<rparr>) = blocks b"
    "blocks (b\<lparr>XactDeferrable := w\<rparr>) = blocks b" for v w
    by (simp_all add: stack_def)
  note ok = that(1)[OF _ r(1) k(1)] that(1)[OF _ r(2) k(2)] that(1)[OF _ r(3) k(3)]
  show thesis
  proof (cases op)
    case (transaction_isolation v)
    then show thesis using ok(1)[of v] that(2) by (cases "check_XactIsoLevel v b") (simp_all add: raise_def)
  next
    case (transaction_read_only v)
    then show thesis using ok(2)[of v] that(2) by (cases "check_transaction_read_only v b") (simp_all add: raise_def)
  next
    case (transaction_deferrable v)
    then show thesis using ok(3)[of v] that(2) by (cases "check_transaction_deferrable v b") (simp_all add: raise_def)
  qed
qed

lemma set_options_ok:
  "planned base b c \<Longrightarrow> util_ok base b (seq (map SetPGVariable ops) c)"
proof (induction ops arbitrary: c)
  case Nil
  then show ?case by (simp add: util_Inr)
next
  case (Cons op ops)
  have "wf_backend base c" using Cons.prems by (simp add: planned_def)
  then show ?case
  proof (cases rule: SetPGVariable_cases[of base c op])
    case (1 d)
    then show ?thesis using Cons.IH[OF planned_then[OF Cons.prems]] by simp
  next
    case (2 m)
    then show ?thesis using Cons.prems by (simp add: util_ERROR)
  qed
qed

lemma util_seq:
  assumes "util_ok base b (f b)" "\<And>c. planned base b c \<Longrightarrow> util_ok base b (seq fs c)"
  shows "util_ok base b (seq (f # fs) b)"
  using assms(1) unfolding util_ok_def[of base b "f b"]
  by (elim disjE exE conjE) (simp_all add: assms(2) util_ERROR)

lemma ready_cur:
  assumes "ready_ok (blocks b)"
  shows "blockState (cur b) \<in> {TBLOCK_STARTED, TBLOCK_IMPLICIT_INPROGRESS, TBLOCK_ABORT, TBLOCK_INPROGRESS,
      TBLOCK_SUBINPROGRESS, TBLOCK_SUBABORT}"
    "blocks b \<noteq> [TBLOCK_STARTED] \<Longrightarrow> IsTransactionBlock b"
    "\<not> IsAbortedTransactionBlockState b \<Longrightarrow> trans_of (blockState (cur b)) = TRANS_INPROGRESS"
  using assms
  by (cases rule: ready_cases; simp add: blocks_Cons IsTransactionBlock_def IsAbortedTransactionBlockState_def; fail)+

lemma ready_live:
  assumes "ready_ok (blocks b)" "\<not> IsAbortedTransactionBlockState b"
  shows "live_block (blocks b) \<or> blocks b \<in> {[TBLOCK_STARTED], [TBLOCK_IMPLICIT_INPROGRESS]}"
  using assms unfolding ready_ok_def by (elim disjE exE conjE; simp add: blocks_Cons IsAbortedTransactionBlockState_def)

text \<open>The result of a statement, without its completion tag.\<close>

definition untag :: "(backend, bool) vres \<Rightarrow> backend res" where
  "untag r = (case r of Inl e \<Rightarrow> Inl e | Inr (t, b) \<Rightarrow> Inr b)"

lemma untag_simps [simp]: "untag (Inl e) = Inl e" "untag (Inr (t, b)) = Inr b"
  by (simp_all add: untag_def)

lemma untag_keep [simp]: "untag (keep_tag f b) = f b"
  by (simp add: untag_def keep_tag_def split: sum.split)

lemma untag_commit [simp]: "untag (commit_tag r) = untag r"
  by (simp add: untag_def commit_tag_def split: sum.split prod.split)

lemma wf_level:
  assumes "wf_backend base b"
  shows "IsSubTransaction b \<longleftrightarrow> parents b \<noteq> []"
proof -
  have s: "stack_ok (stack b)" using assms by (simp add: wf_backend_def wf_core_def)
  have "stack_ok ss \<Longrightarrow> nestingLevel (hd ss) = length ss \<or> length ss = 1 \<and> nestingLevel (hd ss) = 0" for ss
    by (induction ss rule: stack_ok.induct) (auto split: if_splits)
  from this[OF s] show ?thesis by (cases "parents b") (auto simp: IsSubTransaction_def stack_def)
qed

lemma require_block:
  assumes "wf_backend base b" "ready_ok (blocks b)"
  shows "if blocks b = [TBLOCK_STARTED] then \<exists>m. RequireTransactionBlock True st b = Inl (ERROR m, b)
         else RequireTransactionBlock True st b = Inr b"
  using ready_cur(2)[OF assms(2)] wf_level[OF assms(1)]
  by (auto simp: RequireTransactionBlock_def CheckTransactionBlock_def IsTransactionBlock_def stmt_simps blocks_Cons)

lemma prepared_ok:
  assumes "wf_backend base b" "ready_ok (blocks b)"
  shows "util_ok base b (seq [PreventInTransactionBlock True st, ext f xs] b)"
proof -
  have p: "planned base b b" using assms by (simp add: planned_refl ready_plan)
  show ?thesis
  proof (cases "blocks b = [TBLOCK_STARTED]")
    case False
    then have "IsTransactionBlock b" using ready_cur(2)[OF assms(2)] by blast
    then show ?thesis using p by (auto simp: PreventInTransactionBlock_def stmt_simps intro: util_ERROR)
  next
    case True
    define c where "c t = b\<lparr>MyXactFlags := or (MyXactFlags b) XACT_FLAGS_NEEDIMMEDIATECOMMIT, trace := trace b @ t\<rparr>" for t
    have bl: "parents b = []" "blockState (cur b) = TBLOCK_STARTED" using True by (simp_all add: blocks_Cons)
    have "wf_backend base (c t)" for t
      using wf_same_stack[OF assms(1), of "c t"] by (simp add: c_def frame_defs)
    then have pc: "planned base b (c t)" for t
      using bl by (simp add: planned_def stack_def) (simp add: c_def)
    have "PreventInTransactionBlock True st b = Inl (ERROR (st @ '' cannot be executed within a pipeline''), b) \<or>
        PreventInTransactionBlock True st b = Inr (c [])"
      using bl wf_level[OF assms(1)]
      by (auto simp: PreventInTransactionBlock_def stmt_simps c_def IsTransactionBlock_def)
    moreover have "ext f xs (c []) = Inl (ERROR f, c []) \<or> ext f xs (c []) = Inr (c [Call f xs])"
      by (auto simp: ext_def c_def)
    ultimately show ?thesis by (elim disjE) (simp_all add: p pc util_Inr util_ERROR)
  qed
qed

text \<open>
  The switch over the statement kinds. A failed block admits only the statements that end it,
  as \<^verbatim>\<open>exec_simple_query\<close> checks first.
\<close>

lemma DefineSavepoint_util:
  assumes "wf_backend base b" "live_block (blocks b)"
  shows "util_ok base b (DefineSavepoint sp b)"
  using assms(1) live_cur[OF assms(2)]
proof (cases rule: DefineSavepoint_cases[where sp = sp])
  case (1 c)
  have "\<not> (immediate c \<and> \<not> immediate b)"
    using keepsD(1)[OF imm_DefineSavepoint 1(1)] by (simp add: no_new_immediate_def)
  moreover have "plan_ok (blocks c)" "live_xids (stack c) = live_xids (stack b)" "blocks c \<noteq> [TBLOCK_IMPLICIT_INPROGRESS]"
    using 1 assms(2) by (simp_all add: stack_def live_xids_Cons)
  ultimately show ?thesis using 1 by (auto simp: planned_def same_log_def same_rest_def intro!: util_Inr)
next
  case (2 m)
  then show ?thesis using assms by (simp add: util_ERROR planned_refl live_plan)
qed

lemma transaction_stmt_ok:
  assumes "wf_backend base b" "ready_ok (blocks b)"
    "IsAbortedTransactionBlockState b \<Longrightarrow> IsTransactionExitStmt (RawTransaction st)"
  shows "util_ok base b (untag (transaction_stmt_switch True st b))"
proof -
  have pb: "planned base b b" using assms(1,2) by (simp add: planned_refl ready_plan)
  have bgn: "util_ok base b (seq (BeginTransactionBlock # map SetPGVariable ops) b)" for ops
    by (intro util_seq BeginTransactionBlock_ok[OF assms(1,2)] set_options_ok)
  have req: "util_ok base b (seq [RequireTransactionBlock True m, f] b)"
    if "blocks b \<noteq> [TBLOCK_STARTED] \<Longrightarrow> util_ok base b (f b)" for m f
    using require_block[OF assms(1,2), of m] that pb by (auto simp: util_ERROR sum_case_id split: if_splits)
  have live: "live_block (blocks b) \<or> blocks b = [TBLOCK_IMPLICIT_INPROGRESS]"
    if "blocks b \<noteq> [TBLOCK_STARTED]" "\<not> IsAbortedTransactionBlockState b"
    using ready_live[OF assms(2)] that by blast
  have np: "\<not> IsInParallelMode b" using assms(1) wf_not_parallel[of base b] by (simp add: wf_backend_def)
  show ?thesis
  proof (cases st)
    case (TRANS_STMT_COMMIT ch)
    show ?thesis unfolding TRANS_STMT_COMMIT using assms(1,2)
      by (cases rule: EndTransactionBlock_cases[where ch = ch]) (simp_all add: util_Inr util_ERROR pb)
  next
    case (TRANS_STMT_PREPARE gid)
    show ?thesis unfolding TRANS_STMT_PREPARE using assms(1,2)
      by (cases rule: PrepareTransactionBlock_cases[where gid = gid]) (simp_all add: util_Inr util_ERROR pb)
  next
    case (TRANS_STMT_ROLLBACK ch)
    show ?thesis unfolding TRANS_STMT_ROLLBACK using assms(1,2)
      by (cases rule: UserAbortTransactionBlock_cases[where ch = ch]) (simp_all add: util_Inr util_ERROR pb)
  next
    case (TRANS_STMT_SAVEPOINT sp)
    have "util_ok base b (DefineSavepoint (Some sp) b)" if "blocks b = [TBLOCK_IMPLICIT_INPROGRESS]"
      using that np pb by (simp add: DefineSavepoint_def stmt_simps blocks_Cons util_ERROR)
    then have "util_ok base b (DefineSavepoint (Some sp) b)" if "blocks b \<noteq> [TBLOCK_STARTED]"
      using live[OF that] assms(3) DefineSavepoint_util[OF assms(1)] TRANS_STMT_SAVEPOINT by auto
    from req[of "DefineSavepoint (Some sp)", OF this] show ?thesis by (simp add: TRANS_STMT_SAVEPOINT del: seq.simps)
  next
    case (TRANS_STMT_RELEASE sp)
    have "util_ok base b (ReleaseSavepoint sp b)" if "blocks b = [TBLOCK_IMPLICIT_INPROGRESS]"
      using that np pb by (simp add: ReleaseSavepoint_def stmt_simps blocks_Cons util_ERROR)
    moreover have "util_ok base b (ReleaseSavepoint sp b)" if "live_block (blocks b)"
      using assms(1) that
      by (cases rule: ReleaseSavepoint_cases[where sp = sp]) (simp_all add: util_Inr util_ERROR pb)
    ultimately have "util_ok base b (ReleaseSavepoint sp b)" if "blocks b \<noteq> [TBLOCK_STARTED]"
      using live[OF that] assms(3) TRANS_STMT_RELEASE by auto
    from req[of "ReleaseSavepoint sp", OF this] show ?thesis by (simp add: TRANS_STMT_RELEASE del: seq.simps)
  next
    case (TRANS_STMT_ROLLBACK_TO sp)
    have single: "util_ok base b (RollbackToSavepoint sp b)"
      if "blocks b \<in> {[TBLOCK_IMPLICIT_INPROGRESS], [TBLOCK_ABORT], [TBLOCK_INPROGRESS]}"
      using that np pb by (auto simp: RollbackToSavepoint_def stmt_simps blocks_Cons util_ERROR)
    have sub: "util_ok base b (RollbackToSavepoint sp b)"
      if "blocks b = x # ts" "x \<in> {TBLOCK_SUBINPROGRESS, TBLOCK_SUBABORT}" "live_block ts" for x ts
      using assms(1) that
      by (cases rule: RollbackToSavepoint_cases[where sp = sp]) (simp_all add: util_Inr util_ERROR pb)
    have "util_ok base b (RollbackToSavepoint sp b)" if "blocks b \<noteq> [TBLOCK_STARTED]"
      using assms(2)
    proof (cases rule: ready_cases)
      case (insub n)
      then show ?thesis by (rule sub) (auto simp: live_block_iff)
    next
      case (failedsub n)
      then show ?thesis by (rule sub) (auto simp: live_block_iff)
    qed (use that single in simp_all)
    from req[of "RollbackToSavepoint sp", OF this] show ?thesis by (simp add: TRANS_STMT_ROLLBACK_TO del: seq.simps)
  qed (simp_all add: bgn prepared_ok[OF assms(1,2)] del: seq.simps)
qed

lemma run_stmt_untag: "run_stmt run (RawTransaction st) b = untag (standard_ProcessUtility True st b)"
  by (simp add: untag_def)

lemma standard_ProcessUtility_ok:
  assumes "wf_backend base b" "ready_ok (blocks b)"
    "IsAbortedTransactionBlockState b \<Longrightarrow> IsTransactionExitStmt (RawTransaction st)"
  shows "util_ok base b (untag (standard_ProcessUtility True st b))"
proof -
  have np: "\<not> IsInParallelMode b" using assms(1) wf_not_parallel[of base b] by (simp add: wf_backend_def)
  have "utility_read_only_checks st b = Inr b \<or> (\<exists>m. utility_read_only_checks st b = Inl (ERROR m, b))"
    using np by (auto simp: utility_read_only_checks_def stmt_simps)
  then show ?thesis
    using transaction_stmt_ok[OF assms] planned_refl[OF assms(1) ready_plan[OF assms(2)]]
    by (auto simp: standard_ProcessUtility_def util_ERROR)
qed

subsection \<open>Other statements\<close>

text \<open>
  What the rest of the server promises when it runs a statement in a live transaction: the
  transaction stack keeps its shape, no status is set, the ids it acquires are the next ones
  and belong to the stack, the immediate-commit flag is raised only outside transaction
  blocks, and it fails only by an ordinary error.
\<close>

definition stmt_ok :: "TransactionId \<Rightarrow> backend \<Rightarrow> backend \<Rightarrow> bool" where
  "stmt_ok base b b' \<longleftrightarrow> blocks b' = blocks b \<and> env b' = env b \<and> pg_xact b' = pg_xact b \<and>
     assigned_ids b b' \<and> (immediate b' \<longrightarrow> immediate b \<or> blocks b = [TBLOCK_STARTED])"

locale statement_runner =
  fixes base :: TransactionId
    and run :: "'q \<Rightarrow> xstmt"
  assumes run_cases: "wf_backend base b \<Longrightarrow> trans_of (blockState (cur b)) = TRANS_INPROGRESS \<Longrightarrow>
    (\<exists>b'. run q b = Inr b' \<and> wf_backend base b' \<and> stmt_ok base b b') \<or>
    (\<exists>m b'. run q b = Inl (ERROR m, b') \<and> wf_err base b' \<and> stmt_ok base b b')"

text \<open>
  The model's own statements: sequences of the calls other modules make into transaction
  management while a statement runs.
\<close>

datatype act = AssignXid | UseCommandId | NextCommand | NeedImmediateCommit string | Fail string

fun run_act :: "act \<Rightarrow> xstmt" where
  "run_act AssignXid b = let_do GetCurrentTransactionId (\<lambda>_. seq []) b"
| "run_act UseCommandId b = let_do (GetCurrentCommandId True) (\<lambda>_. seq []) b"
| "run_act NextCommand b = CommandCounterIncrement b"
| "run_act (NeedImmediateCommit st) b = PreventInTransactionBlock True st b"
| "run_act (Fail m) b = raise (ERROR m) b"

definition run_acts :: "act list \<Rightarrow> xstmt" where
  "run_acts as = seq (map run_act as)"

lemma stmt_ok_refl: "stmt_ok base b b"
  by (simp add: stmt_ok_def assigned_ids_refl)

lemma assigned_ids_same: "stack b' = stack b \<Longrightarrow> xid_source b' = xid_source b \<Longrightarrow> assigned_ids b b'"
  by (simp add: assigned_ids_def future_xids_def)

lemma stmt_ok_trans: "stmt_ok base a b \<Longrightarrow> stmt_ok base b c \<Longrightarrow> stmt_ok base a c"
  by (auto simp: stmt_ok_def intro: assigned_ids_trans)

lemma assigned_stmt_ok:
  assumes "assigned_more base b c" "no_new_immediate b c"
  shows "stmt_ok base b c" "wf_backend base c"
proof -
  have "map blockState (map shape (stack c)) = map blockState (map shape (stack b))"
    using assms(1) by (simp only: assigned_more_def)
  then have "blocks c = blocks b" by (simp add: shape_def o_def)
  then show "stmt_ok base b c" "wf_backend base c"
    using assms by (auto simp: stmt_ok_def assigned_more_def no_new_immediate_def same_rest_def)
qed

lemma run_act_cases:
  assumes "wf_backend base b" "trans_of (blockState (cur b)) = TRANS_INPROGRESS"
  shows "(\<exists>b'. run_act a b = Inr b' \<and> wf_backend base b' \<and> stmt_ok base b b') \<or>
    (\<exists>m b'. run_act a b = Inl (ERROR m, b') \<and> wf_err base b' \<and> stmt_ok base b b')"
proof (cases a)
  case AssignXid
  have st: "state (cur b) = TRANS_INPROGRESS" using assms by (simp add: wf_backend_def)
  have k: "no_new_immediate b c" if "GetCurrentTransactionId b = Inr (x, c) \<or> GetCurrentTransactionId b = Inl (e, c)" for x c e
    using imm_GetCurrentTransactionId that by (auto simp: vkeeps_def dest: spec[of _ b])
  from assms(1) st show ?thesis
  proof (cases rule: wf_GetCurrentTransactionId)
    case (1 m c)
    then show ?thesis using assigned_stmt_ok[OF 1(2) k] by (auto simp: AssignXid let_do_def intro: wf_backend_err)
  next
    case (2 c)
    then show ?thesis using assigned_stmt_ok[OF 2(2) k] by (auto simp: AssignXid let_do_def)
  qed
next
  case UseCommandId
  have "wf_backend base (b\<lparr>currentCommandIdUsed := True\<rparr>)"
    by (rule wf_same_stack[OF assms(1)]) (simp_all add: frame_defs)
  moreover have "\<not> IsParallelWorker (env b)" using assms(1) by (simp add: wf_backend_def wf_defs)
  ultimately show ?thesis
    by (simp add: UseCommandId let_do_def GetCurrentCommandId_def stmt_ok_def assigned_ids_same stack_def immediate_def)
next
  case NextCommand
  have np: "\<not> IsParallelWorker (env b)" using assms(1) by (simp add: wf_backend_def wf_defs)
  have k: "no_new_immediate b c" if "CommandCounterIncrement b = Inr c" for c
    using keepsD(1)[OF imm_counter that] .
  from np show ?thesis
  proof (cases rule: CommandCounterIncrement_cases)
    case (1 c)
    then have "wf_backend base c" by (intro wf_same_stack[OF assms(1)]) (simp_all add: same_rest_def)
    then show ?thesis
      using 1 k[OF 1(1)] by (simp add: NextCommand stmt_ok_def assigned_ids_same stack_def no_new_immediate_def same_log_def same_rest_def)
  next
    case (2 m)
    then show ?thesis using assms(1) by (simp add: NextCommand stmt_ok_refl wf_backend_err)
  qed
next
  case (NeedImmediateCommit st)
  show ?thesis
  proof (cases "IsTransactionBlock b \<or> IsSubTransaction b \<or> and (MyXactFlags b) XACT_FLAGS_PIPELINING \<noteq> 0")
    case True
    then show ?thesis using assms(1)
      by (auto simp: NeedImmediateCommit PreventInTransactionBlock_def stmt_simps stmt_ok_refl wf_backend_err)
  next
    case False
    let ?c = "b\<lparr>MyXactFlags := or (MyXactFlags b) XACT_FLAGS_NEEDIMMEDIATECOMMIT\<rparr>"
    have bl: "blocks b = [TBLOCK_STARTED]" using False assms wf_level[OF assms(1)]
      by (auto simp: IsTransactionBlock_def stack_def)
    have "wf_backend base ?c" by (rule wf_same_stack[OF assms(1)]) (simp_all add: frame_defs)
    moreover have "run_act a b = Inr ?c"
      using False by (auto simp: NeedImmediateCommit PreventInTransactionBlock_def stmt_simps IsTransactionBlock_def)
    moreover have "stmt_ok base b ?c" using bl by (simp add: stmt_ok_def assigned_ids_same stack_def)
    ultimately show ?thesis by blast
  qed
next
  case (Fail m)
  then show ?thesis using assms(1) by (simp add: raise_def stmt_ok_refl wf_backend_err)
qed

interpretation acts: statement_runner base run_acts
proof
  fix b q
  show "wf_backend base b \<Longrightarrow> trans_of (blockState (cur b)) = TRANS_INPROGRESS \<Longrightarrow>
    (\<exists>b'. run_acts q b = Inr b' \<and> wf_backend base b' \<and> stmt_ok base b b') \<or>
    (\<exists>m b'. run_acts q b = Inl (ERROR m, b') \<and> wf_err base b' \<and> stmt_ok base b b')"
    unfolding run_acts_def
  proof (induction q arbitrary: b)
    case Nil
    then show ?case by (simp add: stmt_ok_refl)
  next
    case (Cons a q)
    from run_act_cases[OF Cons.prems, of a] show ?case
    proof (elim disjE exE conjE)
      fix c assume c: "run_act a b = Inr c" "wf_backend base c" "stmt_ok base b c"
      then have "trans_of (blockState (cur c)) = TRANS_INPROGRESS"
        using Cons.prems(2) by (simp add: stmt_ok_def stack_def)
      from Cons.IH[OF c(2) this] c show ?thesis by (auto intro: stmt_ok_trans)
    next
      fix m c assume "run_act a b = Inl (ERROR m, c)" "wf_err base c" "stmt_ok base b c"
      then show ?thesis by simp
    qed
  qed
qed

subsection \<open>The query loop\<close>

text \<open>Where the loop over the statements of a query stands; \<open>im\<close> tells that it may open an implicit block.\<close>

definition flag_ok :: "backend \<Rightarrow> bool" where
  "flag_ok b \<longleftrightarrow> (immediate b \<longrightarrow> blocks b = [TBLOCK_DEFAULT])"

definition loop_ok :: "TransactionId \<Rightarrow> bool \<Rightarrow> session \<Rightarrow> bool" where
  "loop_ok base im s \<longleftrightarrow> wf_backend base (sess s) \<and> flag_ok (sess s) \<and>
     (if xact_started s then ready_ok (blocks (sess s)) \<and> (blocks (sess s) = [TBLOCK_IMPLICIT_INPROGRESS] \<longrightarrow> im)
      else between_ok im (blocks (sess s)))"

definition error_ok :: "TransactionId \<Rightarrow> session \<Rightarrow> bool" where
  "error_ok base s \<longleftrightarrow> wf_err base (sess s) \<and> (plan_ok (blocks (sess s)) \<or> blocks (sess s) = [TBLOCK_DEFAULT]) \<and>
     (immediate (sess s) \<longrightarrow> blocks (sess s) \<in> {[TBLOCK_STARTED], [TBLOCK_DEFAULT]})"

definition step_ok :: "TransactionId \<Rightarrow> (session \<Rightarrow> bool) \<Rightarrow> session res \<Rightarrow> bool" where
  "step_ok base Q r \<longleftrightarrow> (\<exists>s. r = Inr s \<and> Q s) \<or> (\<exists>m s. r = Inl (ERROR m, s) \<and> error_ok base s)"

lemma step_Inr: "Q s \<Longrightarrow> step_ok base Q (Inr s)"
  by (simp add: step_ok_def)

lemma step_ERROR: "error_ok base s \<Longrightarrow> step_ok base Q (Inl (ERROR m, s))"
  by (simp add: step_ok_def)

lemma step_seq:
  assumes "step_ok base P (f s)" "\<And>s'. P s' \<Longrightarrow> step_ok base Q (seq fs s')"
  shows "step_ok base Q (seq (f # fs) s)"
  using assms(1) unfolding step_ok_def[of base P] by (elim disjE exE conjE) (simp_all add: assms(2) step_ERROR)

lemma step_weaken: "step_ok base P r \<Longrightarrow> (\<And>s. P s \<Longrightarrow> Q s) \<Longrightarrow> step_ok base Q r"
  by (auto simp: step_ok_def)

lemma between_plan: "between_ok im bs \<Longrightarrow> plan_ok bs \<or> bs = [TBLOCK_DEFAULT]"
  using ready_plan[of bs] by (auto simp: between_defs ready_ok_def)

lemma loop_mono: "loop_ok base False s \<Longrightarrow> loop_ok base im s"
  by (auto simp: loop_ok_def between_ok_def)

lemma loop_error: "loop_ok base im s \<Longrightarrow> error_ok base s"
  using ready_plan between_plan
  by (auto simp: loop_ok_def error_ok_def flag_ok_def wf_backend_err split: if_splits)

lemma StartTransactionCommand_ok:
  assumes "wf_backend base b" "between_ok im (blocks b)" "flag_ok b"
  shows "\<exists>b'. StartTransactionCommand b = Inr b' \<and> wf_backend base b' \<and> ready_ok (blocks b') \<and> \<not> immediate b' \<and>
    (blocks b' = [TBLOCK_IMPLICIT_INPROGRESS] \<longrightarrow> im) \<and>
    (if blocks b = [TBLOCK_DEFAULT] then blocks b' = [TBLOCK_STARTED] else b' = b)"
proof (cases "blocks b = [TBLOCK_DEFAULT]")
  case True
  then have d: "blockState (cur b) = TBLOCK_DEFAULT" by (simp add: blocks_Cons)
  show ?thesis
  proof (rule wf_start[OF assms(1) d, of TBLOCK_STARTED])
    fix c assume c: "StartTransaction b = Inr c" "parents c = []"
      "wf_backend base (c\<lparr>cur := (cur c)\<lparr>blockState := TBLOCK_STARTED\<rparr>\<rparr>)"
    then show ?thesis
      using True d StartTransaction_flag[OF c(1)]
      by (simp add: StartTransactionCommand_def set_blockState_def stack_def ready_ok_def immediate_def)
  qed simp_all
next
  case False
  then have r: "ready_ok (blocks b)" "blocks b = [TBLOCK_IMPLICIT_INPROGRESS] \<longrightarrow> im"
    using assms(2) by (auto simp: between_defs ready_ok_def)
  have "blocks b \<noteq> [TBLOCK_STARTED]" using assms(2) by (auto simp: between_defs)
  then have "blockState (cur b) \<noteq> TBLOCK_STARTED"
    using r(1) ready_cur(2)[of b] by (auto simp: IsTransactionBlock_def)
  then have "StartTransactionCommand b = Inr b"
    using ready_cur(1)[OF r(1)] by (auto simp: StartTransactionCommand_def)
  then show ?thesis using False assms r by (auto simp: flag_ok_def)
qed

text \<open>A statement may start: the transaction is started and the flag is clear.\<close>

definition started_ok :: "TransactionId \<Rightarrow> bool \<Rightarrow> session \<Rightarrow> bool" where
  "started_ok base im s \<longleftrightarrow> wf_backend base (sess s) \<and> ready_ok (blocks (sess s)) \<and> \<not> immediate (sess s) \<and>
     xact_started s \<and> (blocks (sess s) = [TBLOCK_IMPLICIT_INPROGRESS] \<longrightarrow> im)"

lemma start_xact_ok:
  assumes "loop_ok base im s"
  shows "\<exists>s'. start_xact_command s = Inr s' \<and> started_ok base im s' \<and>
    (IsAbortedTransactionBlockState (sess s') \<longleftrightarrow> IsAbortedTransactionBlockState (sess s))"
proof (cases "xact_started s")
  case True
  then have "\<not> immediate (sess s)" using assms by (auto simp: loop_ok_def flag_ok_def ready_ok_def)
  then show ?thesis using True assms by (simp add: start_xact_command_def when_do_def started_ok_def loop_ok_def)
next
  case False
  then obtain b' where b': "StartTransactionCommand (sess s) = Inr b'" "wf_backend base b'" "ready_ok (blocks b')"
    "\<not> immediate b'" "blocks b' = [TBLOCK_IMPLICIT_INPROGRESS] \<longrightarrow> im"
    "if blocks (sess s) = [TBLOCK_DEFAULT] then blocks b' = [TBLOCK_STARTED] else b' = sess s"
    using StartTransactionCommand_ok[of base "sess s" im] assms by (auto simp: loop_ok_def)
  have "IsAbortedTransactionBlockState b' \<longleftrightarrow> IsAbortedTransactionBlockState (sess s)"
    using b'(6) by (auto simp: IsAbortedTransactionBlockState_def blocks_Cons split: if_splits)
  then show ?thesis
    using False b' by (simp add: start_xact_command_def when_do_def on_backend_def upd_def started_ok_def)
qed

lemma commit_started:
  assumes "wf_backend base b" "blocks b = [TBLOCK_STARTED]"
  shows "(\<exists>b'. CommitTransactionCommand b = Inr b' \<and> blocks b' = [TBLOCK_DEFAULT]) \<or>
    (\<exists>m b'. CommitTransactionCommand b = Inl (ERROR m, b') \<and> blocks b' = [TBLOCK_STARTED])"
proof -
  define c where "c = (if chain (cur b) then SaveTransactionCharacteristics b else b)"
  have c: "cur c = cur b" "parents c = parents b" by (auto simp: c_def SaveTransactionCharacteristics_def)
  have bl: "parents b = []" "blockState (cur b) = TBLOCK_STARTED" using assms(2) by (simp_all add: blocks_Cons)
  have wc: "wf_backend base c" using assms(1) by (simp add: c_def wf_save)
  have unf: "CommitTransactionCommand b = seq [CommitTransaction, set_blockState TBLOCK_DEFAULT] c"
    using bl by (simp add: CommitTransactionCommand_def commit_switch_def c_def when_do_def upd_def with_state_def
        SaveTransactionCharacteristics_def sum_case_id split: sum.split)
  have "trans_of (blockState (cur c)) = TRANS_INPROGRESS" "parents c = []" using bl c by simp_all
  from wf_commit[OF wc this] show ?thesis
  proof cases
    case (1 b')
    then show ?thesis unfolding unf by (simp add: set_blockState_def stack_def)
  next
    case (2 m b')
    then show ?thesis using bl c unfolding unf by (simp add: stack_def)
  qed
qed

lemma finish_xact_ok:
  assumes "xact_started s" "wf_backend base (sess s)" "plan_ok (blocks (sess s))"
    "blocks (sess s) = [TBLOCK_IMPLICIT_INPROGRESS] \<longrightarrow> im" "immediate (sess s) \<longrightarrow> blocks (sess s) = [TBLOCK_STARTED]"
  shows "step_ok base (\<lambda>s'. loop_ok base im s' \<and> \<not> xact_started s') (finish_xact_command s)"
proof -
  let ?b = "sess s"
  have ok: "cmd_ok base im ?b (CommitTransactionCommand ?b)"
    unfolding CommitTransactionCommand_def using assms(2-4) by (intro commit_cmd_ok) auto
  have mono: "no_new_immediate ?b c" if "CommitTransactionCommand ?b = Inr c \<or> CommitTransactionCommand ?b = Inl (e, c)" for c e
    using keepsD[OF imm_commit_cmd] that unfolding CommitTransactionCommand_def by blast
  have unf: "finish_xact_command s = (case CommitTransactionCommand ?b of
      Inl (e, c) \<Rightarrow> Inl (e, s\<lparr>sess := c\<rparr>) | Inr c \<Rightarrow> Inr (s\<lparr>sess := c, xact_started := False\<rparr>))"
    using assms(1) by (simp add: finish_xact_command_def when_do_def on_backend_def upd_def split: sum.split prod.split)
  from ok show ?thesis unfolding cmd_ok_def
  proof (elim disjE exE conjE)
    fix c assume c: "CommitTransactionCommand ?b = Inr c" "wf_backend base c" "between_ok im (blocks c)"
    have "flag_ok c"
      using mono[of c] c(1) assms(5) commit_started[OF assms(2)] by (auto simp: flag_ok_def no_new_immediate_def)
    then show ?thesis using c by (simp add: unf step_Inr loop_ok_def)
  next
    fix m c assume c: "CommitTransactionCommand ?b = Inl (ERROR m, c)" "wf_err base c" "plan_ok (blocks c)"
    have "immediate c \<longrightarrow> blocks c = [TBLOCK_STARTED]"
      using mono[of c] c(1) assms(5) commit_started[OF assms(2)] by (auto simp: no_new_immediate_def)
    then show ?thesis using c by (simp add: unf step_ERROR error_ok_def)
  qed
qed

text \<open>After the statement itself: its plan is still to be carried out.\<close>

definition ran_ok :: "TransactionId \<Rightarrow> bool \<Rightarrow> bool \<Rightarrow> session \<Rightarrow> bool" where
  "ran_ok base im tx s \<longleftrightarrow> wf_backend base (sess s) \<and> plan_ok (blocks (sess s)) \<and> xact_started s \<and>
     (blocks (sess s) = [TBLOCK_IMPLICIT_INPROGRESS] \<longrightarrow> im) \<and>
     (immediate (sess s) \<longrightarrow> blocks (sess s) = [TBLOCK_STARTED] \<and> \<not> im) \<and>
     (\<not> tx \<longrightarrow> live_block (blocks (sess s)) \<or> blocks (sess s) \<in> {[TBLOCK_STARTED], [TBLOCK_IMPLICIT_INPROGRESS]} \<and>
        (im \<longrightarrow> blocks (sess s) \<noteq> [TBLOCK_STARTED]))"

lemma begin_implicit_ok:
  assumes "started_ok base im s"
  shows "\<exists>s'. when_do (\<lambda>s. im) (upd (\<lambda>s. s\<lparr>sess := BeginImplicitTransactionBlock (sess s)\<rparr>)) s = Inr s' \<and>
    started_ok base im s' \<and> (im \<longrightarrow> blocks (sess s') \<noteq> [TBLOCK_STARTED]) \<and>
    (IsAbortedTransactionBlockState (sess s') \<longleftrightarrow> IsAbortedTransactionBlockState (sess s))"
proof (cases "im \<and> blocks (sess s) = [TBLOCK_STARTED]")
  case True
  let ?b = "sess s"
  let ?c = "?b\<lparr>cur := (cur ?b)\<lparr>blockState := TBLOCK_IMPLICIT_INPROGRESS\<rparr>\<rparr>"
  have bl: "parents ?b = []" "blockState (cur ?b) = TBLOCK_STARTED" using True by (simp_all add: blocks_Cons)
  have w: "wf_backend base ?b" using assms by (simp add: started_ok_def)
  have "remarked ?b ?c" by (rule remarked_block[OF w]) (simp add: bl same_kind_def)
  then have "wf_backend base ?c" using wf_remarked[OF w] by blast
  then show ?thesis
    using True assms bl
    by (simp add: when_do_def upd_def BeginImplicitTransactionBlock_def started_ok_def stack_def ready_ok_def
        immediate_def IsAbortedTransactionBlockState_def)
next
  case False
  have "im \<Longrightarrow> blockState (cur (sess s)) \<noteq> TBLOCK_STARTED"
    using False assms ready_cur(2)[of "sess s"] by (auto simp: started_ok_def IsTransactionBlock_def)
  then show ?thesis
    using False assms by (cases im) (auto simp: when_do_def upd_def BeginImplicitTransactionBlock_def)
qed

lemma end_implicit_ok:
  assumes "ran_ok base im tx s"
  shows "\<exists>s'. when_do (\<lambda>s. im) (upd (\<lambda>s. s\<lparr>sess := EndImplicitTransactionBlock (sess s)\<rparr>)) s = Inr s' \<and>
    wf_backend base (sess s') \<and> plan_ok (blocks (sess s')) \<and> xact_started s' \<and>
    blocks (sess s') \<noteq> [TBLOCK_IMPLICIT_INPROGRESS] \<and> (immediate (sess s') \<longrightarrow> blocks (sess s') = [TBLOCK_STARTED])"
proof (cases "blockState (cur (sess s)) = TBLOCK_IMPLICIT_INPROGRESS")
  case True
  let ?b = "sess s"
  let ?c = "?b\<lparr>cur := (cur ?b)\<lparr>blockState := TBLOCK_STARTED\<rparr>\<rparr>"
  have w: "wf_backend base ?b" using assms by (simp add: ran_ok_def)
  have p: "parents ?b = []"
    using True assms by (cases "parents ?b") (auto simp: ran_ok_def stack_def)
  then have im: im using True assms by (simp add: ran_ok_def stack_def)
  have "remarked ?b ?c" by (rule remarked_block[OF w]) (simp add: True same_kind_def)
  then have "wf_backend base ?c" using wf_remarked[OF w] by blast
  then show ?thesis
    using assms im p True by (simp add: when_do_def upd_def EndImplicitTransactionBlock_def ran_ok_def stack_def)
next
  case False
  then show ?thesis
    using assms by (auto simp: when_do_def upd_def EndImplicitTransactionBlock_def ran_ok_def blocks_Cons)
qed

lemma finish_stmt_ok:
  assumes "ran_ok base im (is_transaction_stmt st) s" "im \<or> is_last"
  shows "step_ok base (\<lambda>s'. loop_ok base im s' \<and> (is_last \<longrightarrow> loop_ok base False s' \<and> \<not> xact_started s'))
    (finish_stmt im is_last st s)"
proof (cases is_last)
  case True
  obtain s' where s': "when_do (\<lambda>s. im) (upd (\<lambda>s. s\<lparr>sess := EndImplicitTransactionBlock (sess s)\<rparr>)) s = Inr s'"
    "wf_backend base (sess s')" "plan_ok (blocks (sess s'))" "xact_started s'"
    "blocks (sess s') \<noteq> [TBLOCK_IMPLICIT_INPROGRESS]" "immediate (sess s') \<longrightarrow> blocks (sess s') = [TBLOCK_STARTED]"
    using end_implicit_ok[OF assms(1)] by (elim exE conjE) (rule that)
  have eq: "finish_stmt im is_last st s = finish_xact_command s'"
    using True s'(1) by (simp add: finish_stmt_def sum_case_id)
  have "step_ok base (\<lambda>s'. loop_ok base False s' \<and> \<not> xact_started s') (finish_xact_command s')"
    using s' by (intro finish_xact_ok) simp_all
  then show ?thesis unfolding eq by (rule step_weaken) (simp add: loop_mono)
next
  case False
  then have im: im using assms(2) by blast
  let ?b = "sess s"
  have ni: "\<not> immediate ?b" using assms(1) im by (simp add: ran_ok_def)
  have w: "wf_backend base ?b" "xact_started s" using assms(1) by (simp_all add: ran_ok_def)
  show ?thesis
  proof (cases "is_transaction_stmt st")
    case True
    have "step_ok base (\<lambda>s'. loop_ok base im s' \<and> \<not> xact_started s') (finish_xact_command s)"
      using assms(1) ni im by (intro finish_xact_ok) (auto simp: ran_ok_def)
    moreover have "finish_stmt im is_last st s = finish_xact_command s" using False True by (simp add: finish_stmt_def)
    ultimately show ?thesis using False by (simp add: step_weaken)
  next
    case other: False
    have rd: "ready_ok (blocks ?b)" "plan_ok (blocks ?b)"
      using assms(1) im other by (auto simp: ran_ok_def ready_ok_def)
    have unf: "finish_stmt im is_last st s = on_backend CommandCounterIncrement s"
      using False other ni by (simp add: finish_stmt_def assert_that_def immediate_def sum_case_id)
    have np: "\<not> IsParallelWorker (env ?b)" using w(1) by (simp add: wf_backend_def wf_defs)
    from np show ?thesis
    proof (cases rule: CommandCounterIncrement_cases)
      case (1 c)
      have "wf_backend base c" using 1 by (intro wf_same_stack[OF w(1)]) (simp_all add: same_rest_def)
      moreover have "\<not> immediate c" using keepsD(1)[OF imm_counter 1(1)] ni by (simp add: no_new_immediate_def)
      moreover have "blocks c = blocks ?b" using 1 by (simp add: stack_def)
      ultimately have "loop_ok base im (s\<lparr>sess := c\<rparr>)" using w rd im by (simp add: loop_ok_def flag_ok_def)
      then show ?thesis unfolding unf on_backend_def 1(1) using False by (simp add: step_Inr)
    next
      case (2 m)
      have "error_ok base s" using w rd ni by (simp add: error_ok_def wf_backend_err)
      then show ?thesis unfolding unf on_backend_def 2(1) by (simp add: step_ERROR)
    qed
  qed
qed

context statement_runner
begin

lemma run_stmt_ok:
  assumes "started_ok base im s" "im \<longrightarrow> blocks (sess s) \<noteq> [TBLOCK_STARTED]"
    "IsAbortedTransactionBlockState (sess s) \<Longrightarrow> IsTransactionExitStmt st"
  shows "step_ok base (ran_ok base im (is_transaction_stmt st)) (on_backend (run_stmt run st) s)"
proof -
  let ?b = "sess s"
  have b: "wf_backend base ?b" "ready_ok (blocks ?b)" "\<not> immediate ?b" "xact_started s"
    "blocks ?b = [TBLOCK_IMPLICIT_INPROGRESS] \<longrightarrow> im"
    using assms(1) by (simp_all add: started_ok_def)
  show ?thesis
  proof (cases st)
    case (RawTransaction t)
    have "util_ok base ?b (run_stmt run st ?b)"
      unfolding RawTransaction run_stmt_untag using b assms(3) RawTransaction
      by (intro standard_ProcessUtility_ok) simp_all
    then show ?thesis unfolding util_ok_def
    proof (elim disjE exE conjE)
      fix c assume c: "run_stmt run st ?b = Inr c" "planned base ?b c"
      then have "ran_ok base im True (s\<lparr>sess := c\<rparr>)" using b assms(2) by (auto simp: ran_ok_def planned_def)
      moreover have "is_transaction_stmt st" by (simp add: RawTransaction)
      ultimately show ?thesis by (simp add: on_backend_def c(1) step_Inr)
    next
      fix m c assume c: "run_stmt run st ?b = Inl (ERROR m, c)" "planned base ?b c"
      then have "error_ok base (s\<lparr>sess := c\<rparr>)" using b by (auto simp: error_ok_def planned_def wf_backend_err)
      then show ?thesis by (simp add: on_backend_def c(1) step_ERROR)
    qed
  next
    case (RawOther q)
    have ab: "\<not> IsAbortedTransactionBlockState ?b" using assms(3) RawOther by auto
    note live = ready_cur(3)[OF b(2) ab] ready_live[OF b(2) ab]
    from run_cases[OF b(1) live(1), of q] show ?thesis
    proof (elim disjE exE conjE)
      fix c assume c: "run q ?b = Inr c" "wf_backend base c" "stmt_ok base ?b c"
      then have "ran_ok base im False (s\<lparr>sess := c\<rparr>)"
        using b assms(2) live(2) ready_plan[OF b(2)] by (auto simp: ran_ok_def stmt_ok_def)
      then show ?thesis by (simp add: on_backend_def c(1) step_Inr RawOther)
    next
      fix m c assume c: "run q ?b = Inl (ERROR m, c)" "wf_err base c" "stmt_ok base ?b c"
      then have "error_ok base (s\<lparr>sess := c\<rparr>)"
        using b ready_plan[OF b(2)] by (auto simp: error_ok_def stmt_ok_def)
      then show ?thesis by (simp add: on_backend_def c(1) step_ERROR RawOther)
    qed
  qed
qed

lemma exec_stmt_ok:
  assumes "loop_ok base im s" "im \<or> is_last"
  shows "step_ok base (\<lambda>s'. loop_ok base im s' \<and> (is_last \<longrightarrow> loop_ok base False s' \<and> \<not> xact_started s'))
    (exec_stmt run im is_last st s)"
proof (cases "IsAbortedTransactionBlockState (sess s) \<and> \<not> IsTransactionExitStmt st")
  case True
  then show ?thesis using loop_error[OF assms(1)] by (simp add: exec_stmt_def when_do_def raise_def step_ERROR)
next
  case False
  obtain s1 where s1: "start_xact_command s = Inr s1" "started_ok base im s1"
    "IsAbortedTransactionBlockState (sess s1) \<longleftrightarrow> IsAbortedTransactionBlockState (sess s)"
    using start_xact_ok[OF assms(1)] by (elim exE conjE) (rule that)
  obtain s2 where s2: "when_do (\<lambda>s. im) (upd (\<lambda>s. s\<lparr>sess := BeginImplicitTransactionBlock (sess s)\<rparr>)) s1 = Inr s2"
    "started_ok base im s2" "im \<longrightarrow> blocks (sess s2) \<noteq> [TBLOCK_STARTED]"
    "IsAbortedTransactionBlockState (sess s2) \<longleftrightarrow> IsAbortedTransactionBlockState (sess s1)"
    using begin_implicit_ok[OF s1(2)] by (elim exE conjE) (rule that)
  have unf: "exec_stmt run im is_last st s = seq [on_backend (run_stmt run st), finish_stmt im is_last st] s2"
    using False s1(1) s2(1) unfolding exec_stmt_def
    by (subst seq.simps(2)) (auto simp: when_do_def[of "\<lambda>s. IsAbortedTransactionBlockState (sess s) \<and> \<not> IsTransactionExitStmt st"])
  show ?thesis unfolding unf
  proof (rule step_seq)
    show "step_ok base (ran_ok base im (is_transaction_stmt st)) (on_backend (run_stmt run st) s2)"
      using run_stmt_ok[OF s2(2,3)] False s1(3) s2(4) by blast
  next
    fix s' assume "ran_ok base im (is_transaction_stmt st) s'"
    from finish_stmt_ok[OF this assms(2)]
    show "step_ok base (\<lambda>s'. loop_ok base im s' \<and> (is_last \<longrightarrow> loop_ok base False s' \<and> \<not> xact_started s'))
      (seq [finish_stmt im is_last st] s')" by (simp add: sum_case_id)
  qed
qed

lemma exec_stmts_ok:
  "loop_ok base im s \<Longrightarrow> im \<or> length sts \<le> 1 \<Longrightarrow>
   step_ok base (\<lambda>s'. if sts = [] then s' = s else loop_ok base False s' \<and> \<not> xact_started s') (exec_stmts run im sts s)"
proof (induction sts arbitrary: s)
  case Nil
  then show ?case by (simp add: step_Inr)
next
  case (Cons st sts)
  have "im \<or> sts = []" using Cons.prems(2) by (cases sts) auto
  from exec_stmt_ok[OF Cons.prems(1) this, of st] show ?case
    unfolding step_ok_def[of base _ "exec_stmt run im (sts = []) st s"]
  proof (elim disjE exE conjE)
    fix s1 assume s1: "exec_stmt run im (sts = []) st s = Inr s1" "loop_ok base im s1"
      "sts = [] \<longrightarrow> loop_ok base False s1 \<and> \<not> xact_started s1"
    then show ?case
      using Cons.IH[OF s1(2)] Cons.prems(2) by (cases "sts = []") (auto simp: step_Inr)
  next
    fix m s1 assume "exec_stmt run im (sts = []) st s = Inl (ERROR m, s1)" "error_ok base s1"
    then show ?case by (simp add: step_ERROR)
  qed
qed

lemma exec_query_ok:
  assumes "loop_ok base False s" "\<not> xact_started s"
  shows "step_ok base (\<lambda>s'. loop_ok base False s' \<and> \<not> xact_started s') (exec_query run parse q s)"
proof -
  obtain s1 where s1: "start_xact_command s = Inr s1" "started_ok base False s1"
    using start_xact_ok[OF assms(1)] by blast
  then have l1: "loop_ok base im s1" for im by (auto simp: loop_ok_def started_ok_def flag_ok_def)
  show ?thesis
  proof (cases "parse q")
    case (Inl m)
    then show ?thesis using s1(1) loop_error[OF l1] by (simp add: exec_query_def raise_def step_ERROR)
  next
    case (Inr sts)
    let ?run = "exec_stmts run (length sts > 1) sts"
    have unf: "exec_query run parse q s = seq [?run, finish_xact_command] s1"
      using s1(1) Inr by (simp add: exec_query_def)
    have fin: "step_ok base (\<lambda>s'. loop_ok base False s' \<and> \<not> xact_started s') (finish_xact_command s1)"
      using s1(2) ready_plan by (intro finish_xact_ok) (auto simp: started_ok_def)
    show ?thesis unfolding unf
    proof (rule step_seq)
      show "step_ok base (\<lambda>s'. if sts = [] then s' = s1 else loop_ok base False s' \<and> \<not> xact_started s') (?run s1)"
        by (rule exec_stmts_ok[OF l1]) auto
    next
      fix s' assume s': "if sts = [] then s' = s1 else loop_ok base False s' \<and> \<not> xact_started s'"
      show "step_ok base (\<lambda>s'. loop_ok base False s' \<and> \<not> xact_started s') (seq [finish_xact_command] s')"
        using s' fin by (cases "sts = []") (simp_all add: sum_case_id finish_xact_command_def when_do_def step_Inr)
    qed
  qed
qed

end

subsection \<open>The session invariant\<close>

definition good_session :: "TransactionId \<Rightarrow> session \<Rightarrow> bool" where
  "good_session base s \<longleftrightarrow> wf_backend base (sess s) \<and> idle_ok (blocks (sess s)) \<and> \<not> xact_started s \<and>
     flag_ok (sess s)"

lemma good_loop: "good_session base s \<longleftrightarrow> loop_ok base False s \<and> \<not> xact_started s"
  by (auto simp: good_session_def loop_ok_def between_ok_def)

lemma recover_ok:
  assumes "error_ok base s"
  shows "\<exists>s'. recover s = Inr s' \<and> good_session base s' \<and> recovered base (sess s) (sess s')"
proof -
  let ?b = "sess s"
  obtain c where c: "AbortCurrentTransaction ?b = Inr c" "recovered base ?b c"
    using abort_cur_ok[of base ?b "Suc (length (parents ?b))"] assms
    by (auto simp: error_ok_def AbortCurrentTransaction_def simp del: abort_cur.simps)
  have mono: "no_new_immediate ?b c"
    using keepsD(1)[OF imm_abort_cur] c(1) unfolding AbortCurrentTransaction_def by blast
  have len: "length (parents c) \<le> length (parents ?b)"
    using c(2) by (auto simp: recovered_def stack_def)
  have "flag_ok c"
  proof (cases "immediate ?b")
    case True
    then have single: "length (parents ?b) = 0" "blockState (cur ?b) \<in> {TBLOCK_STARTED, TBLOCK_DEFAULT}"
      using assms by (auto simp: error_ok_def stack_def)
    then have pc: "parents c = []" using len by simp
    have "state (cur ?b) = TRANS_DEFAULT" if "blockState (cur ?b) = TBLOCK_DEFAULT"
      using assms that by (simp add: error_ok_def wf_err_def)
    then have "blockState (cur c) = TBLOCK_DEFAULT"
      using single c(1) by (auto simp: AbortCurrentTransaction_def with_state_def set_blockState_def split: sum.splits)
    then have "blocks c = [TBLOCK_DEFAULT]" using pc by (simp add: stack_def)
    then show ?thesis by (simp add: flag_ok_def)
  next
    case False
    then show ?thesis using mono by (simp add: flag_ok_def no_new_immediate_def)
  qed
  then have "good_session base (s\<lparr>sess := c, xact_started := False\<rparr>)"
    using c(2) by (auto simp: good_session_def recovered_def aborted_ok_def idle_ok_def)
  then show ?thesis using c by (simp add: recover_def on_backend_def upd_def)
qed

lemma PostgresMain_query_ok:
  assumes "statement_runner base run" "good_session base s" "\<And>b. fd_prologue x q b = Inr b"
  shows "\<exists>s'. PostgresMain_query x run parse q s = Inr s' \<and> good_session base s'"
proof -
  have pre: "exec_simple_query x run parse q s = exec_query run parse q s"
    using assms(3) by (simp add: exec_simple_query_def on_backend_def sum_case_id)
  have "step_ok base (\<lambda>s'. loop_ok base False s' \<and> \<not> xact_started s') (exec_query run parse q s)"
    using statement_runner.exec_query_ok[OF assms(1)] assms(2) by (simp add: good_loop)
  then show ?thesis unfolding step_ok_def PostgresMain_query_def pre
  proof (elim disjE exE conjE)
    fix m s1 assume "exec_query run parse q s = Inl (ERROR m, s1)" "error_ok base s1"
    then show "\<exists>s'. (case exec_query run parse q s of Inl (ERROR m, s') \<Rightarrow> recover s'
        | Inl (e, s') \<Rightarrow> Inl (e, s') | Inr s' \<Rightarrow> Inr s') = Inr s' \<and> good_session base s'"
      using recover_ok[of base s1] by auto
  qed (simp add: good_loop)
qed
end
