(* ===== verification/FD_Proofs.thy ===== *)
theory FD_Proofs
  imports FD_Trigger
begin

section \<open>The functional-dependency commands: what is parsed, what is executed\<close>

text \<open>
  The command documented in the source is parsed back exactly; queries that are not such a
  command and fit the fixed buffer are left alone; longer ones overflow it. Creating the
  trigger always fails, since the statements are run read-only. The generated trigger, were it
  created, accepts no row, and its test only sees the rows already stored.
\<close>

subsection \<open>Reading a C string at the end of a known prefix\<close>

lemma c_at_append: "c_at (pre @ c # post) (length pre) = Some c"
  by (simp add: c_at_def)

lemma copy_until_quote_word:
  "QUOTE \<notin> set w \<Longrightarrow> length acc + length w < cap \<Longrightarrow>
   copy_until_quote cap (pre @ w @ QUOTE # post) (length pre) acc = Inr (acc @ w, length pre + length w)"
proof (induction w arbitrary: pre acc)
  case Nil
  then show ?case by (subst copy_until_quote.simps) (simp add: c_at_append)
next
  case (Cons c w)
  have "copy_until_quote cap ((pre @ [c]) @ w @ QUOTE # post) (length (pre @ [c])) (acc @ [c])
      = Inr ((acc @ [c]) @ w, length (pre @ [c]) + length w)"
    by (rule Cons.IH) (use Cons.prems in auto)
  moreover have "c \<noteq> QUOTE" using Cons.prems by auto
  ultimately show ?case using Cons.prems by (subst copy_until_quote.simps) (simp add: c_at_append)
qed

lemma scan_names_word:
  "DQUOTE \<notin> set w \<Longrightarrow> length buf + length w \<le> PTR_SIZE \<Longrightarrow>
   scan_names (pre @ w @ post) (length pre) flag st buf names =
   scan_names (pre @ w @ post) (length pre + length w) flag st (buf @ w) names"
proof (induction w arbitrary: pre buf)
  case (Cons c w)
  have "scan_names ((pre @ [c]) @ w @ post) (length (pre @ [c])) flag st (buf @ [c]) names
      = scan_names ((pre @ [c]) @ w @ post) (length (pre @ [c]) + length w) flag st ((buf @ [c]) @ w) names"
    by (rule Cons.IH) (use Cons.prems in auto)
  moreover have "c \<noteq> DQUOTE" using Cons.prems by auto
  ultimately show ?case using Cons.prems by (subst scan_names.simps) (simp add: c_at_append)
qed simp

subsection \<open>Lists of quoted names\<close>

definition quoted_names :: "string list \<Rightarrow> string" where
  "quoted_names ns = join_with '','' (map (\<lambda>n. DQUOTE # n @ [DQUOTE]) ns)"

fun offsets :: "nat \<Rightarrow> string list \<Rightarrow> nat list" where
  "offsets k [] = []"
| "offsets k (n # ns) = k # offsets (k + length n + 1) ns"

definition packed :: "string list \<Rightarrow> string" where
  "packed ns = concat (map (\<lambda>n. n @ [NUL]) ns)"

lemma packed_Cons [simp]: "packed (n # ns) = n @ NUL # packed ns"
  by (simp add: packed_def)

lemma packed_Nil [simp]: "packed [] = []"
  by (simp add: packed_def)

lemma cstr_offsets:
  "\<forall>n \<in> set ns. NUL \<notin> set n \<Longrightarrow>
   map (cstr_at (pre @ packed ns @ post)) (offsets (length pre) ns) = ns"
proof (induction ns arbitrary: pre)
  case (Cons n ns)
  have "map (cstr_at ((pre @ n @ [NUL]) @ packed ns @ post)) (offsets (length (pre @ n @ [NUL])) ns) = ns"
    by (rule Cons.IH) (use Cons.prems in auto)
  moreover have "cstr_at (pre @ packed (n # ns) @ post) (length pre) = n"
    using Cons.prems by (auto simp: cstr_at_def takeWhile_append)
  ultimately show ?case by simp
qed simp

lemma quoted_names_Cons:
  "quoted_names (n # ns) = DQUOTE # n @ DQUOTE # (if ns = [] then [] else CHR '','' # quoted_names ns)"
  by (cases ns) (simp_all add: quoted_names_def)

lemma scan_names_quoted:
  "ns \<noteq> [] \<Longrightarrow> \<forall>n \<in> set ns. DQUOTE \<notin> set n \<Longrightarrow> length buf + length (packed ns) \<le> PTR_SIZE \<Longrightarrow>
   length names + length ns \<le> NAMES_SIZE \<Longrightarrow>
   scan_names (pre @ quoted_names ns @ CHR 0x7D # post) (length pre) False st buf names =
   Inr (length pre + length (quoted_names ns), buf @ packed ns, names @ offsets (length buf) ns)"
proof (induction ns arbitrary: pre buf names st)
  case (Cons n ns)
  let ?rest = "(if ns = [] then [] else CHR '','' # quoted_names ns) @ CHR 0x7D # post"
  let ?q = "pre @ quoted_names (n # ns) @ CHR 0x7D # post"
  note qn = quoted_names_Cons[of n ns]
  have q: "?q = (pre @ [DQUOTE]) @ n @ DQUOTE # ?rest" by (simp add: qn)
  have "scan_names ?q (length pre) False st buf names = scan_names ?q (length (pre @ [DQUOTE])) True (length buf) buf names"
    by (subst scan_names.simps) (simp add: q c_at_append)
  also have "\<dots> = scan_names ?q (length (pre @ [DQUOTE]) + length n) True (length buf) (buf @ n) names"
    unfolding q by (rule scan_names_word) (use Cons.prems in auto)
  finally have s: "scan_names ?q (length pre) False st buf names =
    scan_names ?q (length ((pre @ [DQUOTE]) @ n)) True (length buf) (buf @ n) names" by simp
  have at0: "c_at ?q (length ((pre @ [DQUOTE]) @ n)) = Some DQUOTE"
    unfolding q using c_at_append[of "(pre @ [DQUOTE]) @ n"] by simp
  have at1: "c_at ?q (length ((pre @ [DQUOTE]) @ n) + 1) = Some (hd ?rest)"
    using c_at_append[of "(pre @ [DQUOTE]) @ n @ [DQUOTE]" "hd ?rest" "tl ?rest"] unfolding q by simp
  show ?case
  proof (cases "ns = []")
    case True
    then show ?thesis using at0 at1 Cons.prems
      by (subst s, subst scan_names.simps) (simp add: quoted_names_Cons)
  next
    case False
    let ?p = "pre @ DQUOTE # n @ DQUOTE # [CHR '','']"
    have "scan_names (?p @ quoted_names ns @ CHR 0x7D # post) (length ?p) False (length buf) (buf @ n @ [NUL]) (names @ [length buf])
        = Inr (length ?p + length (quoted_names ns), (buf @ n @ [NUL]) @ packed ns,
            (names @ [length buf]) @ offsets (length (buf @ n @ [NUL])) ns)"
      by (rule Cons.IH) (use Cons.prems False in auto)
    then show ?thesis using at0 at1 Cons.prems False
      by (subst s, subst scan_names.simps) (simp add: quoted_names_Cons)
  qed
qed simp

subsection \<open>The documented command\<close>

text \<open>\<^verbatim>\<open>insert into FD_table values ('fd1','relName','{"Al","Bl"}','{"Cr","Dr"}');\<close>\<close>

definition fd_insert :: "string \<Rightarrow> string \<Rightarrow> string list \<Rightarrow> string list \<Rightarrow> string" where
  "fd_insert fd_id relation lhs rhs =
     fd_query_prefix @ fd_id @ [QUOTE, CHR '','', QUOTE] @ relation @ [QUOTE, CHR '','', QUOTE, CHR 0x7B] @
     quoted_names lhs @ [CHR 0x7D, QUOTE, CHR '','', QUOTE, CHR 0x7B] @ quoted_names rhs @
     [CHR 0x7D, QUOTE, CHR '')'', CHR '';'']"

definition fd_names_ok :: "string \<Rightarrow> string \<Rightarrow> string list \<Rightarrow> string list \<Rightarrow> bool" where
  "fd_names_ok fd_id relation lhs rhs \<longleftrightarrow>
     QUOTE \<notin> set fd_id \<and> length fd_id < 100 \<and> QUOTE \<notin> set relation \<and> length relation < 100 \<and>
     lhs \<noteq> [] \<and> rhs \<noteq> [] \<and> length lhs \<le> 100 \<and> length rhs \<le> 100 \<and>
     list_all (\<lambda>n. DQUOTE \<notin> set n \<and> NUL \<notin> set n) (lhs @ rhs) \<and> length (fd_insert fd_id relation lhs rhs) < 1000"

lemma length_packed: "length (packed ns) \<le> length (quoted_names ns)"
  by (induction ns) (auto simp: quoted_names_Cons)

lemma parse_fd_insert:
  assumes "fd_names_ok fd_id relation lhs rhs"
  shows "parse_fd_query (fd_insert fd_id relation lhs rhs) = Inr (fd_id, relation, lhs, rhs)"
proof -
  let ?q = "fd_insert fd_id relation lhs rhs"
  define tail4 where "tail4 = [QUOTE, CHR '')'', CHR '';'']"
  define tail3 where "tail3 = [QUOTE, CHR '','', QUOTE, CHR 0x7B] @ quoted_names rhs @ CHR 0x7D # tail4"
  define tail2 where "tail2 = [CHR '','', QUOTE, CHR 0x7B] @ quoted_names lhs @ CHR 0x7D # tail3"
  define tail1 where "tail1 = [CHR '','', QUOTE] @ relation @ QUOTE # tail2"
  define p1 where "p1 = fd_query_prefix @ fd_id @ [QUOTE, CHR '','', QUOTE]"
  define p2 where "p2 = p1 @ relation @ [QUOTE, CHR '','', QUOTE, CHR 0x7B]"
  define p3 where "p3 = p2 @ quoted_names lhs @ [CHR 0x7D, QUOTE, CHR '','', QUOTE, CHR 0x7B]"
  note tails = tail1_def tail2_def tail3_def tail4_def p1_def p2_def p3_def
  have q: "?q = fd_query_prefix @ fd_id @ QUOTE # tail1" "?q = p1 @ relation @ QUOTE # tail2"
    "?q = p2 @ quoted_names lhs @ CHR 0x7D # tail3" "?q = p3 @ quoted_names rhs @ CHR 0x7D # tail4"
    by (simp_all add: fd_insert_def tails)
  have ok: "QUOTE \<notin> set fd_id" "length fd_id < 100" "QUOTE \<notin> set relation" "length relation < 100"
    "lhs \<noteq> []" "rhs \<noteq> []" "length lhs \<le> NAMES_SIZE" "length rhs \<le> NAMES_SIZE"
    "\<forall>n \<in> set lhs. DQUOTE \<notin> set n" "\<forall>n \<in> set rhs. DQUOTE \<notin> set n"
    "\<forall>n \<in> set lhs. NUL \<notin> set n" "\<forall>n \<in> set rhs. NUL \<notin> set n"
    using assms by (auto simp: fd_names_ok_def NAMES_SIZE_def list_all_iff)
  have "length (quoted_names lhs) + length (quoted_names rhs) < 1000"
    using assms by (simp add: fd_names_ok_def fd_insert_def)
  then have len: "length (packed lhs) + length (packed rhs) \<le> PTR_SIZE"
    using length_packed[of lhs] length_packed[of rhs] by (simp add: PTR_SIZE_def)
  have l: "length fd_query_prefix + length fd_id + 3 = length p1" "length p1 + length relation + 4 = length p2"
    "length p2 + length (quoted_names lhs) + 5 = length p3"
    by (simp_all add: p1_def p2_def p3_def)
  have 1: "copy_until_quote 100 ?q (length fd_query_prefix) [] = Inr (fd_id, length fd_query_prefix + length fd_id)"
    unfolding q(1) using copy_until_quote_word[of fd_id "[]" 100 fd_query_prefix tail1] ok by simp
  have 2: "copy_until_quote 100 ?q (length fd_query_prefix + length fd_id + 3) [] = Inr (relation, length p1 + length relation)"
    unfolding q(2) l using copy_until_quote_word[of relation "[]" 100 p1 tail2] ok by simp
  have 3: "scan_names ?q (length p1 + length relation + 4) False 0 [] [] =
      Inr (length p2 + length (quoted_names lhs), packed lhs, offsets 0 lhs)"
    unfolding q(3) l using scan_names_quoted[of lhs "[]" "[]" p2 tail3 0] ok len by simp
  have 4: "scan_names ?q (length p2 + length (quoted_names lhs) + 5) False 0 (packed lhs) [] =
      Inr (length p3 + length (quoted_names rhs), packed lhs @ packed rhs, offsets (length (packed lhs)) rhs)"
    unfolding q(4) l using scan_names_quoted[of rhs "packed lhs" "[]" p3 tail4 0] ok len by simp
  have names: "map (cstr_at (packed lhs @ packed rhs)) (offsets 0 lhs) = lhs"
    "map (cstr_at (packed lhs @ packed rhs)) (offsets (length (packed lhs)) rhs) = rhs"
    using cstr_offsets[of lhs "[]" "packed rhs"] cstr_offsets[of rhs "packed lhs" "[]"] ok by simp_all
  show ?thesis by (simp add: parse_fd_query_def 1 2 3 4 names)
qed

lemma is_fd_insert:
  "length (fd_insert fd_id relation lhs rhs) < 1000 \<Longrightarrow> is_fd_query (fd_insert fd_id relation lhs rhs) = Inr True"
  by (simp add: is_fd_query_def fd_insert_def)

lemma fd_prologue_skip:
  assumes "length q < 1000" "map tolower (take (length fd_query_prefix) q) \<noteq> map tolower fd_query_prefix"
  shows "fd_prologue x q b = Inr b"
  using assms by (simp add: fd_prologue_def is_fd_query_def)

lemma fd_prologue_overflow: "length q \<ge> 1000 \<Longrightarrow> \<exists>m. fd_prologue x q b = Inl (UndefinedBehaviour m, b)"
  by (simp add: fd_prologue_def is_fd_query_def raise_def)

text \<open>A command without a closing quote is read past its end.\<close>

lemma copy_until_quote_runs_off:
  "QUOTE \<notin> set (drop i q) \<Longrightarrow> \<exists>m. copy_until_quote cap q i acc = Inl m"
proof (induction cap q i acc rule: copy_until_quote.induct)
  case (1 cap q i acc)
  show ?case
  proof (cases "c_at q i")
    case None
    then show ?thesis by (subst copy_until_quote.simps) simp
  next
    case (Some c)
    have ne: "c \<noteq> QUOTE"
      using Some 1(2) by (auto simp: c_at_def in_set_conv_nth split: if_splits)
        (metis add.right_neutral length_drop nth_drop zero_less_diff less_imp_le_nat)+
    have "QUOTE \<notin> set (drop (i + 1) q)" using 1(2) by (metis drop_drop in_set_dropD add.commute)
    then have "\<exists>m. copy_until_quote cap q (i + 1) (acc @ [c]) = Inl m" if "\<not> length acc \<ge> cap"
      using 1(1)[OF Some that ne] by blast
    then show ?thesis using Some ne by (subst copy_until_quote.simps) auto
  qed
qed

subsection \<open>Creating the trigger fails\<close>

text \<open>
  \<open>add_trigger\<close> passes \<open>read_only = true\<close>; a utility statement is never read-only, so the first
  one is refused and neither \<open>ProcessUtility\<close> nor the executor is reached.
\<close>

lemma SPI_execute_refuses_utility:
  assumes "spi_parse x src = Inr (r # rs)" "spi_plan x r b = Inr (stmt # p, b')" "commandType stmt = CMD_UTILITY"
    "utilityStmt stmt = Some OtherUtility"
  shows "SPI_execute x src True b = Inl (ERROR ''command is not allowed in a non-volatile function'', b')"
  using assms by (simp add: SPI_execute_def spi_stmt_def CommandIsReadOnly_def Let_def)

text \<open>
  What parsing and planning do with a text that starts with a command such as \<^verbatim>\<open>CREATE FUNCTION\<close>: the
  first statement becomes one utility statement, and nothing happens to the transaction.
\<close>

definition plans_utility :: "spi \<Rightarrow> string \<Rightarrow> bool" where
  "plans_utility x src \<longleftrightarrow> (\<exists>r rs. spi_parse x src = Inr (r # rs) \<and>
     (\<forall>b. \<exists>stmt. spi_plan x r b = Inr ([stmt], b) \<and> commandType stmt = CMD_UTILITY \<and> utilityStmt stmt = Some OtherUtility))"

lemma add_trigger_refused:
  assumes "plans_utility x (trigger_command fd_id (join_with '','' rhs) relation (trigger_cond lhs))"
    "StartTransactionCommand b = Inr c" "length (join_with '','' lhs) < 10000" "length (join_with '','' rhs) < 10000"
    "length (trigger_cond lhs) < 10000" "length (trigger_command fd_id (join_with '','' rhs) relation (trigger_cond lhs)) < 10000"
  shows "add_trigger x fd_id relation lhs rhs b =
    Inl (ERROR ''command is not allowed in a non-volatile function'',
      c\<lparr>trace := trace c @ [Call ''SPI_connect'' [], Call ''PushActiveSnapshot'' []]\<rparr>)"
proof -
  let ?d = "c\<lparr>trace := trace c @ [Call ''SPI_connect'' [], Call ''PushActiveSnapshot'' []]\<rparr>"
  let ?cmd = "trigger_command fd_id (join_with '','' rhs) relation (trigger_cond lhs)"
  obtain r rs stmt where "spi_parse x ?cmd = Inr (r # rs)" "spi_plan x r ?d = Inr ([stmt], ?d)"
    "commandType stmt = CMD_UTILITY" "utilityStmt stmt = Some OtherUtility"
    using assms(1) unfolding plans_utility_def by blast
  then have "SPI_execute x ?cmd True ?d = Inl (ERROR ''command is not allowed in a non-volatile function'', ?d)"
    by (rule SPI_execute_refuses_utility)
  then show ?thesis using assms(2-6) by (simp add: add_trigger_def Let_def stmt_simps fits_def)
qed

subsection \<open>What the trigger would check\<close>

text \<open>The rows satisfy the dependency \<open>lhs \<rightarrow> c\<close>, with SQL's treatment of NULL.\<close>

definition fd_holds :: "string list \<Rightarrow> string \<Rightarrow> 'v row list \<Rightarrow> bool" where
  "fd_holds lhs c rows \<longleftrightarrow> (\<forall>r \<in> set rows. \<forall>r' \<in> set rows. row_matches lhs r r' \<longrightarrow>
     r c \<noteq> None \<longrightarrow> r' c \<noteq> None \<longrightarrow> r c = r' c)"

lemma row_matches_common:
  "row_matches lhs new r \<Longrightarrow> row_matches lhs new r' \<Longrightarrow> row_matches lhs r r'"
  by (auto simp: row_matches_def list_all_iff)

lemma at_most_one: "(\<And>x y. x \<in> set xs \<Longrightarrow> y \<in> set xs \<Longrightarrow> x = y) \<Longrightarrow> length (remdups xs) \<le> 1"
proof -
  assume "\<And>x y. x \<in> set xs \<Longrightarrow> y \<in> set xs \<Longrightarrow> x = y"
  then have "card (set xs) \<le> 1" by (metis card_le_Suc0_iff_eq finite_set One_nat_def)
  then show ?thesis by (simp add: length_remdups_card_conv)
qed

lemma trigger_count_blind:
  assumes "fd_holds lhs c rows"
  shows "trigger_count lhs c rows new \<le> 1"
  unfolding trigger_count_def
proof (rule at_most_one)
  fix x y
  assume "x \<in> set (List.map_filter (\<lambda>r. if row_matches lhs new r then r c else None) rows)"
    "y \<in> set (List.map_filter (\<lambda>r. if row_matches lhs new r then r c else None) rows)"
  then obtain r r' where "r \<in> set rows" "r' \<in> set rows" "row_matches lhs new r" "row_matches lhs new r'"
    "r c = Some x" "r' c = Some y"
    by (auto simp: List.map_filter_def split: if_splits)
  then show "x = y" using assms row_matches_common[of lhs new r r'] unfolding fd_holds_def by fastforce
qed
end
