(* ===== verification/Messages.thy ===== *)
theory Messages
  imports Session_Inv FD_Proofs
begin

section \<open>Messages: a session over time, and the declaration of a dependency\<close>

text \<open>
  A session as the sequence of its simple-query messages, with the changes the rest of the server
  makes between them; and what happens to a message that declares a functional dependency.
\<close>

subsection \<open>Reachable sessions\<close>

text \<open>
  Between two messages the configuration and the answers of other modules can be any, and
  other backends finish their own transactions: they change the status of ids that are in
  progress and are not this session's, now or later.
\<close>

definition interference :: "backend \<Rightarrow> backend \<Rightarrow> bool" where
  "interference b b' \<longleftrightarrow> (\<exists>e log. b' = b\<lparr>env := e, pg_xact := log\<rparr> \<and> \<not> IsParallelWorker e \<and>
     (\<forall>x. pg_xact b x \<noteq> TRANSACTION_STATUS_IN_PROGRESS \<or> x \<in> set (live_xids (stack b) @ future_xids b) \<longrightarrow>
        log x = pg_xact b x))"

text \<open>Messages that are not a dependency declaration and fit the buffer they are copied to.\<close>

definition plain_query :: "string \<Rightarrow> bool" where
  "plain_query q \<longleftrightarrow> length q < 1000 \<and>
     map tolower (take (length fd_query_prefix) q) \<noteq> map tolower fd_query_prefix"

inductive session_reach ::
    "spi \<Rightarrow> ('q \<Rightarrow> xstmt) \<Rightarrow> (string \<Rightarrow> string + 'q raw_stmt list) \<Rightarrow> session \<Rightarrow> session \<Rightarrow> bool"
  for x run parse s0 where
  start: "session_reach x run parse s0 s0"
| message: "session_reach x run parse s0 s \<Longrightarrow> plain_query q \<Longrightarrow> PostgresMain_query x run parse q s = Inr s' \<Longrightarrow>
     session_reach x run parse s0 s'"
| others: "session_reach x run parse s0 s \<Longrightarrow> interference (sess s) b \<Longrightarrow> session_reach x run parse s0 (s\<lparr>sess := b\<rparr>)"

lemma xids_ok_others:
  assumes "xids_ok base clog c outer own ab fut"
    "\<And>x. clog x \<noteq> TRANSACTION_STATUS_IN_PROGRESS \<or> x \<in> set (outer @ own @ fut) \<Longrightarrow> log x = clog x"
  shows "xids_ok base log c outer own ab fut"
  using assms by (auto simp: xids_ok_def cache_ok_def)

lemma wf_interference:
  assumes "wf_backend base b" "interference b b'"
  shows "wf_backend base b'" "stack b' = stack b" "MyXactFlags b' = MyXactFlags b"
proof -
  obtain e log where b': "b' = b\<lparr>env := e, pg_xact := log\<rparr>" "\<not> IsParallelWorker e"
    "\<And>x. pg_xact b x \<noteq> TRANSACTION_STATUS_IN_PROGRESS \<or> x \<in> set (live_xids (stack b) @ future_xids b) \<Longrightarrow> log x = pg_xact b x"
    using assms(2) unfolding interference_def by blast
  show s: "stack b' = stack b" by (simp add: b'(1) stack_def)
  show "MyXactFlags b' = MyXactFlags b" by (simp add: b'(1))
  have "log_ok base b" using assms(1) by (simp add: wf_backend_def wf_core_def)
  then have "xids_ok base (pg_xact b) (xact_cache b) (live_xids (parents b)) (own_xids (cur b))
      (state (cur b) = TRANS_ABORT) (future_xids b)" by (simp add: log_ok_def)
  then have "xids_ok base log (xact_cache b) (live_xids (parents b)) (own_xids (cur b))
      (state (cur b) = TRANS_ABORT) (future_xids b)"
    by (rule xids_ok_others) (use b'(3) in \<open>auto simp: stack_def live_xids_Cons\<close>)
  then have "log_ok base b'" by (simp add: log_ok_def b'(1) future_xids_def)
  moreover have "glob_ok b'"
    using assms(1) b'(2) by (simp add: b'(1) wf_backend_def wf_core_def glob_ok_def top_def stack_def)
  ultimately show "wf_backend base b'" using assms(1) s b'(1) by (simp add: wf_backend_def wf_core_def)
qed

lemma good_interference:
  "good_session base s \<Longrightarrow> interference (sess s) b \<Longrightarrow> good_session base (s\<lparr>sess := b\<rparr>)"
  using wf_interference[of base "sess s" b] by (simp add: good_session_def flag_ok_def immediate_def)

lemma plain_query_ok:
  assumes "statement_runner base run" "good_session base s" "plain_query q"
  shows "\<exists>s'. PostgresMain_query x run parse q s = Inr s' \<and> good_session base s'"
  using PostgresMain_query_ok[OF assms(1,2)] fd_prologue_skip assms(3) unfolding plain_query_def by blast

lemma session_reach_good:
  "session_reach x run parse s0 s \<Longrightarrow> statement_runner base run \<Longrightarrow> good_session base s0 \<Longrightarrow> good_session base s"
proof (induction rule: session_reach.induct)
  case (message s q s')
  then show ?case using plain_query_ok[of base run s q x parse] by auto
next
  case (others s b)
  then show ?case by (simp add: good_interference)
qed simp

subsection \<open>A dependency declaration\<close>

lemma length_join_le: "length (join_with '','' ns) \<le> length (quoted_names ns)"
proof (induction ns rule: induct_list012)
  case (3 x y zs)
  then show ?case by (simp add: quoted_names_Cons)
qed (simp_all add: quoted_names_def)

lemma length_trigger_cond: "length (trigger_cond ns) \<le> 5 * length (quoted_names ns)"
proof (induction ns rule: induct_list012)
  case (3 x y zs)
  have "length (trigger_cond (x # y # zs)) = 2 * length x + 10 + length (trigger_cond (y # zs))"
    by (simp add: trigger_cond_def)
  moreover have "length (quoted_names (x # y # zs)) = length x + 3 + length (quoted_names (y # zs))"
    using quoted_names_Cons[of x "y # zs"] by simp
  ultimately show ?case using 3 by simp
qed (simp_all add: quoted_names_def trigger_cond_def)

lemma length_trigger_command:
  "length (trigger_command fd_id R relation cond) \<le> 3 * length fd_id + length R + 2 * length relation + length cond + 1000"
  by (simp add: trigger_command_def tabs_def)

lemma add_trigger_fits:
  assumes "fd_names_ok fd_id relation lhs rhs"
  shows "length (join_with '','' lhs) < 10000" "length (join_with '','' rhs) < 10000" "length (trigger_cond lhs) < 10000"
    "length (trigger_command fd_id (join_with '','' rhs) relation (trigger_cond lhs)) < 10000"
proof -
  have "length fd_id + length relation + length (quoted_names lhs) + length (quoted_names rhs) < 1000"
    using assms by (simp add: fd_names_ok_def fd_insert_def)
  then show "length (join_with '','' lhs) < 10000" "length (join_with '','' rhs) < 10000" "length (trigger_cond lhs) < 10000"
    "length (trigger_command fd_id (join_with '','' rhs) relation (trigger_cond lhs)) < 10000"
    using length_join_le[of lhs] length_join_le[of rhs] length_trigger_cond[of lhs]
      length_trigger_command[of fd_id "join_with '','' rhs" relation "trigger_cond lhs"] by linarith+
qed

text \<open>
  The message is answered with an error raised before the insertion itself is looked at, and the
  transaction it belongs to is aborted.
\<close>

lemma started_quiet:
  assumes "wf_backend base b" "blocks b = [TBLOCK_DEFAULT]" "StartTransactionCommand b = Inr b'"
  shows "pg_xact b' = pg_xact b" "live_xids (stack b') = live_xids (stack b)"
proof -
  have d: "blockState (cur b) = TBLOCK_DEFAULT" using assms(2) by (simp add: blocks_Cons)
  obtain c where "StartTransaction b = Inr c" "cur c = started_entry b" "parents c = []" "same_log b c"
    by (rule wf_start[OF assms(1) d, of TBLOCK_STARTED]) simp_all
  then show "pg_xact b' = pg_xact b" "live_xids (stack b') = live_xids (stack b)"
    using assms(3) d wf_default_xids[OF assms(1,2)]
    by (auto simp: StartTransactionCommand_def set_blockState_def same_log_def stack_def live_xids_Cons own_xids_def
        started_entry_def FullTransactionIdIsValid_def XidFromFullTransactionId_def xid_consts
        InvalidFullTransactionId_def FullTransactionIdFromEpochAndXid_def)
qed

lemma fd_declaration_refused:
  assumes "good_session base s" "fd_names_ok fd_id relation lhs rhs"
    "plans_utility x (trigger_command fd_id (join_with '','' rhs) relation (trigger_cond lhs))"
  obtains s1 s2 where "exec_simple_query x run parse (fd_insert fd_id relation lhs rhs) s =
      Inl (ERROR ''command is not allowed in a non-volatile function'', s1)"
    "live_xids (stack (sess s1)) = live_xids (stack (sess s))" "pg_xact (sess s1) = pg_xact (sess s)"
    "PostgresMain_query x run parse (fd_insert fd_id relation lhs rhs) s = Inr s2" "good_session base s2"
    "recovered base (sess s1) (sess s2)"
proof -
  let ?q = "fd_insert fd_id relation lhs rhs" and ?b = "sess s"
  have g: "wf_backend base ?b" "between_ok False (blocks ?b)" "flag_ok ?b" "idle_ok (blocks ?b)"
    using assms(1) by (simp_all add: good_session_def between_ok_def)
  obtain c where c: "StartTransactionCommand ?b = Inr c" "wf_backend base c" "ready_ok (blocks c)" "\<not> immediate c"
      "if blocks ?b = [TBLOCK_DEFAULT] then blocks c = [TBLOCK_STARTED] else c = ?b"
    using StartTransactionCommand_ok[OF g(1-3)] by (elim exE conjE)
  have quiet: "pg_xact c = pg_xact ?b" "live_xids (stack c) = live_xids (stack ?b)"
    using c(1,5) started_quiet[OF g(1) _ c(1)] by (auto split: if_splits)
  let ?d = "c\<lparr>trace := trace c @ [Call ''SPI_connect'' [], Call ''PushActiveSnapshot'' []]\<rparr>"
  let ?s1 = "s\<lparr>sess := ?d\<rparr>"
  have sd: "stack ?d = stack c" by (simp add: stack_def)
  have wd: "wf_backend base ?d"
    by (rule wf_same_stack[OF c(2)]) (simp_all add: stack_def frame_defs)
  have "length ?q < 1000" using assms(2) by (simp add: fd_names_ok_def)
  then have "fd_prologue x ?q ?b = add_trigger x fd_id relation lhs rhs ?b"
    by (simp add: fd_prologue_def is_fd_insert parse_fd_insert[OF assms(2)])
  also have "\<dots> = Inl (ERROR ''command is not allowed in a non-volatile function'', ?d)"
    by (rule add_trigger_refused[OF assms(3) c(1) add_trigger_fits[OF assms(2)]])
  finally have ex: "exec_simple_query x run parse ?q s = Inl (ERROR ''command is not allowed in a non-volatile function'', ?s1)"
    by (simp add: exec_simple_query_def on_backend_def)
  have "error_ok base ?s1"
    using wf_backend_err[OF wd] ready_plan[OF c(3)] c(4) wf_backend_err[OF c(2)] by (simp add: error_ok_def wf_backend_err immediate_def sd)
  then obtain s2 where "recover ?s1 = Inr s2" "good_session base s2" "recovered base (sess ?s1) (sess s2)"
    using recover_ok by blast
  then show thesis using that[OF ex, of s2] ex quiet by (simp add: PostgresMain_query_def sd)
qed
end
