(* ===== verification/Scenarios.thy ===== *)
theory Scenarios
  imports Messages
begin

section \<open>Concrete states\<close>

text \<open>
  A backend just after start-up, and one inside a transaction block with a savepoint in
  which both levels have an xid. They satisfy the invariant, and the witnesses evaluate
  the routines on them.
\<close>

definition env0 :: xenv where
  "env0 = \<lparr> DefaultXactReadOnly = False, DefaultXactDeferrable = False, DefaultXactIsoLevel = 1,
     RecoveryInProgress = False, IsParallelWorker = False, XLogStandbyInfoActive = True,
     XLogLogicalInfoActive = False, synchronous_commit_on = True, replorigin = False, nrels = 0, nmsgs = 0,
     XactHasExportedSnapshots = False, FirstSnapshotSet = False, portal_rounds = 0, TransactionXmin = 1000,
     raises = [] \<rparr>"

definition idle0 :: backend where
  "idle0 = \<lparr> cur = zero_TransactionStateData, parents = [], XactTopFullTransactionId = 0,
     ParallelCurrentXids = [], currentSubTransactionId = 0, currentCommandId = 0, currentCommandIdUsed = False,
     unreportedXids = [], XactIsoLevel = 1, XactReadOnly = False, XactDeferrable = False,
     save_XactIsoLevel = 0, save_XactReadOnly = False, save_XactDeferrable = False, forceSyncCommit = False,
     MyXactFlags = 0, prepareGID = None, CurrentResourceOwner = None, CurTransactionResourceOwner = None,
     TopTransactionResourceOwner = None, wal_pos = 10, XactLastRecEnd = 0, XactLastCommitEnd = 0,
     CurrentUserId = 10, SecurityRestrictionContext = 0, GUCNestLevel = 0, owner_seq = 0,
     xid_source = [1000, 1001, 1002, 1003], pg_xact = (\<lambda>x. TRANSACTION_STATUS_IN_PROGRESS),
     pg_subtrans = (\<lambda>x. None),
     xact_cache = \<lparr>cachedFetchXid = InvalidTransactionId, cachedFetchXidStatus = TRANSACTION_STATUS_IN_PROGRESS\<rparr>,
     trace = [], env = env0 \<rparr>"

definition top0 :: TransactionStateData where
  "top0 = zero_TransactionStateData\<lparr>fullTransactionId := 1000, subTransactionId := 1, state := TRANS_INPROGRESS,
     blockState := TBLOCK_INPROGRESS, nestingLevel := 1, gucNestLevel := 1, curTransactionOwner := Some 0\<rparr>"

definition sub0 :: TransactionStateData where
  "sub0 = zero_TransactionStateData\<lparr>fullTransactionId := 1001, subTransactionId := 2, name := Some ''s1'',
     state := TRANS_INPROGRESS, blockState := TBLOCK_SUBINPROGRESS, nestingLevel := 2, gucNestLevel := 2,
     curTransactionOwner := Some 1\<rparr>"

definition nested0 :: backend where
  "nested0 = idle0\<lparr>cur := sub0, parents := [top0], XactTopFullTransactionId := 1000,
     currentSubTransactionId := 2, CurrentResourceOwner := Some 1, CurTransactionResourceOwner := Some 1,
     TopTransactionResourceOwner := Some 0, GUCNestLevel := 2, owner_seq := 2, xid_source := [1002, 1003],
     pg_subtrans := [1001 \<mapsto> 1000]\<rparr>"

lemmas scenario_defs = env0_def idle0_def top0_def sub0_def nested0_def zero_TransactionStateData_def

lemma xid_facts:
  "FullTransactionIdIsValid 1000" "FullTransactionIdIsValid 1001" "\<not> FullTransactionIdIsValid 0"
  "XidFromFullTransactionId 1000 = 1000" "XidFromFullTransactionId 1001 = 1001"
  "XidFromFullTransactionId 1002 = 1002" "XidFromFullTransactionId 1003 = 1003" "InvalidFullTransactionId = 0"
  "TransactionIdPrecedes 1000 1001" "TransactionIdPrecedes 1000 1002" "TransactionIdPrecedes 1000 1003"
  "TransactionIdPrecedes 1001 1002" "TransactionIdPrecedes 1001 1003" "TransactionIdPrecedes 1002 1003"
  "1000 \<in> xid_window 900" "1001 \<in> xid_window 900" "1002 \<in> xid_window 900" "1003 \<in> xid_window 900"
  by (simp_all add: FullTransactionIdIsValid_def TransactionIdIsValid_def InvalidTransactionId_def
      XidFromFullTransactionId_def InvalidFullTransactionId_def FullTransactionIdFromEpochAndXid_def
      TransactionIdPrecedes_def TransactionIdIsNormal_def FirstNormalTransactionId_def xid_window_def)

lemma wf_idle0: "wf_backend 900 idle0"
  by (simp add: wf_backend_def wf_defs scenario_defs xid_facts entry_ok_def own_xids_def xids_ok_def cache_ok_def xid_consts)

lemma wf_nested0: "wf_backend 900 nested0"
  by (simp add: wf_backend_def wf_defs scenario_defs xid_facts entry_ok_def own_xids_def xids_ok_def cache_ok_def xid_consts)

text \<open>A session on the idle backend, and a server interface that plans every text as one utility command.\<close>

definition session0 :: session where
  "session0 = \<lparr>sess = idle0, xact_started = False\<rparr>"

definition utility_stmt0 :: PlannedStmt where
  "utility_stmt0 = \<lparr>commandType = CMD_UTILITY, rowMarks = False, hasModifyingCTE = False,
     utilityStmt = Some OtherUtility, canSetTag = True, requiresSnapshot = True\<rparr>"

definition spi0 :: spi where
  "spi0 = \<lparr>spi_parse = (\<lambda>src. Inr [src]), spi_plan = (\<lambda>src b. Inr ([utility_stmt0], b)), spi_pquery = (\<lambda>st b. Inr (5, b)),
     spi_utility = (\<lambda>st b. Inr b)\<rparr>"

lemma good_session0: "good_session 900 session0"
  by (simp add: good_session_def session0_def wf_idle0 flag_ok_def)
     (simp add: idle_ok_def stack_def immediate_def scenario_defs)

lemma plans_utility0: "plans_utility spi0 src"
  by (simp add: plans_utility_def spi0_def utility_stmt0_def)

lemma nested0_live: "live_block (blocks nested0)" "ready_ok (blocks nested0)" "\<not> IsAbortedTransactionBlockState nested0"
  by (simp_all add: ready_ok_def IsAbortedTransactionBlockState_def) (simp_all add: stack_def scenario_defs)

lemma nested0_xids: "live_xids (stack nested0) = [1000, 1001]"
  by (simp add: stack_def live_xids_Cons own_xids_def scenario_defs xid_facts)

text \<open>The block without the savepoint.\<close>

definition block0 :: backend where
  "block0 = idle0\<lparr>cur := top0, XactTopFullTransactionId := 1000,
     currentSubTransactionId := 1, CurrentResourceOwner := Some 0, CurTransactionResourceOwner := Some 0,
     TopTransactionResourceOwner := Some 0, GUCNestLevel := 1, owner_seq := 1, xid_source := [1001, 1002]\<rparr>"

lemma wf_block0: "wf_backend 900 block0"
  by (simp add: block0_def wf_backend_def wf_defs scenario_defs xid_facts entry_ok_def own_xids_def xids_ok_def cache_ok_def xid_consts)

text \<open>The block with the savepoint before either level has an id.\<close>

definition fresh0 :: backend where
  "fresh0 = nested0\<lparr>cur := sub0\<lparr>fullTransactionId := 0\<rparr>, parents := [top0\<lparr>fullTransactionId := 0\<rparr>],
     XactTopFullTransactionId := 0, xid_source := [1000, 1001, 1002], pg_subtrans := (\<lambda>x. None)\<rparr>"

lemma wf_fresh0: "wf_backend 900 fresh0"
  by (simp add: fresh0_def wf_backend_def wf_defs scenario_defs xid_facts entry_ok_def own_xids_def xids_ok_def cache_ok_def xid_consts)

text \<open>The block with the savepoint after its subtransaction has failed.\<close>

definition failed0 :: backend where
  "failed0 = nested0\<lparr>cur := sub0\<lparr>state := TRANS_ABORT, blockState := TBLOCK_SUBABORT\<rparr>,
     pg_xact := (\<lambda>x. if x = 1001 then TRANSACTION_STATUS_ABORTED else TRANSACTION_STATUS_IN_PROGRESS)\<rparr>"

lemma wf_failed0: "wf_backend 900 failed0"
  by (simp add: failed0_def wf_backend_def wf_defs scenario_defs xid_facts entry_ok_def own_xids_def xids_ok_def cache_ok_def xid_consts)

lemma failed0_ready: "ready_ok (blocks failed0)" "IsAbortedTransactionBlockState failed0"
  by (simp_all add: ready_ok_def IsAbortedTransactionBlockState_def failed0_def stack_def scenario_defs)

lemma failed0_xids: "live_xids (stack failed0) = [1000, 1001]"
  by (simp add: failed0_def stack_def live_xids_Cons own_xids_def scenario_defs xid_facts)

end
