(* ===== verification/Commands.thy ===== *)
theory Commands
  imports Utility_Inv
begin

section \<open>What the transaction commands do, end to end\<close>

text \<open>
  A command marks the stack (\<^verbatim>\<open>EndTransactionBlock\<close>, \<^verbatim>\<open>UserAbortTransactionBlock\<close>,
  \<^verbatim>\<open>ReleaseSavepoint\<close>, \<^verbatim>\<open>RollbackToSavepoint\<close>) and \<^verbatim>\<open>CommitTransactionCommand\<close> carries the
  marks out. The lemmas give the commit log and the stack afterwards.
\<close>

definition saved :: "backend \<Rightarrow> backend" where
  "saved b = (if chain (cur b) then SaveTransactionCharacteristics b else b)"

lemma saved_fields [simp]:
  "cur (saved b) = cur b" "parents (saved b) = parents b" "stack (saved b) = stack b" "env (saved b) = env b"
  "pg_xact (saved b) = pg_xact b" "xid_source (saved b) = xid_source b" "wf_backend base (saved b) = wf_backend base b"
  "top (saved b) = top b"
  by (auto simp: saved_def SaveTransactionCharacteristics_def stack_def top_def wf_save[unfolded SaveTransactionCharacteristics_def])

lemma saved_log: "same_log b (saved b)"
  by (simp add: same_log_def saved_def SaveTransactionCharacteristics_def)

lemma commit_cmd_unf: "commit_cmd (Suc n) b = commit_switch (Suc n) (commit_cmd n) (saved b)"
  by (simp add: saved_def when_do_def upd_def sum_case_id)

subsection \<open>Ending a transaction\<close>

text \<open>The state after the end of a transaction block: idle, or in the chained successor.\<close>

definition block_ended :: "TransactionId \<Rightarrow> backend \<Rightarrow> bool \<Rightarrow> backend \<Rightarrow> bool" where
  "block_ended base b ch b' \<longleftrightarrow> wf_backend base b' \<and> live_xids (stack b') = [] \<and> env b' = env b \<and>
     xid_source b' = xid_source b \<and> blocks b' = [if ch then TBLOCK_INPROGRESS else TBLOCK_DEFAULT]"

lemma ended_block: "ended base b ch b' \<Longrightarrow> block_ended base b ch b'"
  by (simp add: ended_def block_ended_def)

definition commit_xids :: "TransactionId list \<Rightarrow> clog \<Rightarrow> clog" where
  "commit_xids xs clog = (\<lambda>x. if x \<in> set xs then TRANSACTION_STATUS_COMMITTED else clog x)"

lemma commit_status_own:
  assumes "wf_core base b" "parents b = []"
  shows "commit_status b = commit_xids (live_xids (stack b)) (pg_xact b)"
proof -
  have "entry_ok (cur b)" "XactTopFullTransactionId b = fullTransactionId (cur b)"
    using assms by (auto simp: wf_defs)
  then show ?thesis
    using assms(2)
    by (auto simp: commit_status_def commit_xids_def own_xids_def entry_ok_def set_tree_status_def fun_eq_iff stack_def
        GetTopTransactionIdIfAny_def FullTransactionIdIsValid_def TransactionIdCommitTree_def)
qed

lemma rollback_plan_tail:
  assumes "rollback_plan (x # y # zs)"
  shows "x \<in> {TBLOCK_SUBABORT_END, TBLOCK_SUBABORT_PENDING}" "rollback_plan (y # zs)"
proof -
  obtain hs :: "TBlockState list" and n where hs: "length hs \<le> 1"
    "x # y # zs = map (\<lambda>_. TBLOCK_SUBABORT_END) hs @ replicate n TBLOCK_SUBABORT_PENDING @ [TBLOCK_ABORT_PENDING]"
    using assms by (auto simp: rollback_plan_def)
  have "\<exists>m. x \<in> {TBLOCK_SUBABORT_END, TBLOCK_SUBABORT_PENDING} \<and>
      y # zs = replicate m TBLOCK_SUBABORT_PENDING @ [TBLOCK_ABORT_PENDING]"
  proof (cases hs)
    case Nil
    then show ?thesis using hs by (cases n) auto
  next
    case (Cons h hs')
    then show ?thesis using hs by auto
  qed
  then obtain m where m: "x \<in> {TBLOCK_SUBABORT_END, TBLOCK_SUBABORT_PENDING}"
    "y # zs = map (\<lambda>_. TBLOCK_SUBABORT_END) ([] :: TBlockState list) @ replicate m TBLOCK_SUBABORT_PENDING @ [TBLOCK_ABORT_PENDING]"
    by auto
  show "x \<in> {TBLOCK_SUBABORT_END, TBLOCK_SUBABORT_PENDING}" by (rule m(1))
  show "rollback_plan (y # zs)" unfolding rollback_plan_def using m(2)
    by (intro disjI2 exI[of _ "[]"] exI[of _ m]) simp
qed

lemma rollback_cmd:
  "wf_backend base b \<Longrightarrow> rollback_plan (blocks b) \<Longrightarrow> length (parents b) < n \<Longrightarrow>
   \<exists>d. commit_cmd n b = Inr d \<and> block_ended base b (chain (top b)) d \<and>
     pg_xact d = abort_xids (live_xids (stack b)) (pg_xact b)"
proof (induction n arbitrary: b)
  case (Suc n)
  let ?c = "saved b"
  have unf: "commit_cmd (Suc n) b = commit_switch (Suc n) (commit_cmd n) ?c"
    by (rule commit_cmd_unf)
  have wc: "wf_backend base ?c" "wf_err base ?c" using Suc.prems(1) by (simp_all add: wf_backend_err)
  have wcc: "wf_core base ?c" using wc(1) by (simp add: wf_backend_def)
  show ?case
  proof (cases "parents b")
    case Nil
    then have bl: "blocks b = [blockState (cur b)]" "stack b = [cur b]" "top b = cur b" by (simp_all add: stack_def top_def)
    have "blockState (cur b) \<in> {TBLOCK_ABORT_END, TBLOCK_ABORT_PENDING}"
      using Suc.prems(2) bl(1) rollback_plan_ok[OF Suc.prems(2)] by simp
    then consider (over) "blockState (cur ?c) = TBLOCK_ABORT_END" | (pending) "blockState (cur ?c) = TBLOCK_ABORT_PENDING" by auto
    then show ?thesis
    proof cases
      case over
      have pre: "trans_of (blockState (cur ?c)) = TRANS_ABORT" "parents ?c = []" using over Nil by simp_all
      have id: "abort_xids (own_xids (cur b)) (pg_xact b) = pg_xact b"
        using abort_xids_done[of base ?c] wc(1) pre by (simp add: wf_backend_def wf_core_def)
      show ?thesis
      proof (rule cleanup_top_effect[OF wc(1) pre])
        fix d assume "seq [CleanupTransaction, set_blockState TBLOCK_DEFAULT, restart_chain] ?c = Inr d"
          "ended base ?c (chain (cur ?c)) d" "pg_xact d = pg_xact ?c"
        then show ?thesis unfolding unf using over id bl
          by (simp add: commit_switch_def with_state_def ended_def block_ended_def)
      qed
    next
      case pending
      have pre: "trans_of (blockState (cur ?c)) = TRANS_INPROGRESS" "parents ?c = []" using pending Nil by simp_all
      show ?thesis
      proof (rule abort_top_effect[OF wc(2) pre])
        fix d assume "seq [AbortTransaction, CleanupTransaction, set_blockState TBLOCK_DEFAULT, restart_chain] ?c = Inr d"
          "ended base ?c (chain (cur ?c)) d" "pg_xact d = abort_status ?c"
        then show ?thesis unfolding unf using pending bl abort_status_own[OF wf_entry[OF wcc]]
          by (simp add: commit_switch_def with_state_def ended_def block_ended_def)
      qed
    qed
  next
    case (Cons p ps)
    have sub: "blockState (cur b) \<in> {TBLOCK_SUBABORT_END, TBLOCK_SUBABORT_PENDING}" "rollback_plan (map blockState (p # ps))"
      using rollback_plan_tail[of "blockState (cur b)" "blockState p" "map blockState ps"] Suc.prems(2) Cons
      by (simp_all add: stack_def)
    have pc: "parents ?c = p # ps" using Cons by simp
    show ?thesis
    proof (rule leave_sub[OF wc(2) pc refl])
      fix e assume e: "(if trans_of (blockState (cur ?c)) = TRANS_ABORT then CleanupSubTransaction
          else seq [AbortSubTransaction, CleanupSubTransaction]) ?c = Inr e"
        "cur e = p" "parents e = ps" "wf_backend base e"
        "pg_xact e = abort_xids (own_xids (cur ?c)) (pg_xact ?c)" "env e = env ?c" "xid_source e = xid_source ?c"
      have "commit_cmd (Suc n) b = commit_cmd n e"
        unfolding unf using sub(1) e(1) by (auto simp: commit_switch_def with_state_def sum_case_id split: sum.splits)
      moreover have "\<exists>d. commit_cmd n e = Inr d \<and> block_ended base e (chain (top e)) d \<and>
          pg_xact d = abort_xids (live_xids (stack e)) (pg_xact e)"
        using Suc.prems(3) Cons e(2,3) sub(2) by (intro Suc.IH e(4)) (simp_all add: stack_def)
      moreover have "stack b = cur b # stack e" "top e = top b" using e(2,3) Cons by (simp_all add: stack_def top_def)
      ultimately show ?thesis using e(5-7)
        by (auto simp: block_ended_def live_xids_Cons abort_xids_def fun_eq_iff)
    qed
  qed
qed simp

subsection \<open>Committing with savepoints\<close>

lemma replicate_prefix:
  assumes "bs = replicate n x @ y # ys" "y \<noteq> x" "j \<le> n"
  shows "bs ! j = x \<longleftrightarrow> j < n"
  using assms by (cases "j = n") (auto simp: nth_append)

lemma drop_last: "xs \<noteq> [] \<Longrightarrow> drop (length xs - 1) xs = [last xs]"
  by (metis append_butlast_last_id append_eq_conv_conj length_butlast)

lemma drop_marked: "j \<le> t \<Longrightarrow> drop j (replicate (Suc t) x @ ys) = replicate (Suc (t - j)) x @ ys"
  by (simp add: Suc_diff_le del: replicate.simps)

text \<open>The loop over the marked subtransactions, on a stack whose first \<open>n\<close> entries carry the mark.\<close>

lemma commit_marked:
  assumes "wf_backend base b" "blocks b = replicate (Suc n) x @ y # ys" "y \<noteq> x" "trans_of x = TRANS_INPROGRESS" "n < k"
  obtains c where "commit_subs x k b = Inr c" "wf_backend base c"
      "map skel (stack c) = map skel (drop (Suc n) (stack b))" "live_xids (stack c) = live_xids (stack b)"
      "same_log b c" "same_rest b c"
  | m c j where "commit_subs x k b = Inl (ERROR m, c)" "wf_err base c" "j \<le> n"
      "blocks c = drop j (blocks b)" "same_log b c" "same_rest b c" "live_xids (stack c) = live_xids (stack b)"
proof -
  have len: "length (blocks b) = Suc n + Suc (length ys)" unfolding assms(2) by simp
  then have l: "Suc n < length (stack b)" by simp
  have "blockState (stack b ! j) = x \<longleftrightarrow> j < Suc n" if "j \<le> Suc n" for j
    using replicate_prefix[OF assms(2,3) that] that l by simp
  from assms(1,4) _ l this _ show thesis
  proof (rule commit_subs_cases[of base b x "Suc n" k])
    show "Suc n \<le> k" using assms(5) by simp
  qed (use that in \<open>auto simp: less_Suc_eq_le\<close>)
qed

text \<open>
  The last step of ending a block, and how the marked subtransactions are merged before it. If that
  fails, the marks of the entries that are left are still in place.
\<close>

definition final_step :: "TBlockState \<Rightarrow> xstmt" where
  "final_step y = (if y = TBLOCK_END then seq [CommitTransaction, set_blockState TBLOCK_DEFAULT, restart_chain]
     else seq [PrepareTransaction, set_blockState TBLOCK_DEFAULT])"

lemma commit_reaches_top:
  assumes "wf_backend base b" "blocks b = replicate n TBLOCK_SUBCOMMIT @ [y]" "y \<in> {TBLOCK_END, TBLOCK_PREPARE}"
  obtains (top) c where "CommitTransactionCommand b = final_step y c" "wf_backend base c" "blocks c = [y]"
      "live_xids (stack c) = live_xids (stack b)" "same_log b c" "same_rest (saved b) c" "chain (cur c) = chain (top b)"
  | (failed) m d k where "CommitTransactionCommand b = Inl (ERROR m, d)" "wf_err base d"
      "blocks d = replicate k TBLOCK_SUBCOMMIT @ [y]" "live_xids (stack d) = live_xids (stack b)"
      "pg_xact d = pg_xact b" "env d = env b"
proof -
  let ?c = "saved b"
  let ?n = "length (parents b)"
  have len: "?n = n" using arg_cong[OF assms(2), of length] by (simp add: stack_def)
  have unf: "CommitTransactionCommand b = commit_switch (Suc ?n) (commit_cmd ?n) ?c"
    unfolding CommitTransactionCommand_def by (rule commit_cmd_unf)
  have wc: "wf_backend base ?c" using assms(1) by simp
  have bc: "blocks ?c = replicate n TBLOCK_SUBCOMMIT @ [y]" using assms(2) by simp
  note logs = saved_log[of b]
  show thesis
  proof (cases n)
    case 0
    then have bs: "blockState (cur b) = y" "top b = cur b" using assms(2) by (simp_all add: blocks_Cons top_def stack_def)
    show thesis
      using wc bc 0 bs logs assms(3)
      by (intro top[of ?c]) (auto simp: unf commit_switch_def with_state_def same_rest_def final_step_def)
  next
    case (Suc k)
    have bs: "blockState (cur b) = TBLOCK_SUBCOMMIT" using assms(2) Suc by (simp add: blocks_Cons)
    have ne: "y \<noteq> TBLOCK_SUBCOMMIT" using assms(3) by auto
    show thesis
    proof (rule commit_marked[OF wc bc[unfolded Suc] ne, of "Suc ?n"])
      fix c assume c: "commit_subs TBLOCK_SUBCOMMIT (Suc ?n) ?c = Inr c" "wf_backend base c"
        "map skel (stack c) = map skel (drop (Suc k) (stack ?c))" "live_xids (stack c) = live_xids (stack ?c)"
        "same_log ?c c" "same_rest ?c c"
      have bl: "blocks c = [y]" using skel_blocks[OF c(3)] bc Suc by (simp add: drop_map[symmetric])
      have "drop (Suc k) (stack b) = [top b]"
        using drop_last[of "stack b"] len Suc by (simp add: top_def) (simp add: stack_def)
      then have sk: "skel (cur c) = skel (top b)" using c(3) bl by (simp add: stack_def)
      then have ch: "chain (cur c) = chain (top b)" by (metis skel_fields(6))
      have "parents c = []" "blockState (cur c) = y" using bl by (simp_all add: blocks_Cons)
      then have eq: "CommitTransactionCommand b = final_step y c"
        using bs c(1) assms(3)
        by (auto simp: unf commit_switch_def with_state_def assert_that_def sum_case_id final_step_def)
      show thesis
        by (rule top[OF eq c(2) bl _ _ c(6) ch]) (use c(4,5) logs in \<open>simp_all add: same_log_def\<close>)
    next
      fix m c j assume c: "commit_subs TBLOCK_SUBCOMMIT (Suc ?n) ?c = Inl (ERROR m, c)" "wf_err base c" "j \<le> k"
        "blocks c = drop j (blocks ?c)" "same_log ?c c" "same_rest ?c c" "live_xids (stack c) = live_xids (stack ?c)"
      have bl: "blocks c = replicate (Suc (k - j)) TBLOCK_SUBCOMMIT @ [y]"
        using c(3,4) bc Suc drop_marked[of j k TBLOCK_SUBCOMMIT "[y]"] by (simp only:)
      show thesis using bs c logs
        by (intro failed[of m c, OF _ _ bl]) (simp_all add: unf commit_switch_def with_state_def same_log_def same_rest_def)
    qed (use len Suc in simp_all)
  qed
qed

lemma commit_cmd_commits:
  assumes "wf_backend base b" "blocks b = replicate n TBLOCK_SUBCOMMIT @ [TBLOCK_END]"
  obtains (committed) d where "CommitTransactionCommand b = Inr d" "block_ended base b (chain (top b)) d"
      "pg_xact d = commit_xids (live_xids (stack b)) (pg_xact b)"
      "chain (top b) \<Longrightarrow> XactReadOnly d = save_XactReadOnly (saved b) \<and> XactIsoLevel d = save_XactIsoLevel (saved b) \<and>
         XactDeferrable d = save_XactDeferrable (saved b)"
  | (failed) m d k where "CommitTransactionCommand b = Inl (ERROR m, d)" "wf_err base d"
      "blocks d = replicate k TBLOCK_SUBCOMMIT @ [TBLOCK_END]" "live_xids (stack d) = live_xids (stack b)"
      "pg_xact d = pg_xact b" "env d = env b"
proof -
  have "TBLOCK_END \<in> {TBLOCK_END, TBLOCK_PREPARE}" by simp
  from assms this show thesis
  proof (cases rule: commit_reaches_top)
    case c: (top c)
    have pre: "trans_of (blockState (cur c)) = TRANS_INPROGRESS" "parents c = []" using c(3) by (simp_all add: blocks_Cons)
    have cs: "commit_status c = commit_xids (live_xids (stack b)) (pg_xact b)"
      using commit_status_own[of base c] c(2,4,5) pre by (simp add: wf_backend_def same_log_def)
    show thesis
    proof (rule commit_top_cases[OF c(2) pre])
      fix d assume d: "seq [CommitTransaction, set_blockState TBLOCK_DEFAULT, restart_chain] c = Inr d"
        "ended base c (chain (cur c)) d" "pg_xact d = commit_status c"
      then show thesis using c cs
        by (intro committed[of d]) (simp_all add: ended_def block_ended_def same_log_def same_rest_def final_step_def)
    next
      fix m d assume d: "seq [CommitTransaction, set_blockState TBLOCK_DEFAULT, restart_chain] c = Inl (ERROR m, d)"
        "wf_err base d" "blocks d = blocks c" "same_log c d" "env d = env c" "live_xids (stack d) = live_xids (stack c)"
      then show thesis using c by (intro failed[of m d 0]) (simp_all add: same_log_def same_rest_def final_step_def)
    qed
  next
    case (failed m d k)
    then show thesis using that(2) by blast
  qed
qed

lemma prepare_cmd:
  assumes "wf_backend base b" "blocks b = replicate n TBLOCK_SUBCOMMIT @ [TBLOCK_PREPARE]"
  obtains (prepared) d where "CommitTransactionCommand b = Inr d" "wf_backend base d" "blocks d = [TBLOCK_DEFAULT]"
      "pg_xact d = pg_xact b"
  | (failed) m d k where "CommitTransactionCommand b = Inl (ERROR m, d)" "wf_err base d"
      "blocks d = replicate k TBLOCK_SUBCOMMIT @ [TBLOCK_PREPARE]" "more_xids b d" "pg_xact d = pg_xact b"
proof -
  have "TBLOCK_PREPARE \<in> {TBLOCK_END, TBLOCK_PREPARE}" by simp
  from assms this show thesis
  proof (cases rule: commit_reaches_top)
    case c: (top c)
    have pre: "trans_of (blockState (cur c)) = TRANS_INPROGRESS" "parents c = []" using c(3) by (simp_all add: blocks_Cons)
    show thesis
    proof (rule prepare_top_cases[OF c(2) pre])
      fix d assume "seq [PrepareTransaction, set_blockState TBLOCK_DEFAULT] c = Inr d"
        "wf_backend base d" "blocks d = [TBLOCK_DEFAULT]" "pg_xact d = pg_xact c"
      then show thesis using c by (intro prepared[of d]) (simp_all add: same_log_def final_step_def)
    next
      fix m d assume "seq [PrepareTransaction, set_blockState TBLOCK_DEFAULT] c = Inl (ERROR m, d)"
        "wf_err base d" "blocks d = blocks c" "pg_xact d = pg_xact c" "more_xids c d"
      then show thesis using c
        by (intro failed[of m d 0]) (simp_all add: same_log_def final_step_def more_xids_def)
    qed
  next
    case (failed m d k)
    then show thesis by (intro that(2)[of m d k]) (simp_all add: more_xids_def)
  qed
qed

subsection \<open>Savepoints\<close>

lemma release_cmd:
  assumes "wf_backend base b" "blocks b = replicate (Suc t) TBLOCK_SUBRELEASE @ ts" "live_block ts"
  obtains (released) d where "CommitTransactionCommand b = Inr d" "wf_backend base d"
      "map skel (stack d) = map skel (drop (Suc t) (stack b))" "live_xids (stack d) = live_xids (stack b)"
      "pg_xact d = pg_xact b"
  | (failed) m d where "CommitTransactionCommand b = Inl (ERROR m, d)" "wf_err base d" "plan_ok (blocks d)"
      "pg_xact d = pg_xact b"
proof -
  let ?c = "saved b"
  let ?n = "length (parents b)"
  obtain y ys where ts: "ts = y # ys" "y \<noteq> TBLOCK_SUBRELEASE"
    using assms(3) by (cases ts rule: live_block.cases) auto
  have unf: "CommitTransactionCommand b = commit_switch (Suc ?n) (commit_cmd ?n) ?c"
    unfolding CommitTransactionCommand_def by (rule commit_cmd_unf)
  have bs: "blockState (cur b) = TBLOCK_SUBRELEASE" using assms(2) by (simp add: blocks_Cons)
  have wc: "wf_backend base ?c" using assms(1) by simp
  have bc: "blocks ?c = replicate (Suc t) TBLOCK_SUBRELEASE @ y # ys" using assms(2) ts by simp
  have len: "t < Suc ?n" using arg_cong[OF assms(2), of length] ts by (simp add: stack_def)
  show thesis
  proof (rule commit_marked[OF wc bc ts(2) _ len])
    fix c assume c: "commit_subs TBLOCK_SUBRELEASE (Suc ?n) ?c = Inr c" "wf_backend base c"
      "map skel (stack c) = map skel (drop (Suc t) (stack ?c))" "live_xids (stack c) = live_xids (stack ?c)"
      "same_log ?c c" "same_rest ?c c"
    have "blocks c = ts" using skel_blocks[OF c(3)] bc ts by (simp add: drop_map[symmetric])
    then have "blockState (cur c) \<in> {TBLOCK_INPROGRESS, TBLOCK_SUBINPROGRESS}" using assms(3) live_cur[of c] by simp
    then have "CommitTransactionCommand b = Inr c"
      using bs c(1) by (auto simp: unf commit_switch_def with_state_def assert_that_def)
    then show thesis using c saved_log[of b] by (intro released[of c]) (simp_all add: same_log_def)
  next
    fix m c j assume c: "commit_subs TBLOCK_SUBRELEASE (Suc ?n) ?c = Inl (ERROR m, c)" "wf_err base c" "j \<le> t"
      "blocks c = drop j (blocks ?c)" "same_log ?c c" "same_rest ?c c"
    have "blocks c = replicate (Suc (t - j)) TBLOCK_SUBRELEASE @ ts"
      using c(3,4) bc ts drop_marked[of j t TBLOCK_SUBRELEASE ts] by (simp only:)
    then have "plan_ok (blocks c)" using plan_release[OF assms(3), of "t - j"] by simp
    then show thesis using bs c saved_log[of b]
      by (intro failed[of m c]) (simp_all add: unf commit_switch_def with_state_def same_log_def)
  qed simp
qed

text \<open>The plan of \<^verbatim>\<open>ROLLBACK TO\<close>: entries to abort, then the savepoint to start afresh.\<close>

definition restart_plan :: "nat \<Rightarrow> TBlockState list \<Rightarrow> bool" where
  "restart_plan t bs \<longleftrightarrow> t < length bs \<and> live_block (drop (Suc t) bs) \<and>
     bs ! t \<in> {TBLOCK_SUBRESTART, TBLOCK_SUBABORT_RESTART} \<and>
     (\<forall>j < t. bs ! j \<in> {TBLOCK_SUBABORT_END, TBLOCK_SUBABORT_PENDING})"

lemma restart_cmd:
  "wf_backend base b \<Longrightarrow> restart_plan t (blocks b) \<Longrightarrow> length (parents b) < n \<Longrightarrow>
   (\<exists>d. commit_cmd n b = Inr d \<and> wf_backend base d \<and> parents d = drop (Suc t) (stack b) \<and>
      blockState (cur d) = TBLOCK_SUBINPROGRESS \<and> name (cur d) = name (stack b ! t) \<and>
      savepointLevel (cur d) = savepointLevel (stack b ! t) \<and> own_xids (cur d) = [] \<and>
      pg_xact d = abort_xids (live_xids (take (Suc t) (stack b))) (pg_xact b)) \<or>
   (\<exists>m d. commit_cmd n b = Inl (ERROR m, d) \<and> wf_err base d \<and> stack d = drop (Suc t) (stack b) \<and>
      pg_xact d = abort_xids (live_xids (take (Suc t) (stack b))) (pg_xact b))"
proof (induction n arbitrary: b t)
  case (Suc n)
  let ?c = "saved b"
  have unf: "commit_cmd (Suc n) b = commit_switch (Suc n) (commit_cmd n) ?c" by (rule commit_cmd_unf)
  obtain p ps where p: "parents b = p # ps"
    using Suc.prems(2) by (cases "parents b") (auto simp: restart_plan_def stack_def)
  show ?case
  proof (cases t)
    case 0
    have cur: "blockState (cur b) \<in> {TBLOCK_SUBRESTART, TBLOCK_SUBABORT_RESTART}" and l: "live_block (map blockState (p # ps))"
      using Suc.prems(2) p by (auto simp: restart_plan_def stack_def 0)
    let ?b = "?c\<lparr>cur := (cur b)\<lparr>name := None\<rparr>\<rparr>"
    have wc: "wf_backend base ?c" using Suc.prems(1) by simp
    have w: "wf_backend base ?b"
      by (rule wf_same_cur[OF wc, where x = None and y = "chain (cur b)" and z = "savepointLevel (cur b)"])
         (simp_all add: frame_defs)
    have pb: "parents ?b = p # ps" using p by simp
    show ?thesis
    proof (rule leave_sub[OF wf_backend_err[OF w] pb refl])
      fix e assume e: "(if trans_of (blockState (cur ?b)) = TRANS_ABORT then CleanupSubTransaction
          else seq [AbortSubTransaction, CleanupSubTransaction]) ?b = Inr e"
        "cur e = p" "parents e = ps" "wf_backend base e"
        "pg_xact e = abort_xids (own_xids (cur ?b)) (pg_xact ?b)"
      have eq: "commit_cmd (Suc n) b = redefine_savepoint (name (cur b)) (savepointLevel (cur b)) e"
        unfolding unf using cur e(1)
        by (auto simp: commit_switch_def with_state_def upd_def set_cur_def sum_case_id split: sum.splits)
      have px: "pg_xact e = abort_xids (live_xids (take (Suc t) (stack b))) (pg_xact b)"
        using e(5) by (simp add: 0 stack_def)
      have st: "stack e = drop (Suc t) (stack b)" using e(2,3) p by (simp add: stack_def 0)
      have "blockState (cur e) \<in> {TBLOCK_INPROGRESS, TBLOCK_SUBINPROGRESS}"
        using l live_cur[of e] e(2,3) by (simp add: stack_def)
      with e(4) show ?thesis
      proof (cases rule: redefine_savepoint_cases[where sp = "name (cur b)" and lvl = "savepointLevel (cur b)"])
        case (1 d)
        have "parents d = drop (Suc t) (stack b)" using 1(2) st by (simp add: stack_def)
        then show ?thesis using 1 px unfolding eq by (simp add: 0 stack_def same_log_def)
      next
        case (2 m)
        then show ?thesis using e(4) px st unfolding eq by (simp add: wf_backend_err)
      qed
    qed
  next
    case (Suc k)
    have sub: "blockState (cur b) \<in> {TBLOCK_SUBABORT_END, TBLOCK_SUBABORT_PENDING}"
      "restart_plan k (map blockState (p # ps))"
      using Suc.prems(2) p by (auto simp: restart_plan_def stack_def Suc)
    have wc: "wf_err base ?c" "parents ?c = p # ps" using Suc.prems(1) p by (simp_all add: wf_backend_err)
    show ?thesis
    proof (rule leave_sub[OF wc refl])
      fix e assume e: "(if trans_of (blockState (cur ?c)) = TRANS_ABORT then CleanupSubTransaction
          else seq [AbortSubTransaction, CleanupSubTransaction]) ?c = Inr e"
        "cur e = p" "parents e = ps" "wf_backend base e"
        "pg_xact e = abort_xids (own_xids (cur ?c)) (pg_xact ?c)" "env e = env ?c" "xid_source e = xid_source ?c"
      have eq: "commit_cmd (Suc n) b = commit_cmd n e"
        unfolding unf using sub(1) e(1) by (auto simp: commit_switch_def with_state_def sum_case_id split: sum.splits)
      have st: "stack b = cur b # stack e" using e(2,3) p by (simp add: stack_def)
      have px: "abort_xids (live_xids (take (Suc k) (stack e))) (pg_xact e) =
          abort_xids (live_xids (take (Suc t) (stack b))) (pg_xact b)"
        using e(5) by (simp add: st Suc live_xids_Cons abort_xids_def fun_eq_iff)
      have "restart_plan k (blocks e)" using sub(2) e(2,3) by (simp add: stack_def)
      from Suc.IH[OF e(4) this] show ?thesis
        using Suc.prems(3) p e(3) unfolding eq px by (simp add: st Suc)
    qed
  qed
qed simp

subsection \<open>The commands\<close>

lemma remarked_xids: "remarked b c \<Longrightarrow> live_xids (stack c) = live_xids (stack b) \<and> pg_xact c = pg_xact b \<and> env c = env b"
  by (auto simp: remarked_def live_xids_reblock same_log_def same_rest_def)

text \<open>Recovery from a commit that failed on the way leaves the transaction and aborts all of it.\<close>

lemma abort_commit_plan:
  "wf_err base b \<Longrightarrow> blocks b = replicate k TBLOCK_SUBCOMMIT @ [y] \<Longrightarrow> y \<in> {TBLOCK_END, TBLOCK_PREPARE} \<Longrightarrow>
   length (parents b) < n \<Longrightarrow>
   \<exists>e. abort_cur n b = Inr e \<and> wf_backend base e \<and> blocks e = [TBLOCK_DEFAULT] \<and>
     pg_xact e = abort_xids (live_xids (stack b)) (pg_xact b)"
proof (induction n arbitrary: b k)
  case (Suc n)
  show ?case
  proof (cases k)
    case 0
    then have p: "parents b = []" "blockState (cur b) = y" using Suc.prems(2) by (simp_all add: blocks_Cons)
    have tr: "trans_of (blockState (cur b)) \<noteq> TRANS_DEFAULT" using p Suc.prems(3) by auto
    show ?thesis
    proof (rule leave_top[OF Suc.prems(1) p(1) tr refl])
      fix e assume "(if trans_of (blockState (cur b)) = TRANS_ABORT
            then seq [CleanupTransaction, set_blockState TBLOCK_DEFAULT]
            else seq [AbortTransaction, CleanupTransaction, set_blockState TBLOCK_DEFAULT]) b = Inr e"
        "blocks e = [TBLOCK_DEFAULT]" "wf_backend base e" "pg_xact e = abort_xids (own_xids (cur b)) (pg_xact b)"
      then show ?thesis using p Suc.prems(3) by (auto simp: with_state_def stack_def)
    qed
  next
    case (Suc j)
    then obtain p ps where p: "parents b = p # ps" "blockState (cur b) = TBLOCK_SUBCOMMIT"
      "map blockState (p # ps) = replicate j TBLOCK_SUBCOMMIT @ [y]"
      using Suc.prems(2) by (cases "parents b") (auto simp: stack_def)
    show ?thesis
    proof (rule leave_sub[OF Suc.prems(1) p(1) refl])
      fix c assume c: "(if trans_of (blockState (cur b)) = TRANS_ABORT then CleanupSubTransaction
          else seq [AbortSubTransaction, CleanupSubTransaction]) b = Inr c"
        "cur c = p" "parents c = ps" "wf_backend base c" "pg_xact c = abort_xids (own_xids (cur b)) (pg_xact b)"
      have eq: "abort_cur (Suc n) b = abort_cur n c"
        using p(2) c(1) by (auto simp: with_state_def sum_case_id split: sum.splits)
      have st: "stack b = cur b # stack c" using c(2,3) p(1) by (simp add: stack_def)
      have "blocks c = replicate j TBLOCK_SUBCOMMIT @ [y]" using p(3) c(2,3) by (simp add: stack_def)
      from Suc.IH[OF wf_backend_err[OF c(4)] this Suc.prems(3)] obtain e where "abort_cur n c = Inr e" "wf_backend base e"
        "blocks e = [TBLOCK_DEFAULT]" "pg_xact e = abort_xids (live_xids (stack c)) (pg_xact c)"
        using Suc.prems(4) p(1) c(3) by auto
      then show ?thesis unfolding eq using c(5) by (auto simp: st live_xids_Cons abort_xids_def fun_eq_iff)
    qed
  qed
qed simp

lemma recover_commit_plan:
  assumes "wf_err base b" "blocks b = replicate k TBLOCK_SUBCOMMIT @ [y]" "y \<in> {TBLOCK_END, TBLOCK_PREPARE}"
  obtains e where "AbortCurrentTransaction b = Inr e" "wf_backend base e" "blocks e = [TBLOCK_DEFAULT]"
    "pg_xact e = abort_xids (live_xids (stack b)) (pg_xact b)"
  using abort_commit_plan[OF assms lessI] unfolding AbortCurrentTransaction_def by (elim exE conjE)

text \<open>\<^verbatim>\<open>COMMIT\<close> in a live block, and what is left if it fails on the way.\<close>

lemma COMMIT_block:
  assumes "wf_backend base b" "live_block (blocks b)"
  obtains (committed) c d where "EndTransactionBlock ch b = Inr (True, c)" "CommitTransactionCommand c = Inr d"
      "wf_backend base d" "live_xids (stack d) = []" "length (blocks d) = 1"
      "pg_xact d = commit_xids (live_xids (stack b)) (pg_xact b)"
  | (failed) c m d e where "EndTransactionBlock ch b = Inr (True, c)" "CommitTransactionCommand c = Inl (ERROR m, d)"
      "pg_xact d = pg_xact b" "AbortCurrentTransaction d = Inr e" "wf_backend base e" "blocks e = [TBLOCK_DEFAULT]"
      "pg_xact e = abort_xids (live_xids (stack b)) (pg_xact b)"
proof -
  have r: "ready_ok (blocks b)" using assms(2) by (simp add: ready_ok_def)
  have na: "\<not> IsAbortedTransactionBlockState b"
    using live_cur[OF assms(2)] by (auto simp: IsAbortedTransactionBlockState_def)
  from assms(1) r show thesis
  proof (cases rule: EndTransactionBlock_cases[where ch = ch])
    case (commits c)
    have wc: "wf_backend base c" using commits(3) by (simp add: planned_def)
    note same = remarked_xids[OF commits(4)]
    obtain n where n: "blocks c = replicate n TBLOCK_SUBCOMMIT @ [TBLOCK_END]"
      using commits(2) commits(6)[OF assms(2)] by (auto simp: commit_plan_def)
    from wc n show thesis
    proof (cases rule: commit_cmd_commits)
      case (committed d)
      then show thesis using same commits(1) that(1)[of c d] by (auto simp: block_ended_def)
    next
      case (failed m d k)
      obtain e where "AbortCurrentTransaction d = Inr e" "wf_backend base e" "blocks e = [TBLOCK_DEFAULT]"
        "pg_xact e = abort_xids (live_xids (stack d)) (pg_xact d)"
        by (rule recover_commit_plan[OF failed(2,3)]) simp
      then show thesis using same commits(1) failed that(2)[of c m d e] by simp
    qed
  qed (use na assms(2) in simp_all)
qed

text \<open>
  \<^verbatim>\<open>PREPARE TRANSACTION\<close> in a live block: the backend forgets the transaction, whose ids stay in
  progress; if it fails, all of them are aborted.
\<close>

lemma PREPARE_block:
  assumes "wf_backend base b" "live_block (blocks b)"
  obtains (prepared) c d where "PrepareTransactionBlock gid b = Inr (True, c)" "CommitTransactionCommand c = Inr d"
      "wf_backend base d" "blocks d = [TBLOCK_DEFAULT]" "pg_xact d = pg_xact b"
  | (failed) c m d e where "PrepareTransactionBlock gid b = Inr (True, c)" "CommitTransactionCommand c = Inl (ERROR m, d)"
      "AbortCurrentTransaction d = Inr e" "wf_backend base e" "blocks e = [TBLOCK_DEFAULT]" "more_xids b d"
      "pg_xact e = abort_xids (live_xids (stack d)) (pg_xact b)"
proof -
  have r: "ready_ok (blocks b)" using assms(2) by (simp add: ready_ok_def)
  from assms(1) r show thesis
  proof (cases rule: PrepareTransactionBlock_cases[where gid = gid])
    case (prepares c)
    have wc: "wf_backend base c" using prepares(2) by (simp add: planned_def)
    note same = remarked_xids[OF prepares(5)]
    obtain n where "blocks c = replicate n TBLOCK_SUBCOMMIT @ [TBLOCK_PREPARE]" using prepares(6) by blast
    with wc show thesis
    proof (cases rule: prepare_cmd)
      case (prepared d)
      then show thesis using same prepares(1) that(1) by simp
    next
      case (failed m d k)
      obtain e where "AbortCurrentTransaction d = Inr e" "wf_backend base e" "blocks e = [TBLOCK_DEFAULT]"
        "pg_xact e = abort_xids (live_xids (stack d)) (pg_xact d)"
        by (rule recover_commit_plan[OF failed(2,3)]) simp
      then show thesis using same prepares(1) failed that(2)[of c m d e] by (simp add: more_xids_def)
    qed
  qed (use assms(2) in simp)
qed

lemma mark_stack_hd: "mark_stack fs ft (s # t # ss) = (rs, ok) \<Longrightarrow> \<exists>r r' rr. rs = r # r' # rr \<and> chain r = chain s"
proof -
  assume a: "mark_stack fs ft (s # t # ss) = (rs, ok)"
  obtain qs k where q: "mark_stack fs ft (t # ss) = (qs, k)" by fastforce
  then have "\<exists>q q'. qs = q # q'" by (cases ss) (auto split: option.splits prod.splits)
  then show ?thesis using a q by (auto split: option.splits)
qed

lemma set_top_parents:
  "parents b \<noteq> [] \<Longrightarrow> cur (set_top f b) = cur b \<and> top (set_top f b) = f (top b) \<and> parents (set_top f b) \<noteq> []"
  by (simp add: set_top_def top_def stack_def)

lemma set_top_single: "parents b = [] \<Longrightarrow> cur (set_top f b) = f (cur b) \<and> parents (set_top f b) = []"
  by (simp add: set_top_def)

text \<open>Where \<^verbatim>\<open>COMMIT AND CHAIN\<close> leaves its flag: on the top entry.\<close>

lemma EndTransactionBlock_chain:
  assumes "live_block (blocks b)" "EndTransactionBlock ch b = Inr (r, c)"
  shows "same_chars b c" "chain (top c) = ch" "parents b \<noteq> [] \<Longrightarrow> chain (cur c) = chain (cur b)"
proof -
  have "same_chars b c \<and> chain (top c) = ch \<and> (parents b \<noteq> [] \<longrightarrow> chain (cur c) = chain (cur b))"
  proof (cases "parents b")
    case Nil
    then have "blockState (cur b) = TBLOCK_INPROGRESS" using assms(1) by (simp add: stack_def)
    then have c: "c = b\<lparr>cur := (cur b)\<lparr>blockState := TBLOCK_END, chain := ch\<rparr>\<rparr>"
      using assms(2) by (simp add: EndTransactionBlock_def block_tail_def stmt_simps end_block_states_def)
    then show ?thesis using Nil by (simp add: top_def stack_def frame_defs)
  next
    case (Cons p ps)
    then have bs: "blockState (cur b) = TBLOCK_SUBINPROGRESS" using assms(1) by (simp add: stack_def)
    obtain rs ok where m: "mark_stack sub_commit_mark top_commit_mark (stack b) = (rs, ok)" by fastforce
    then obtain q q' qs where q: "rs = q # q' # qs" "chain q = chain (cur b)"
      using mark_stack_hd[of sub_commit_mark top_commit_mark "cur b" p ps] Cons by (auto simp: stack_def)
    have c: "c = set_top (\<lambda>s. s\<lparr>chain := ch\<rparr>) (set_stack rs b)"
      using assms(2) bs by (auto simp: EndTransactionBlock_def mark_all_def m block_tail_def stmt_simps Let_def split: if_splits)
    have "same_chars b c" unfolding c by (rule same_chars_trans[OF same_set_stack(4) same_set_top(4)])
    then show ?thesis unfolding c using q set_top_parents[of "set_stack rs b"] by (simp add: set_stack_def)
  qed
  then show "same_chars b c" "chain (top c) = ch" "parents b \<noteq> [] \<Longrightarrow> chain (cur c) = chain (cur b)" by auto
qed

text \<open>
  The characteristics of the transaction that \<^verbatim>\<open>COMMIT AND CHAIN\<close> starts are those of the committed
  one when it is issued at the top level. Inside a savepoint they are whatever the last chained
  command saved.
\<close>

lemma commit_chain_characteristics:
  assumes "wf_backend base b" "live_block (blocks b)" "\<not> chain (cur b)"
    "EndTransactionBlock True b = Inr (r, c)" "CommitTransactionCommand c = Inr d"
  shows "blocks d = [TBLOCK_INPROGRESS]"
    "parents b = [] \<Longrightarrow> same_chars b d"
    "parents b \<noteq> [] \<Longrightarrow> XactReadOnly d = save_XactReadOnly b \<and> XactIsoLevel d = save_XactIsoLevel b \<and>
       XactDeferrable d = save_XactDeferrable b"
proof -
  note e = EndTransactionBlock_chain[OF assms(2,4)]
  have r: "ready_ok (blocks b)" using assms(2) by (simp add: ready_ok_def)
  have na: "\<not> IsAbortedTransactionBlockState b"
    using live_cur[OF assms(2)] by (auto simp: IsAbortedTransactionBlockState_def)
  obtain n where c: "wf_backend base c" "same_rest b c" "blocks c = replicate n TBLOCK_SUBCOMMIT @ [TBLOCK_END]"
      "list_all2 reblock (stack b) (stack c)"
    using assms(1) r
  proof (cases rule: EndTransactionBlock_cases[where ch = True])
    case (commits c')
    then show thesis using that assms(2,4) by (auto simp: commit_plan_def planned_def remarked_def)
  qed (use na assms(2) in simp_all)
  have len: "parents c = [] \<longleftrightarrow> parents b = []" using list_all2_lengthD[OF c(4)] by (auto simp: stack_def)
  have st: "blocks d = [TBLOCK_INPROGRESS] \<and> XactReadOnly d = save_XactReadOnly (saved c) \<and>
      XactIsoLevel d = save_XactIsoLevel (saved c) \<and> XactDeferrable d = save_XactDeferrable (saved c)"
    using c(1,3)
  proof (cases rule: commit_cmd_commits)
    case (committed d')
    then show ?thesis using assms(5) e(2) by (simp add: block_ended_def)
  qed (use assms(5) in simp)
  then show "blocks d = [TBLOCK_INPROGRESS]" by simp
  show "same_chars b d" if "parents b = []"
  proof -
    have "chain (cur c)" using e(2) that len by simp
    then show ?thesis using st e(1) by (simp add: saved_def SaveTransactionCharacteristics_def same_chars_def)
  qed
  show "XactReadOnly d = save_XactReadOnly b \<and> XactIsoLevel d = save_XactIsoLevel b \<and>
       XactDeferrable d = save_XactDeferrable b" if "parents b \<noteq> []"
    using st e(3)[OF that] assms(3) c(2) by (simp add: saved_def same_rest_def)
qed

lemma ROLLBACK_block:
  assumes "wf_backend base b" "ready_ok (blocks b)" "live_block (blocks b) \<or> \<not> ch"
  obtains c d where "UserAbortTransactionBlock ch b = Inr c" "CommitTransactionCommand c = Inr d"
      "wf_backend base d" "live_xids (stack d) = []" "length (blocks d) = 1"
      "pg_xact d = abort_xids (live_xids (stack b)) (pg_xact b)"
proof -
  from assms(1,2) show thesis
  proof (cases rule: UserAbortTransactionBlock_cases[where ch = ch])
    case (aborts c)
    have wc: "wf_backend base c" using aborts(3) by (simp add: planned_def)
    from rollback_cmd[OF wc aborts(2), of "Suc (length (parents c))"] obtain d where
      "commit_cmd (Suc (length (parents c))) c = Inr d" "block_ended base c (chain (top c)) d"
      "pg_xact d = abort_xids (live_xids (stack c)) (pg_xact c)" by blast
    then show thesis
      using that[OF aborts(1), of d] remarked_xids[OF aborts(4)] unfolding CommitTransactionCommand_def
      by (simp add: block_ended_def)
  next
    case (refused m)
    then show thesis using assms(3) by simp
  qed
qed

lemma COMMIT_failed_block:
  assumes "wf_backend base b" "ready_ok (blocks b)" "IsAbortedTransactionBlockState b"
  obtains c d where "EndTransactionBlock ch b = Inr (False, c)" "CommitTransactionCommand c = Inr d"
      "wf_backend base d" "live_xids (stack d) = []" "length (blocks d) = 1"
      "pg_xact d = abort_xids (live_xids (stack b)) (pg_xact b)"
  using assms(1,2)
proof (cases rule: EndTransactionBlock_cases[where ch = ch])
  case (fails c)
  have wc: "wf_backend base c" using fails(3) by (simp add: planned_def)
  from rollback_cmd[OF wc fails(2), of "Suc (length (parents c))"] obtain d where
    "commit_cmd (Suc (length (parents c))) c = Inr d" "block_ended base c (chain (top c)) d"
    "pg_xact d = abort_xids (live_xids (stack c)) (pg_xact c)" by blast
  then show thesis
    using that[OF fails(1), of d] remarked_xids[OF fails(4)] unfolding CommitTransactionCommand_def
    by (simp add: block_ended_def)
next
  case (refused m)
  then show thesis using assms(3) by simp
qed (use assms(3) in simp)

lemma RELEASE_savepoint:
  assumes "wf_backend base b" "live_block (blocks b)" "find_savepoint sp (stack b) = Some t"
    "savepointLevel (stack b ! t) = savepointLevel (cur b)"
  obtains (released) c d where "ReleaseSavepoint sp b = Inr c" "CommitTransactionCommand c = Inr d"
      "wf_backend base d" "map skel (stack d) = map skel (drop (Suc t) (stack b))"
      "live_xids (stack d) = live_xids (stack b)" "pg_xact d = pg_xact b"
  | (failed) c m d where "ReleaseSavepoint sp b = Inr c" "CommitTransactionCommand c = Inl (ERROR m, d)"
      "wf_err base d" "plan_ok (blocks d)" "pg_xact d = pg_xact b"
  using assms(1,2)
proof (cases rule: ReleaseSavepoint_cases[where sp = sp])
  case (releases c t')
  have t: "t' = t" using releases(2) assms(3) by simp
  have wc: "wf_backend base c" using releases(6) by (simp add: planned_def)
  have lv: "live_block (drop (Suc t) (blocks b))" using live_drop[OF assms(2)] releases(3) t by simp
  have sk: "map skel (drop (Suc t) (stack c)) = map skel (drop (Suc t) (stack b))" using releases(8) t by simp
  from wc releases(5)[unfolded t] lv show thesis
  proof (cases rule: release_cmd)
    case (released d)
    then show thesis using that(1)[OF releases(1)] remarked_xids[OF releases(7)] sk by simp
  next
    case (failed m d)
    then show thesis using that(2)[OF releases(1)] remarked_xids[OF releases(7)] by simp
  qed
next
  case (refused m)
  then show thesis using assms(3,4) by blast
qed

lemma rollback_to_marks_plan:
  assumes "bs = x # replicate t TBLOCK_SUBINPROGRESS" "x \<in> {TBLOCK_SUBINPROGRESS, TBLOCK_SUBABORT}" "live_block ts"
  shows "restart_plan t (rollback_to_marks bs @ ts)"
proof -
  have lb: "length bs = Suc t" "bs \<noteq> []" using assms(1) by simp_all
  have mem: "bs ! j = TBLOCK_SUBINPROGRESS \<or> bs ! j = TBLOCK_SUBABORT" if "j \<le> t" for j
    using assms(1,2) that by (auto simp: nth_Cons split: nat.split)
  have len: "length (rollback_to_marks bs) = Suc t" using lb by (simp add: rollback_to_marks_def)
  have "rollback_to_marks bs ! t = the (restart_mark (bs ! t))"
    using lb by (simp add: rollback_to_marks_def nth_append last_conv_nth)
  then have "rollback_to_marks bs ! t \<in> {TBLOCK_SUBRESTART, TBLOCK_SUBABORT_RESTART}"
    using mem[of t] by (auto simp: restart_mark_def)
  moreover have "rollback_to_marks bs ! j \<in> {TBLOCK_SUBABORT_END, TBLOCK_SUBABORT_PENDING}" if "j < t" for j
  proof -
    have "rollback_to_marks bs ! j = the (sub_abort_mark (bs ! j))"
      using lb that by (simp add: rollback_to_marks_def nth_append nth_butlast)
    then show ?thesis using mem[of j] that by (auto simp: sub_abort_mark_def)
  qed
  ultimately show ?thesis using assms(3) len by (simp add: restart_plan_def nth_append)
qed

lemma ROLLBACK_TO_savepoint:
  assumes "wf_backend base b" "blocks b = x # ts" "x \<in> {TBLOCK_SUBINPROGRESS, TBLOCK_SUBABORT}" "live_block ts"
    "find_savepoint sp (stack b) = Some t" "savepointLevel (stack b ! t) = savepointLevel (cur b)"
  obtains (restarted) c d where "RollbackToSavepoint sp b = Inr c" "CommitTransactionCommand c = Inr d"
      "wf_backend base d" "parents d = drop (Suc t) (stack b)" "blockState (cur d) = TBLOCK_SUBINPROGRESS"
      "name (cur d) = Some sp" "own_xids (cur d) = []"
      "pg_xact d = abort_xids (live_xids (take (Suc t) (stack b))) (pg_xact b)"
  | (failed) c m d where "RollbackToSavepoint sp b = Inr c" "CommitTransactionCommand c = Inl (ERROR m, d)"
      "wf_err base d" "stack d = drop (Suc t) (stack b)"
      "pg_xact d = abort_xids (live_xids (take (Suc t) (stack b))) (pg_xact b)"
  using assms(1-4)
proof (cases rule: RollbackToSavepoint_cases[where sp = sp])
  case (rolls c t')
  have t: "t' = t" using rolls(2) assms(5) by simp
  have wc: "wf_backend base c" using rolls(6) by (simp add: planned_def)
  have lt: "t < length ts" using rolls(3) assms(2) t by (metis Suc_less_SucD length_Cons length_map)
  have tk: "take (Suc t) (blocks b) = x # replicate t TBLOCK_SUBINPROGRESS"
    using live_take[OF assms(4) lt] assms(2) by simp
  have "live_block (drop (Suc t) (blocks b))" using live_drop[OF assms(4) lt] assms(2) by simp
  then have plan: "restart_plan t (blocks c)" using rollback_to_marks_plan[OF tk assms(3)] rolls(5) t by simp
  have re: "list_all2 reblock (stack b) (stack c)" using rolls(7) by (simp add: remarked_def)
  have nm: "name (stack c ! t) = Some sp"
    using list_all2_nthD[OF re, of t] reblock_fields(6) find_savepoint_nth[OF assms(5)] by auto
  have xs: "live_xids (take (Suc t) (stack c)) = live_xids (take (Suc t) (stack b))"
    using live_xids_reblock[OF list_all2_takeI[OF re]] by simp
  have dr: "drop (Suc t) (stack c) = drop (Suc t) (stack b)" using rolls(8) t by simp
  have px: "pg_xact c = pg_xact b" using remarked_xids[OF rolls(7)] by simp
  from restart_cmd[OF wc plan, of "Suc (length (parents c))"] show thesis
    unfolding CommitTransactionCommand_def[symmetric] xs dr px nm
    using that rolls(1) by blast
next
  case (refused m)
  then show thesis using assms(5,6) by blast
qed
end
