(* ===== verification/Query_Atomic.thy ===== *)
theory Query_Atomic
  imports Messages Commands
begin

section \<open>A query string outside a transaction block is atomic\<close>

text \<open>
  A message whose statements are no transaction commands, sent outside a transaction block: its
  statements share one transaction, an implicit block if there are several. Where the loop
  stands, in terms of the commit log \<open>p\<close> and the unassigned ids \<open>f\<close> the message started with.
\<close>

definition one_xact :: "clog \<Rightarrow> TransactionId list \<Rightarrow> backend \<Rightarrow> bool" where
  "one_xact p f b \<longleftrightarrow> blocks b \<in> {[TBLOCK_STARTED], [TBLOCK_IMPLICIT_INPROGRESS]} \<and> pg_xact b = p \<and>
     f = live_xids (stack b) @ future_xids b"

definition in_one :: "TransactionId \<Rightarrow> clog \<Rightarrow> TransactionId list \<Rightarrow> session \<Rightarrow> bool" where
  "in_one base p f s \<longleftrightarrow> wf_backend base (sess s) \<and> xact_started s \<and> one_xact p f (sess s)"

definition err_one :: "TransactionId \<Rightarrow> clog \<Rightarrow> TransactionId list \<Rightarrow> session \<Rightarrow> bool" where
  "err_one base p f s \<longleftrightarrow> wf_err base (sess s) \<and> one_xact p f (sess s)"

definition done_one :: "clog \<Rightarrow> TransactionId list \<Rightarrow> session \<Rightarrow> bool" where
  "done_one p f s \<longleftrightarrow> blocks (sess s) = [TBLOCK_DEFAULT] \<and> \<not> xact_started s \<and>
     (\<exists>xs. f = xs @ future_xids (sess s) \<and> pg_xact (sess s) = commit_xids xs p)"

text \<open>How a step of the loop ends: in a state with \<open>P\<close>, or by an error inside the transaction.\<close>

definition ends :: "TransactionId \<Rightarrow> clog \<Rightarrow> TransactionId list \<Rightarrow> (session \<Rightarrow> bool) \<Rightarrow> session res \<Rightarrow> bool" where
  "ends base p f P r = (case r of Inr s \<Rightarrow> P s | Inl (e, s) \<Rightarrow> err_one base p f s)"

lemma ends_simps [simp]: "ends base p f P (Inr s) = P s" "ends base p f P (Inl (e, s)) = err_one base p f s"
  by (simp_all add: ends_def)

lemma ends_seq:
  assumes "ends base p f P (g s)" "\<And>s'. P s' \<Longrightarrow> ends base p f Q (seq gs s')"
  shows "ends base p f Q (seq (g # gs) s)"
  using assms by (cases "g s") (auto simp: ends_def)

lemma in_err: "in_one base p f s \<Longrightarrow> err_one base p f s"
  by (simp add: in_one_def err_one_def wf_backend_err)

lemma one_xact_single:
  "one_xact p f b \<Longrightarrow> parents b = [] \<and> blockState (cur b) \<in> {TBLOCK_STARTED, TBLOCK_IMPLICIT_INPROGRESS}"
  by (auto simp: one_xact_def blocks_Cons)

lemma start_one:
  assumes "wf_backend base (sess s)" "blocks (sess s) = [TBLOCK_DEFAULT]" "\<not> xact_started s"
  shows "\<exists>s'. start_xact_command s = Inr s' \<and>
    in_one base (pg_xact (sess s)) (future_xids (sess s)) s' \<and> blocks (sess s') = [TBLOCK_STARTED]"
proof -
  let ?b = "sess s"
  have d: "blockState (cur ?b) = TBLOCK_DEFAULT" "parents ?b = []" using assms(2) by (simp_all add: blocks_Cons)
  obtain c where c: "StartTransaction ?b = Inr c" "cur c = started_entry ?b" "parents c = []" "same_log ?b c"
      "wf_backend base (c\<lparr>cur := (cur c)\<lparr>blockState := TBLOCK_STARTED\<rparr>\<rparr>)"
    by (rule wf_start[OF assms(1) d(1), of TBLOCK_STARTED]) simp_all
  let ?c = "c\<lparr>cur := (cur c)\<lparr>blockState := TBLOCK_STARTED\<rparr>\<rparr>"
  have sc: "StartTransactionCommand ?b = Inr ?c" using c(1) d by (simp add: StartTransactionCommand_def set_blockState_def)
  have q: "pg_xact ?c = pg_xact ?b" "live_xids (stack ?c) = []"
    using started_quiet[OF assms(1,2) sc] wf_default_xids[OF assms(1,2)] by simp_all
  have "in_one base (pg_xact ?b) (future_xids ?b) (s\<lparr>sess := ?c, xact_started := True\<rparr>)"
    using c(3,4,5) q by (simp add: in_one_def one_xact_def future_xids_def same_log_def) (simp add: stack_def)
  moreover have "start_xact_command s = Inr (s\<lparr>sess := ?c, xact_started := True\<rparr>)"
    using sc assms(3) by (simp add: start_xact_command_def when_do_def on_backend_def upd_def)
  ultimately show ?thesis using c(3) by (auto simp: stack_def)
qed

lemma reblock_one:
  assumes "in_one base p f s" "bs \<in> {TBLOCK_STARTED, TBLOCK_IMPLICIT_INPROGRESS}"
  shows "in_one base p f (s\<lparr>sess := (sess s)\<lparr>cur := (cur (sess s))\<lparr>blockState := bs\<rparr>\<rparr>\<rparr>)"
proof -
  let ?b = "sess s"
  let ?c = "?b\<lparr>cur := (cur ?b)\<lparr>blockState := bs\<rparr>\<rparr>"
  have w: "wf_backend base ?b" and o: "one_xact p f ?b" using assms(1) by (simp_all add: in_one_def)
  note single = one_xact_single[OF o]
  have r: "remarked ?b ?c" by (rule remarked_block[OF w]) (use single assms(2) in \<open>auto simp: same_kind_def\<close>)
  have "wf_backend base ?c" using wf_remarked[OF w r] .
  moreover have "one_xact p f ?c"
    using o assms(2) single remarked_xids[OF r] by (auto simp: one_xact_def future_xids_def) (auto simp: stack_def)
  ultimately show ?thesis using assms(1) by (simp add: in_one_def)
qed

lemma begin_one:
  assumes "in_one base p f s"
  shows "\<exists>s'. when_do (\<lambda>s. im) (upd (\<lambda>s. s\<lparr>sess := BeginImplicitTransactionBlock (sess s)\<rparr>)) s = Inr s' \<and>
    in_one base p f s' \<and> (\<not> im \<longrightarrow> s' = s)"
  using assms reblock_one[OF assms, of TBLOCK_IMPLICIT_INPROGRESS]
  by (cases im) (auto simp: when_do_def upd_def BeginImplicitTransactionBlock_def)

lemma end_one:
  assumes "in_one base p f s" "im \<or> blocks (sess s) = [TBLOCK_STARTED]"
  shows "\<exists>s'. when_do (\<lambda>s. im) (upd (\<lambda>s. s\<lparr>sess := EndImplicitTransactionBlock (sess s)\<rparr>)) s = Inr s' \<and>
    in_one base p f s' \<and> blocks (sess s') = [TBLOCK_STARTED]"
proof -
  have "one_xact p f (sess s)" using assms(1) by (simp add: in_one_def)
  note single = one_xact_single[OF this]
  show ?thesis
    using assms single reblock_one[OF assms(1), of TBLOCK_STARTED]
    by (cases im) (auto simp: when_do_def upd_def EndImplicitTransactionBlock_def stack_def)
qed

lemma counter_one:
  assumes "in_one base p f s"
  shows "ends base p f (in_one base p f) (on_backend CommandCounterIncrement s)"
proof -
  let ?b = "sess s"
  have w: "wf_backend base ?b" using assms by (simp add: in_one_def)
  then have "\<not> IsParallelWorker (env ?b)" by (simp add: wf_backend_def wf_defs)
  then show ?thesis
  proof (cases rule: CommandCounterIncrement_cases)
    case (1 c)
    have "stack c = stack ?b" using 1 by (simp add: stack_def)
    moreover have "wf_backend base c" using 1 by (intro wf_same_stack[OF w]) (simp_all add: same_rest_def)
    ultimately show ?thesis
      using 1 assms by (simp add: on_backend_def in_one_def one_xact_def future_xids_def same_log_def)
  next
    case (2 m)
    then show ?thesis using in_err[OF assms] by (simp add: on_backend_def)
  qed
qed

lemma commit_one:
  assumes "in_one base p f s" "blocks (sess s) = [TBLOCK_STARTED]"
  shows "ends base p f (done_one p f) (finish_xact_command s)"
proof -
  let ?b = "sess s"
  have w: "wf_backend base ?b" "xact_started s" "one_xact p f ?b" using assms(1) by (simp_all add: in_one_def)
  define c where "c = (if chain (cur ?b) then SaveTransactionCharacteristics ?b else ?b)"
  have c: "cur c = cur ?b" "parents c = parents ?b" "pg_xact c = pg_xact ?b" "xid_source c = xid_source ?b"
    by (auto simp: c_def SaveTransactionCharacteristics_def)
  have bl: "parents ?b = []" "blockState (cur ?b) = TBLOCK_STARTED" using assms(2) by (simp_all add: blocks_Cons)
  have wc: "wf_backend base c" using w(1) by (simp add: c_def wf_save)
  have unf: "CommitTransactionCommand ?b = seq [CommitTransaction, set_blockState TBLOCK_DEFAULT] c"
    using bl by (simp add: CommitTransactionCommand_def commit_switch_def c_def when_do_def upd_def with_state_def
        SaveTransactionCharacteristics_def sum_case_id split: sum.split)
  have xids: "live_xids (stack c) = own_xids (cur ?b)" "f = own_xids (cur ?b) @ future_xids ?b" "pg_xact ?b = p"
    using w(3) bl c by (simp_all add: one_xact_def stack_def live_xids_Cons)
  have "trans_of (blockState (cur c)) = TRANS_INPROGRESS" "parents c = []" using bl c by simp_all
  from wf_commit[OF wc this] show ?thesis
  proof cases
    case (1 d)
    have "pg_xact d = commit_xids (own_xids (cur ?b)) p"
      using 1(4) commit_status_own[of base c] wc bl(1) c(2,3) xids(3) by (simp add: wf_backend_def xids(1))
    then show ?thesis
      using 1 w xids c unf
      by (auto simp: finish_xact_command_def when_do_def on_backend_def upd_def done_one_def set_blockState_def
          stack_def future_xids_def same_log_def)
  next
    case (2 m d)
    have "one_xact p f d"
      using 2 bl c xids by (simp add: one_xact_def stack_def live_xids_Cons same_log_def future_xids_def)
    then show ?thesis
      using 2 w unf by (simp add: finish_xact_command_def when_do_def on_backend_def err_one_def)
  qed
qed

context statement_runner
begin

lemma run_one:
  assumes "in_one base p f s"
  shows "ends base p f (\<lambda>s'. in_one base p f s' \<and> blocks (sess s') = blocks (sess s)) (on_backend (run q) s)"
proof -
  let ?b = "sess s"
  have w: "wf_backend base ?b" and o: "one_xact p f ?b" using assms by (simp_all add: in_one_def)
  have step: "one_xact p f c" if "stmt_ok base ?b c" for c
    using that o by (auto simp: one_xact_def stmt_ok_def assigned_ids_def)
  have "trans_of (blockState (cur ?b)) = TRANS_INPROGRESS" using one_xact_single[OF o] by auto
  from run_cases[OF w this, of q] show ?thesis
    using assms step by (elim disjE exE conjE) (simp_all add: on_backend_def in_one_def err_one_def stmt_ok_def)
qed

lemma exec_one:
  assumes "in_one base p f s" "im \<or> is_last \<and> blocks (sess s) = [TBLOCK_STARTED]"
  shows "ends base p f (if is_last then done_one p f else in_one base p f) (exec_stmt run im is_last (RawOther q) s)"
proof -
  have o: "one_xact p f (sess s)" and st: "xact_started s" using assms(1) by (simp_all add: in_one_def)
  obtain s1 where s1: "when_do (\<lambda>s. im) (upd (\<lambda>s. s\<lparr>sess := BeginImplicitTransactionBlock (sess s)\<rparr>)) s = Inr s1"
      "in_one base p f s1" "\<not> im \<longrightarrow> s1 = s"
    using begin_one[OF assms(1), of im] by (elim exE conjE)
  have "\<not> IsAbortedTransactionBlockState (sess s)"
    using one_xact_single[OF o] by (auto simp: IsAbortedTransactionBlockState_def)
  then have unf: "exec_stmt run im is_last (RawOther q) s = seq [on_backend (run q), finish_stmt im is_last (RawOther q)] s1"
    using s1(1) st unfolding exec_stmt_def
    by (simp add: when_do_def[of "\<lambda>s. IsAbortedTransactionBlockState (sess s)"]
        start_xact_command_def when_do_def[of "\<lambda>s. \<not> xact_started s"] on_backend_def)
  show ?thesis unfolding unf
  proof (rule ends_seq, rule run_one[OF s1(2)])
    fix s2 assume s2: "in_one base p f s2 \<and> blocks (sess s2) = blocks (sess s1)"
    show "ends base p f (if is_last then done_one p f else in_one base p f) (seq [finish_stmt im is_last (RawOther q)] s2)"
    proof (cases is_last)
      case True
      have "im \<or> blocks (sess s2) = [TBLOCK_STARTED]" using assms(2) s1(3) s2 by auto
      then obtain s3 where "when_do (\<lambda>s. im) (upd (\<lambda>s. s\<lparr>sess := EndImplicitTransactionBlock (sess s)\<rparr>)) s2 = Inr s3"
          "in_one base p f s3" "blocks (sess s3) = [TBLOCK_STARTED]"
        using end_one[of base p f s2 im] s2 by (auto simp del: One_nat_def)
      then show ?thesis using True commit_one by (simp add: finish_stmt_def sum_case_id)
    next
      case False
      then show ?thesis
        using in_err[of base p f s2] counter_one[of base p f s2] s2
        by (simp add: finish_stmt_def assert_that_def sum_case_id)
    qed
  qed
qed

lemma exec_stmts_one:
  "in_one base p f s \<Longrightarrow> im \<or> length qs \<le> 1 \<and> blocks (sess s) = [TBLOCK_STARTED] \<Longrightarrow>
   ends base p f (if qs = [] then (\<lambda>s'. s' = s) else done_one p f) (exec_stmts run im (map RawOther qs) s)"
proof (induction qs arbitrary: s)
  case (Cons q qs)
  have "im \<or> qs = [] \<and> blocks (sess s) = [TBLOCK_STARTED]" using Cons.prems(2) by (cases qs) auto
  from exec_one[OF Cons.prems(1) this, of q]
  have e: "ends base p f (if qs = [] then done_one p f else in_one base p f) (exec_stmt run im (qs = []) (RawOther q) s)" .
  show ?case
  proof (cases "exec_stmt run im (qs = []) (RawOther q) s")
    case (Inl es)
    then show ?thesis using e by (cases es) simp
  next
    case (Inr s1)
    then show ?thesis using e Cons.IH[of s1] Cons.prems(2) by (cases "qs = []") (auto simp: le_Suc_eq)
  qed
qed simp

lemma exec_query_one:
  assumes "wf_backend base (sess s)" "blocks (sess s) = [TBLOCK_DEFAULT]" "\<not> xact_started s"
    "case parse q of Inl m \<Rightarrow> True | Inr sts \<Rightarrow> \<exists>qs. sts = map RawOther qs"
  shows "ends base (pg_xact (sess s)) (future_xids (sess s)) (done_one (pg_xact (sess s)) (future_xids (sess s)))
    (exec_query run parse q s)" (is "ends base ?p ?f _ _")
proof -
  obtain s1 where s1: "start_xact_command s = Inr s1" "in_one base ?p ?f s1" "blocks (sess s1) = [TBLOCK_STARTED]"
    using start_one[OF assms(1-3)] by (elim exE conjE)
  show ?thesis
  proof (cases "parse q")
    case (Inl m)
    then show ?thesis using s1 in_err by (simp add: exec_query_def raise_def)
  next
    case (Inr sts)
    then obtain qs where qs: "sts = map RawOther qs" using assms(4) by auto
    have unf: "exec_query run parse q s = seq [exec_stmts run (length qs > 1) (map RawOther qs), finish_xact_command] s1"
      using s1(1) Inr by (simp add: exec_query_def qs)
    have "length qs > 1 \<or> length qs \<le> 1 \<and> blocks (sess s1) = [TBLOCK_STARTED]" using s1(3) by auto
    note run = exec_stmts_one[OF s1(2) this]
    show ?thesis unfolding unf
    proof (rule ends_seq[where P = "if qs = [] then (\<lambda>s'. s' = s1) else done_one ?p ?f"], rule run)
      fix s2 assume s2: "(if qs = [] then (\<lambda>s'. s' = s1) else done_one ?p ?f) s2"
      show "ends base ?p ?f (done_one ?p ?f) (seq [finish_xact_command] s2)"
        using s2 commit_one[OF s1(2,3)]
        by (cases "qs = []") (auto simp: sum_case_id done_one_def finish_xact_command_def when_do_def)
    qed
  qed
qed

end

text \<open>Recovery from an error inside such a message aborts all it has done.\<close>

lemma recover_one:
  assumes "err_one base p f s" "recover s = Inr s'"
  shows "blocks (sess s') = [TBLOCK_DEFAULT] \<and>
    (\<exists>xs. f = xs @ future_xids (sess s') \<and> pg_xact (sess s') = abort_xids xs p)"
proof -
  let ?b = "sess s"
  have w: "wf_err base ?b" and o: "one_xact p f ?b" using assms(1) by (simp_all add: err_one_def)
  note single = one_xact_single[OF o]
  have "plan_ok (blocks ?b)" using o by (intro ready_plan) (auto simp: one_xact_def ready_ok_def)
  then obtain c where c: "AbortCurrentTransaction ?b = Inr c" "recovered base ?b c"
    using abort_cur_ok[OF w _ lessI] unfolding AbortCurrentTransaction_def by blast
  obtain j where j: "parents c = drop (Suc j) (stack ?b)" "pg_xact c = abort_xids (live_xids (take (Suc j) (stack ?b))) (pg_xact ?b)"
    using c(2) by (auto simp: recovered_def)
  have "take (Suc j) (stack ?b) = stack ?b" "parents c = []" using single j(1) by (simp_all add: stack_def)
  moreover have "blockState (cur c) = TBLOCK_DEFAULT"
    using single c(1) by (auto simp: AbortCurrentTransaction_def with_state_def set_blockState_def split: sum.splits)
  moreover have "s' = s\<lparr>sess := c, xact_started := False\<rparr>"
    using assms(2) c(1) by (simp add: recover_def on_backend_def upd_def)
  ultimately show ?thesis
    using o j(2) c(2) by (auto simp: stack_def one_xact_def recovered_def future_xids_def)
qed

lemma other_stmts: "list_all (\<lambda>st. \<not> is_transaction_stmt st) sts \<longleftrightarrow> (\<exists>qs. sts = map RawOther qs)"
proof (induction sts)
  case (Cons st sts)
  show ?case
    by (cases st) (auto simp: Cons.IH Cons_eq_map_conv)
qed simp

lemma query_atomic:
  assumes "statement_runner base run" "good_session base s" "blocks (sess s) = [TBLOCK_DEFAULT]" "plain_query q"
    "case parse q of Inl m \<Rightarrow> True | Inr sts \<Rightarrow> \<exists>qs. sts = map RawOther qs"
  obtains s' xs where "PostgresMain_query x run parse q s = Inr s'" "good_session base s'" "blocks (sess s') = [TBLOCK_DEFAULT]"
    "future_xids (sess s) = xs @ future_xids (sess s')"
    "if (\<exists>s''. exec_simple_query x run parse q s = Inr s'') then pg_xact (sess s') = commit_xids xs (pg_xact (sess s))
     else pg_xact (sess s') = abort_xids xs (pg_xact (sess s))"
proof -
  let ?b = "sess s"
  obtain s' where s': "PostgresMain_query x run parse q s = Inr s'" "good_session base s'"
    using plain_query_ok[OF assms(1,2,4), of x parse] by (elim exE conjE)
  have w: "wf_backend base ?b" "\<not> xact_started s" using assms(2) by (simp_all add: good_session_def)
  have eq: "exec_simple_query x run parse q s = exec_query run parse q s"
    using fd_prologue_skip assms(4) by (simp add: exec_simple_query_def on_backend_def plain_query_def sum_case_id)
  have e: "ends base (pg_xact ?b) (future_xids ?b) (done_one (pg_xact ?b) (future_xids ?b)) (exec_query run parse q s)"
    using statement_runner.exec_query_one[OF assms(1) w(1) assms(3) w(2), of parse q] assms(5) by simp
  show thesis
  proof (cases "exec_query run parse q s")
    case (Inr s1)
    then have "s1 = s'" using s'(1) eq by (simp add: PostgresMain_query_def)
    then show thesis using e Inr eq s' that by (auto simp: done_one_def)
  next
    case (Inl es)
    obtain er s1 where es: "es = (er, s1)" by fastforce
    have "err_one base (pg_xact ?b) (future_xids ?b) s1" using e Inl es by simp
    moreover have "recover s1 = Inr s'"
      using s'(1) eq Inl es by (auto simp: PostgresMain_query_def split: pg_error.splits)
    ultimately have "blocks (sess s') = [TBLOCK_DEFAULT] \<and>
        (\<exists>xs. future_xids ?b = xs @ future_xids (sess s') \<and> pg_xact (sess s') = abort_xids xs (pg_xact ?b))"
      by (rule recover_one)
    then show thesis using that[OF s'] Inl eq by auto
  qed
qed

end
