(* ===== verification/Xact_Queries.thy ===== *)
theory Xact_Queries
  imports Xact_Assign
begin

section \<open>Which ids are current, and how they are assigned\<close>

text \<open>
  \<^verbatim>\<open>TransactionIdIsCurrentTransactionId\<close> against the list of live ids, and the assignment of ids
  along the stack.
\<close>

subsection \<open>Membership\<close>

lemma sorted_wrt_own: "sorted_wrt P (live_xids ss) \<Longrightarrow> s \<in> set ss \<Longrightarrow> sorted_wrt P (childXids s)"
proof (induction ss)
  case (Cons t ss)
  then show ?case by (auto simp: live_xids_Cons sorted_wrt_append own_xids_def split: if_splits)
qed simp

lemma set_live_xids: "set (live_xids ss) = (\<Union>s \<in> set ss. set (own_xids s))"
  by (auto simp: live_xids_def)

lemma xid_in_stack_iff:
  assumes "sorted_wrt TransactionIdPrecedes (live_xids ss)" "set (live_xids ss) \<subseteq> xid_window base"
    "list_all entry_ok ss" "list_all (\<lambda>s. state s \<noteq> TRANS_ABORT) ss"
  shows "xid_in_stack xid ss \<longleftrightarrow> xid \<in> set (live_xids ss)"
  using assms
proof (induction ss)
  case (Cons s ss)
  have ih: "xid_in_stack xid ss \<longleftrightarrow> xid \<in> set (live_xids ss)"
    using Cons by (auto simp: live_xids_Cons sorted_wrt_append)
  have srt: "sorted_wrt TransactionIdPrecedes (childXids s)" using sorted_wrt_own[OF Cons.prems(1), of s] by simp
  have "set (childXids s) \<subseteq> xid_window base" using Cons.prems(2) by (auto simp: live_xids_Cons own_xids_def)
  from xw.bsearch_correct[OF this srt, of xid]
  have bs: "xid_bsearch TransactionIdPrecedes (childXids s) xid 0 (int (length (childXids s)) - 1) \<longleftrightarrow> xid \<in> set (childXids s)" .
  have own: "xid \<in> set (own_xids s) \<longleftrightarrow> has_xid s \<and> (xid = xid_of s \<or> xid \<in> set (childXids s))"
    using Cons.prems(3) by (auto simp: own_xids_def entry_ok_def)
  show ?case using Cons.prems(4) ih own by (auto simp: live_xids_Cons bs)
qed simp

lemma stack_ok_parents_alive: "stack_ok (s # ss) \<Longrightarrow> list_all (\<lambda>t. state t \<noteq> TRANS_ABORT) ss"
proof (induction ss arbitrary: s)
  case (Cons t ss)
  then show ?case using Cons.IH[of t] by simp
qed simp

definition active_xids :: "backend \<Rightarrow> TransactionId list" where
  "active_xids b = live_xids (if state (cur b) = TRANS_ABORT then parents b else stack b)"

lemma xid_in_stack_active:
  assumes "wf_core base b"
  shows "xid_in_stack xid (stack b) \<longleftrightarrow> xid \<in> set (active_xids b)"
proof -
  let ?ss = "if state (cur b) = TRANS_ABORT then parents b else stack b"
  have x: "xids_ok base (pg_xact b) (xact_cache b) (live_xids (parents b)) (own_xids (cur b))
      (state (cur b) = TRANS_ABORT) (future_xids b)"
    using assms by (simp add: wf_core_def log_ok_def)
  have "sorted_wrt TransactionIdPrecedes (live_xids ?ss)" "set (live_xids ?ss) \<subseteq> xid_window base"
    using x by (auto simp: xids_ok_def stack_def live_xids_Cons sorted_wrt_append)
  moreover have "list_all entry_ok ?ss" using assms by (simp add: wf_core_def stack_def)
  moreover have "list_all (\<lambda>s. state s \<noteq> TRANS_ABORT) ?ss"
    using assms stack_ok_parents_alive[of "cur b" "parents b"] by (simp add: wf_core_def stack_def)
  ultimately have "xid_in_stack xid ?ss \<longleftrightarrow> xid \<in> set (live_xids ?ss)" by (rule xid_in_stack_iff)
  moreover have "xid_in_stack xid (stack b) \<longleftrightarrow> xid_in_stack xid ?ss" by (simp add: stack_def)
  ultimately show ?thesis by (simp only: active_xids_def)
qed

lemma active_xids_normal: "wf_core base b \<Longrightarrow> xid \<in> set (active_xids b) \<Longrightarrow> TransactionIdIsNormal xid"
  by (auto simp: wf_core_def log_ok_def xids_ok_def active_xids_def xid_window_def stack_def live_xids_Cons split: if_splits)

lemma top_xid_live: "wf_core base b \<Longrightarrow> has_xid (top b) \<Longrightarrow> xid_of (top b) \<in> set (live_xids (stack b))"
  by (auto simp: set_live_xids top_def own_xids_def intro!: bexI[of _ "last (stack b)"])

lemma is_current_iff:
  assumes "wf_core base b"
  shows "TransactionIdIsCurrentTransactionId xid b \<longleftrightarrow>
    xid \<in> set (active_xids b) \<or> has_xid (top b) \<and> xid = xid_of (top b)"
proof -
  have g: "ParallelCurrentXids b = []" "GetTopTransactionIdIfAny b = xid_of (top b)"
    using assms by (simp_all add: wf_core_def glob_ok_def GetTopTransactionIdIfAny_def)
  have "TransactionIdIsNormal (xid_of (top b))" if "has_xid (top b)"
    using top_xid_live[OF assms that] assms
    by (auto simp: wf_core_def log_ok_def xids_ok_def xid_window_def stack_def live_xids_Cons)
  moreover have "has_xid (top b)" if "TransactionIdIsNormal xid" "xid = xid_of (top b)"
    using that by (auto simp: FullTransactionIdIsValid_def xid_consts)
  ultimately show ?thesis
    using g xid_in_stack_active[OF assms, of xid] active_xids_normal[OF assms, of xid]
    by (auto simp: TransactionIdIsCurrentTransactionId_def)
qed

subsection \<open>Assignment\<close>

lemma stack_ok_all_xid: "stack_ok (s # ss) \<Longrightarrow> has_xid s \<Longrightarrow> list_all has_xid (s # ss)"
proof (induction ss arbitrary: s)
  case (Cons t ss)
  then show ?case using Cons.IH[of t] by simp
qed simp

lemma assigned_sorted:
  assumes "assigned_more base b b'"
  shows "sorted_wrt TransactionIdPrecedes (live_xids (stack b'))"
proof -
  have "wf_core base b'" "state (cur b') = TRANS_INPROGRESS"
    using assms by (auto simp: assigned_more_def wf_backend_def)
  then show ?thesis using log_ok_stack[of b' base] by (simp add: wf_core_def xids_ok_def sorted_wrt_append)
qed

lemma assigned_stack:
  assumes "assigned_more base b b'" "has_xid (cur b')"
  shows "list_all has_xid (stack b')" "TransactionIdIsCurrentTransactionId (xid_of (cur b')) b'"
    "sorted_wrt TransactionIdPrecedes (live_xids (stack b'))"
    "pg_xact b' (xid_of (cur b')) = TRANSACTION_STATUS_IN_PROGRESS"
proof -
  have w: "wf_core base b'" "state (cur b') = TRANS_INPROGRESS"
    using assms(1) by (auto simp: assigned_more_def wf_backend_def)
  have x: "xids_ok base (pg_xact b') (xact_cache b') (live_xids (stack b')) [] False (future_xids b')"
    using w log_ok_stack[of b' base] by (simp add: wf_core_def)
  have m: "xid_of (cur b') \<in> set (live_xids (stack b'))" using assms(2) by (simp add: stack_def live_xids_Cons own_xids_def)
  show "list_all has_xid (stack b')"
    using stack_ok_all_xid[of "cur b'" "parents b'"] w(1) assms(2) by (simp add: wf_core_def stack_def)
  show "sorted_wrt TransactionIdPrecedes (live_xids (stack b'))" by (rule assigned_sorted[OF assms(1)])
  show "pg_xact b' (xid_of (cur b')) = TRANSACTION_STATUS_IN_PROGRESS" using x m by (simp add: xids_ok_def)
  show "TransactionIdIsCurrentTransactionId (xid_of (cur b')) b'"
    using m w by (simp add: is_current_iff[OF w(1)] active_xids_def)
qed

end
