(* ===== verification/Xact_Order.thy ===== *)
theory Xact_Order
  imports Xact_Inv Frames
begin

section \<open>The order of the steps of a commit\<close>

text \<open>
  Durability and isolation depend on the order in which \<^verbatim>\<open>CommitTransaction\<close> calls the other
  modules: the commit record first, then the flush of the log, then the status, then the removal from
  the set of running transactions, and only then the release of the locks.
\<close>

subsection \<open>Calls before the point of no return\<close>

fun quiet_call :: "xcall \<Rightarrow> bool" where
  "quiet_call (Call f args) = True"
| "quiet_call (Warning m) = True"
| "quiet_call _ = False"

definition quietly :: "backend \<Rightarrow> backend \<Rightarrow> bool" where
  "quietly b b' \<longleftrightarrow> (\<exists>t. trace b' = trace b @ t \<and> list_all quiet_call t)"

interpretation quiet: frame_rel quietly
proof
  fix a b c
  show "quietly b b" by (simp add: quietly_def)
  assume "quietly a b" "quietly b c"
  then show "quietly a c" by (auto simp: quietly_def)
qed

lemma quiet_ext: "keeps quietly (ext f args)"
  by (auto simp: keeps_def quietly_def ext_def)

lemma quiet_emit: "(\<And>b. list_all quiet_call (f b)) \<Longrightarrow> keeps quietly (emit f)"
  by (auto simp: keeps_def quietly_def emit_def)

lemma quiet_portals: "keeps quietly (precommit_portals p n)"
proof (induction n)
  case 0
  show ?case unfolding precommit_portals.simps by (intro quiet.keeps_rules quiet_ext)
next
  case (Suc n)
  then show ?case unfolding precommit_portals.simps by (intro quiet.keeps_rules quiet_ext)
qed

lemma quiet_precommit: "keeps quietly (CommitTransaction_precommit p)"
  unfolding CommitTransaction_precommit_def
  by (intro quiet.keeps_rules quiet_ext quiet_emit quiet_portals quiet.keeps_upd)
     (simp_all add: quietly_def EnterParallelMode_def)

subsection \<open>Recording the commit\<close>

lemma RecordTransactionCommit_log_trace:
  "\<exists>b2. RecordTransactionCommit_log xid True n_rels n_msgs ch b = Inr b2 \<and>
     trace b2 = trace b @ [Call ''BufmgrCommit'' [], XactLogCommitRecord xid ch] @
       (if replorigin (env b) then [Call ''replorigin_session_advance'' [ANat (wal_pos b + 1)]] else []) @
       [Call ''TransactionTreeSetCommitTsData'' [AXid xid, AXids ch]] \<and>
     XactLastRecEnd b2 = wal_pos b + 1 \<and> env b2 = env b \<and> forceSyncCommit b2 = forceSyncCommit b"
  by (simp add: RecordTransactionCommit_log_def stmt_simps XLogInsert_def)

text \<open>Whether the log is flushed before the status is set.\<close>

definition flushes :: "bool \<Rightarrow> nat \<Rightarrow> backend \<Rightarrow> bool" where
  "flushes wrote n_rels b \<longleftrightarrow> wrote \<and> synchronous_commit_on (env b) \<or> forceSyncCommit b \<or> n_rels > 0"

lemma RecordTransactionCommit_mark_trace:
  "\<exists>b3. RecordTransactionCommit_mark xid True wrote n_rels ch b = Inr b3 \<and>
     trace b3 = trace b @
       (if flushes wrote n_rels b
        then [XLogFlush (XactLastRecEnd b), SetTreeStatus TRANSACTION_STATUS_COMMITTED xid ch None]
        else [Call ''XLogSetAsyncXactLSN'' [ANat (XactLastRecEnd b)],
              SetTreeStatus TRANSACTION_STATUS_COMMITTED xid ch (Some (XactLastRecEnd b))]) @
       (if wrote then [Call ''SyncRepWaitForLSN'' [ANat (XactLastRecEnd b), ABool True]] else [])"
  by (simp add: RecordTransactionCommit_mark_def stmt_simps flushes_def)

lemma RecordTransactionCommit_order:
  assumes "has_xid (cur b)" "XactTopFullTransactionId b = fullTransactionId (cur b)"
    "RecordTransactionCommit b = Inr (x, b')"
  obtains t1 t2 t3 lsn where "trace b' = trace b @ t1 @ [XactLogCommitRecord (xid_of (cur b)) (childXids (cur b))] @ t2 @
      [SetTreeStatus TRANSACTION_STATUS_COMMITTED (xid_of (cur b)) (childXids (cur b)) lsn] @ t3"
    "list_all quiet_call t1" "list_all quiet_call t3"
    "if flushes (XactLastRecEnd b \<noteq> 0) (nrels (env b)) b then XLogFlush (wal_pos b + 1) \<in> set t2 \<and> lsn = None
     else lsn = Some (wal_pos b + 1)"
proof -
  let ?x = "xid_of (cur b)" and ?ch = "childXids (cur b)" and ?w = "XactLastRecEnd b \<noteq> 0"
  define b1 where "b1 = (if XLogLogicalInfoActive (env b)
    then b\<lparr>trace := trace b @ [Call ''LogLogicalInvalidations'' []]\<rparr> else b)"
  have b1: "cur b1 = cur b" "env b1 = env b" "wal_pos b1 = wal_pos b" "forceSyncCommit b1 = forceSyncCommit b"
    "XactLastRecEnd b1 = XactLastRecEnd b" "\<exists>l. trace b1 = trace b @ l \<and> list_all quiet_call l"
    by (simp_all add: b1_def)
  have v: "TransactionIdIsValid ?x" "GetTopTransactionIdIfAny b = ?x"
    using assms(1,2) by (simp_all add: GetTopTransactionIdIfAny_def FullTransactionIdIsValid_def)
  let ?msgs = "if XLogStandbyInfoActive (env b) then nmsgs (env b) else 0"
  obtain b2 where b2: "RecordTransactionCommit_log ?x True (nrels (env b)) ?msgs ?ch b1 = Inr b2"
     "trace b2 = trace b1 @ [Call ''BufmgrCommit'' [], XactLogCommitRecord ?x ?ch] @
       (if replorigin (env b1) then [Call ''replorigin_session_advance'' [ANat (wal_pos b1 + 1)]] else []) @
       [Call ''TransactionTreeSetCommitTsData'' [AXid ?x, AXids ?ch]]"
     "XactLastRecEnd b2 = wal_pos b1 + 1" "env b2 = env b1" "forceSyncCommit b2 = forceSyncCommit b1"
    using RecordTransactionCommit_log_trace by blast
  obtain b3 where b3: "RecordTransactionCommit_mark ?x True ?w (nrels (env b)) ?ch b2 = Inr b3"
     "trace b3 = trace b2 @
       (if flushes ?w (nrels (env b)) b2
        then [XLogFlush (XactLastRecEnd b2), SetTreeStatus TRANSACTION_STATUS_COMMITTED ?x ?ch None]
        else [Call ''XLogSetAsyncXactLSN'' [ANat (XactLastRecEnd b2)],
              SetTreeStatus TRANSACTION_STATUS_COMMITTED ?x ?ch (Some (XactLastRecEnd b2))]) @
       (if ?w then [Call ''SyncRepWaitForLSN'' [ANat (XactLastRecEnd b2), ABool True]] else [])"
    using RecordTransactionCommit_mark_trace by blast
  have eq: "b' = b3"
    using assms(3) b2(1) b3(1) v b1(1,2,5)
    by (simp add: RecordTransactionCommit_def Let_def b1_def[symmetric] xactGetCommittedChildren_def cong: if_cong)
  have fl: "flushes ?w (nrels (env b)) b2 = flushes ?w (nrels (env b)) b" using b1 b2(4,5) by (simp add: flushes_def)
  obtain l where l: "trace b1 = trace b @ l" "list_all quiet_call l" using b1(6) by blast
  let ?o = "(if replorigin (env b) then [Call ''replorigin_session_advance'' [ANat (wal_pos b + 1)]] else []) @
       [Call ''TransactionTreeSetCommitTsData'' [AXid ?x, AXids ?ch]]"
  let ?t3 = "if ?w then [Call ''SyncRepWaitForLSN'' [ANat (wal_pos b + 1), ABool True]] else []"
  show thesis
  proof (cases "flushes ?w (nrels (env b)) b")
    case True
    then show thesis using b1 b2 b3(2) l fl
      by (intro that[of "l @ [Call ''BufmgrCommit'' []]" "?o @ [XLogFlush (wal_pos b + 1)]" None ?t3]) (simp_all add: eq)
  next
    case False
    then show thesis using b1 b2 b3(2) l fl
      by (intro that[of "l @ [Call ''BufmgrCommit'' []]" "?o @ [Call ''XLogSetAsyncXactLSN'' [ANat (wal_pos b + 1)]]"
            "Some (wal_pos b + 1)" ?t3]) (simp_all add: eq)
  qed
qed

subsection \<open>The whole commit\<close>

lemma CommitTransaction_postcommit_trace:
  "\<exists>b' t t'. CommitTransaction_postcommit pw x b = Inr b' \<and> trace b' = trace b @ [ProcArrayEndTransaction x] @ t @
     [ResourceOwnerRelease (TopTransactionResourceOwner b) RESOURCE_RELEASE_LOCKS True True] @ t'"
  by (simp add: CommitTransaction_postcommit_def stmt_simps AtEOXact_GUC_def clear_owners_def reset_TransactionState_def)
     (rule split_list, simp)

lemma CommitTransaction_order:
  assumes "has_xid (cur b)" "XactTopFullTransactionId b = fullTransactionId (cur b)" "parents b = []"
    "blockState (cur b) \<noteq> TBLOCK_PARALLEL_INPROGRESS" "CommitTransaction b = Inr b'"
  obtains t1 t2 t3 t4 t5 lsn x where
    "trace b' = trace b @ t1 @ [XactLogCommitRecord (xid_of (cur b)) (childXids (cur b))] @ t2 @
      [SetTreeStatus TRANSACTION_STATUS_COMMITTED (xid_of (cur b)) (childXids (cur b)) lsn] @ t3 @
      [ProcArrayEndTransaction x] @ t4 @
      [ResourceOwnerRelease (TopTransactionResourceOwner b) RESOURCE_RELEASE_LOCKS True True] @ t5"
    "list_all quiet_call t1" "list_all quiet_call t3"
    "if flushes (XactLastRecEnd b \<noteq> 0) (nrels (env b)) b then XLogFlush (wal_pos b + 1) \<in> set t2 \<and> lsn = None
     else lsn = Some (wal_pos b + 1)"
proof (rule CommitTransaction_precommit_cases[OF assms(3)])
  fix m t assume "CommitTransaction_precommit False b = Inl (ERROR m, b\<lparr>trace := trace b @ t\<rparr>)"
  then show thesis using assms(4,5) by (simp add: CommitTransaction_def with_state_def Let_def)
next
  fix t assume ok: "CommitTransaction_precommit False b = Inr (b\<lparr>trace := trace b @ t\<rparr>)"
  define c where "c = b\<lparr>trace := trace b @ t, cur := (cur b)\<lparr>state := TRANS_COMMIT, parallelModeLevel := 0\<rparr>\<rparr>"
  have q: "list_all quiet_call t" using keepsD(1)[OF quiet_precommit ok] by (simp add: quietly_def)
  have unf: "CommitTransaction b = let_do RecordTransactionCommit (CommitTransaction_postcommit False) c"
    using ok assms(4) by (simp add: CommitTransaction_def with_state_def Let_def set_state_def upd_def set_cur_def
        if_do_def c_def split: sum.split)
  have c: "has_xid (cur c)" "XactTopFullTransactionId c = fullTransactionId (cur c)" "xid_of (cur c) = xid_of (cur b)"
    "childXids (cur c) = childXids (cur b)" "wal_pos c = wal_pos b" "env c = env b" "XactLastRecEnd c = XactLastRecEnd b"
    "flushes w n c = flushes w n b" "trace c = trace b @ t" for w n
    using assms(1,2) by (simp_all add: c_def flushes_def)
  obtain x d where d: "RecordTransactionCommit c = Inr (x, d)" "CommitTransaction_postcommit False x d = Inr b'"
    using assms(5) by (auto simp: unf let_do_def split: sum.splits)
  have own: "TopTransactionResourceOwner d = TopTransactionResourceOwner b"
    using RecordTransactionCommit_effect[of c] c(1,2) d(1) by (auto simp: same_top_def c_def)
  obtain t4 t5 where t: "trace b' = trace d @ [ProcArrayEndTransaction x] @ t4 @
      [ResourceOwnerRelease (TopTransactionResourceOwner d) RESOURCE_RELEASE_LOCKS True True] @ t5"
    using CommitTransaction_postcommit_trace[of False x d] d(2) by auto
  show thesis
  proof (rule RecordTransactionCommit_order[OF c(1,2) d(1)])
    fix t1 t2 t3 lsn assume "trace d = trace c @ t1 @ [XactLogCommitRecord (xid_of (cur c)) (childXids (cur c))] @ t2 @
        [SetTreeStatus TRANSACTION_STATUS_COMMITTED (xid_of (cur c)) (childXids (cur c)) lsn] @ t3"
      "list_all quiet_call t1" "list_all quiet_call t3"
      "if flushes (XactLastRecEnd c \<noteq> 0) (nrels (env c)) c then XLogFlush (wal_pos c + 1) \<in> set t2 \<and> lsn = None
       else lsn = Some (wal_pos c + 1)"
    then show thesis using t own c q by (intro that[of "t @ t1" t2 lsn t3 x t4 t5]) (auto split: if_splits)
  qed
qed

end
