(* ===== verification/Slru.thy ===== *)
theory Slru
  imports Xid "HOL-Library.AList"
begin

section \<open>Simple LRU buffering (slru.c)\<close>

text \<open>
  The page cache under \<^verbatim>\<open>pg_xact\<close> and \<^verbatim>\<open>pg_subtrans\<close>: a fixed number of slots, each with a
  status, a dirty bit and a use count, in front of segment files of 32 pages. The routines
  are modelled as one process executes them; locks are not part of the state. Every system
  call takes its outcome from \<open>io_results\<close>, so each error branch can be taken, the one in
  which \<^verbatim>\<open>OpenTransientFile\<close> raises and leaves a slot marked busy included.
\<close>

type_synonym page = "8 word list"
type_synonym XLogRecPtr = nat

definition BLCKSZ :: nat where "BLCKSZ = 8192"

definition SLRU_PAGES_PER_SEGMENT :: nat where "SLRU_PAGES_PER_SEGMENT = 32"

definition MAX_WRITEALL_BUFFERS :: nat where "MAX_WRITEALL_BUFFERS = 16"

definition zero_page :: page where "zero_page = replicate BLCKSZ 0"

datatype SlruPageStatus =
    SLRU_PAGE_EMPTY | SLRU_PAGE_READ_IN_PROGRESS | SLRU_PAGE_VALID | SLRU_PAGE_WRITE_IN_PROGRESS

datatype SlruErrorCause =
    SLRU_OPEN_FAILED | SLRU_SEEK_FAILED | SLRU_READ_FAILED | SLRU_WRITE_FAILED | SLRU_FSYNC_FAILED
  | SLRU_CLOSE_FAILED

text \<open>
  Outcomes of a system call: success, failure, an error raised inside it, and a write that
  stops after \<open>k\<close> bytes.
\<close>

datatype io = IoOk | IoFail | IoRaise | IoShort nat

text \<open>
  The shared state. Slot-indexed arrays are functions of the slot number. \<open>files\<close> maps a
  segment number to the pages of its file, \<open>flushed\<close> is the end of the flushed WAL.
\<close>

record SlruShared =
  num_slots :: nat
  page_buffer :: "nat \<Rightarrow> page"
  page_status :: "nat \<Rightarrow> SlruPageStatus"
  page_dirty :: "nat \<Rightarrow> bool"
  page_number :: "nat \<Rightarrow> nat"
  page_lru_count :: "nat \<Rightarrow> 32 word"
  group_lsn :: "nat \<Rightarrow> XLogRecPtr"
  lsn_groups_per_page :: nat
  cur_lru_count :: "32 word"
  latest_page_number :: nat
  slru_errcause :: SlruErrorCause
  files :: "(nat \<times> page list) list"
  flushed :: XLogRecPtr
  io_results :: "io list"

record SlruCtl =
  PagePrecedes :: "nat \<Rightarrow> nat \<Rightarrow> bool"
  syncs :: bool
  InRecovery :: bool
  data_sync_retry :: bool

definition take_io :: "SlruShared \<Rightarrow> io \<times> SlruShared" where
  "take_io s = (case io_results s of [] \<Rightarrow> (IoOk, s) | r # rs \<Rightarrow> (r, s\<lparr>io_results := rs\<rparr>))"

definition XLogFlush_to :: "XLogRecPtr \<Rightarrow> SlruShared \<Rightarrow> SlruShared" where
  "XLogFlush_to lsn s = s\<lparr>flushed := max (flushed s) lsn\<rparr>"

subsection \<open>Initialization\<close>

text \<open>The buffers, page numbers and LSN groups are uninitialized or zeroed memory.\<close>

definition SimpleLruInit :: "nat \<Rightarrow> nat \<Rightarrow> SlruShared \<Rightarrow> SlruShared" where
  "SimpleLruInit nslots nlsns s = s\<lparr>num_slots := nslots, lsn_groups_per_page := nlsns, cur_lru_count := 0,
     page_status := (\<lambda>i. SLRU_PAGE_EMPTY), page_dirty := (\<lambda>i. False), page_lru_count := (\<lambda>i. 0)\<rparr>"

subsection \<open>Use counts and LSNs\<close>

definition SlruRecentlyUsed :: "nat \<Rightarrow> SlruShared \<Rightarrow> SlruShared" where
  "SlruRecentlyUsed slotno s =
     (let new_lru_count = cur_lru_count s in
        if new_lru_count \<noteq> page_lru_count s slotno
        then s\<lparr>cur_lru_count := new_lru_count + 1, page_lru_count := (page_lru_count s)(slotno := new_lru_count + 1)\<rparr>
        else s)"

definition SimpleLruZeroLSNs :: "nat \<Rightarrow> SlruShared \<Rightarrow> SlruShared" where
  "SimpleLruZeroLSNs slotno s =
     (if lsn_groups_per_page s > 0
      then s\<lparr>group_lsn := (\<lambda>i. if slotno * lsn_groups_per_page s \<le> i \<and> i < Suc slotno * lsn_groups_per_page s
                              then 0 else group_lsn s i)\<rparr>
      else s)"

text \<open>
  \<^verbatim>\<open>SimpleLruWaitIO\<close> when no other process works on the slot: the buffer lock is free, so a slot
  still marked busy is one whose I/O failed.
\<close>

definition SimpleLruWaitIO :: "nat \<Rightarrow> SlruShared \<Rightarrow> SlruShared" where
  "SimpleLruWaitIO slotno s =
     (if page_status s slotno = SLRU_PAGE_READ_IN_PROGRESS \<or> page_status s slotno = SLRU_PAGE_WRITE_IN_PROGRESS
      then if page_status s slotno = SLRU_PAGE_READ_IN_PROGRESS
        then s\<lparr>page_status := (page_status s)(slotno := SLRU_PAGE_EMPTY)\<rparr>
        else s\<lparr>page_status := (page_status s)(slotno := SLRU_PAGE_VALID),
               page_dirty := (page_dirty s)(slotno := True)\<rparr>
      else s)"

subsection \<open>Physical reads and writes\<close>

definition segment_pages :: "nat \<Rightarrow> SlruShared \<Rightarrow> page list option" where
  "segment_pages segno s = map_of (files s) segno"

definition SlruPhysicalReadPage :: "SlruCtl \<Rightarrow> nat \<Rightarrow> nat \<Rightarrow> SlruShared \<Rightarrow> (SlruShared, bool) vres" where
  "SlruPhysicalReadPage ctl pageno slotno s =
     (let segno = pageno div SLRU_PAGES_PER_SEGMENT; rpageno = pageno mod SLRU_PAGES_PER_SEGMENT;
          (r, s1) = take_io s in
      if r = IoRaise then Inl (ERROR ''exceeded maxAllocatedDescs'', s1)
      else if r \<noteq> IoOk then Inr (False, s1\<lparr>slru_errcause := SLRU_OPEN_FAILED\<rparr>)
      else (case segment_pages segno s1 of
        None \<Rightarrow>
          if \<not> InRecovery ctl then Inr (False, s1\<lparr>slru_errcause := SLRU_OPEN_FAILED\<rparr>)
          else Inr (True, s1\<lparr>page_buffer := (page_buffer s1)(slotno := zero_page)\<rparr>)
      | Some pages \<Rightarrow>
          let (r2, s2) = take_io s1 in
          if r2 \<noteq> IoOk \<or> length pages \<le> rpageno
          then Inr (False, s2\<lparr>slru_errcause := SLRU_READ_FAILED\<rparr>)
          else
            let s3 = s2\<lparr>page_buffer := (page_buffer s2)(slotno := pages ! rpageno)\<rparr>;
                (r3, s4) = take_io s3 in
            if r3 \<noteq> IoOk then Inr (False, s4\<lparr>slru_errcause := SLRU_CLOSE_FAILED\<rparr>)
            else Inr (True, s4)))"

text \<open>The largest LSN of the groups of a slot.\<close>

definition slot_max_lsn :: "nat \<Rightarrow> SlruShared \<Rightarrow> XLogRecPtr" where
  "slot_max_lsn slotno s =
     foldl (\<lambda>max_lsn lsnoff. let this_lsn = group_lsn s (slotno * lsn_groups_per_page s + lsnoff) in
               if max_lsn < this_lsn then this_lsn else max_lsn)
       (group_lsn s (slotno * lsn_groups_per_page s)) [1..<lsn_groups_per_page s]"

definition flush_slot_lsn :: "nat \<Rightarrow> SlruShared \<Rightarrow> SlruShared" where
  "flush_slot_lsn slotno s =
     (if lsn_groups_per_page s > 0 \<and> slot_max_lsn slotno s \<noteq> 0 then XLogFlush_to (slot_max_lsn slotno s) s else s)"

text \<open>
  \<^verbatim>\<open>pg_pwrite\<close> at a page boundary: a hole before the page reads as zeroes, a short write replaces
  the first bytes of the page if it was there and leaves it unreadable otherwise.
\<close>

definition with_hole :: "nat \<Rightarrow> page list option \<Rightarrow> page list" where
  "with_hole r ps = (case ps of None \<Rightarrow> replicate r zero_page | Some ps \<Rightarrow> ps @ replicate (r - length ps) zero_page)"

definition pwrite_page :: "page \<Rightarrow> nat \<Rightarrow> page list option \<Rightarrow> page list" where
  "pwrite_page pg r ps = (let ps' = with_hole r ps in if r < length ps' then ps'[r := pg] else ps' @ [pg])"

definition pwrite_short :: "nat \<Rightarrow> page \<Rightarrow> nat \<Rightarrow> page list option \<Rightarrow> page list" where
  "pwrite_short k pg r ps =
     (let ps' = with_hole r ps in if r < length ps' then ps'[r := take k pg @ drop k (ps' ! r)] else ps')"

definition set_segment :: "nat \<Rightarrow> page list \<Rightarrow> SlruShared \<Rightarrow> SlruShared" where
  "set_segment segno ps s = s\<lparr>files := AList.update segno ps (files s)\<rparr>"

text \<open>
  \<^verbatim>\<open>fdata\<close> is the list of the segments a \<^verbatim>\<open>SimpleLruWriteAll\<close> has open. Opening the file, creating it
  if needed; the second component of the result tells whether the file stays open for the
  caller, the third is the list after the call.
\<close>

definition open_segment ::
    "nat \<Rightarrow> nat list option \<Rightarrow> SlruShared \<Rightarrow> (SlruShared, bool \<times> bool \<times> nat list option) vres" where
  "open_segment segno fdata s =
     (if (case fdata of Some segs \<Rightarrow> segno \<in> set segs | None \<Rightarrow> False) then Inr ((True, True, fdata), s)
      else let (r, s1) = take_io s in
        if r = IoRaise then Inl (ERROR ''exceeded maxAllocatedDescs'', s1)
        else if r \<noteq> IoOk then Inr ((False, False, fdata), s1\<lparr>slru_errcause := SLRU_OPEN_FAILED\<rparr>)
        else let s2 = (case segment_pages segno s1 of None \<Rightarrow> set_segment segno [] s1 | Some ps \<Rightarrow> s1) in
          (case fdata of
             None \<Rightarrow> Inr ((True, False, None), s2)
           | Some segs \<Rightarrow>
               if length segs < MAX_WRITEALL_BUFFERS then Inr ((True, True, Some (segs @ [segno])), s2)
               else Inr ((True, False, fdata), s2)))"

text \<open>Queueing the sync request and closing the file, after the page has been written.\<close>

definition after_write :: "SlruCtl \<Rightarrow> bool \<Rightarrow> SlruShared \<Rightarrow> bool \<times> SlruShared" where
  "after_write ctl keep_open s =
     (let (synced, s1) =
        (if \<not> syncs ctl then (True, s)
         else let (r, s') = take_io s in
           if r = IoOk then (True, s')
           else let (r', s'') = take_io s' in
             if r' = IoOk then (True, s'') else (False, s''\<lparr>slru_errcause := SLRU_FSYNC_FAILED\<rparr>)) in
      if \<not> synced then (False, s1)
      else if keep_open then (True, s1)
      else let (r, s2) = take_io s1 in
        if r = IoOk then (True, s2) else (False, s2\<lparr>slru_errcause := SLRU_CLOSE_FAILED\<rparr>))"

definition SlruPhysicalWritePage ::
    "SlruCtl \<Rightarrow> nat \<Rightarrow> nat \<Rightarrow> nat list option \<Rightarrow> SlruShared \<Rightarrow> (SlruShared, bool \<times> nat list option) vres" where
  "SlruPhysicalWritePage ctl pageno slotno fdata s =
     (let segno = pageno div SLRU_PAGES_PER_SEGMENT; rpageno = pageno mod SLRU_PAGES_PER_SEGMENT in
      case open_segment segno fdata (flush_slot_lsn slotno s) of
        Inl e \<Rightarrow> Inl e
      | Inr ((opened, keep_open, fdata'), s1) \<Rightarrow>
          if \<not> opened then Inr ((False, fdata'), s1)
          else let (r, s2) = take_io s1; ps = segment_pages segno s2; pg = page_buffer s2 slotno in
            (case r of
               IoOk \<Rightarrow> let (ok, s3) = after_write ctl keep_open (set_segment segno (pwrite_page pg rpageno ps) s2)
                       in Inr ((ok, fdata'), s3)
             | IoShort k \<Rightarrow> Inr ((False, fdata'),
                 (set_segment segno (pwrite_short k pg rpageno ps) s2)\<lparr>slru_errcause := SLRU_WRITE_FAILED\<rparr>)
             | _ \<Rightarrow> Inr ((False, fdata'), s2\<lparr>slru_errcause := SLRU_WRITE_FAILED\<rparr>)))"

definition SlruReportIOError :: "SlruCtl \<Rightarrow> SlruShared \<Rightarrow> pg_error" where
  "SlruReportIOError ctl s =
     (case slru_errcause s of
        SLRU_FSYNC_FAILED \<Rightarrow>
          if data_sync_retry ctl then ERROR ''could not access status of transaction''
          else PANIC ''could not access status of transaction''
      | _ \<Rightarrow> ERROR ''could not access status of transaction'')"

definition SimpleLruDoesPhysicalPageExist :: "nat \<Rightarrow> SlruShared \<Rightarrow> bool" where
  "SimpleLruDoesPhysicalPageExist pageno s =
     (case segment_pages (pageno div SLRU_PAGES_PER_SEGMENT) s of
        None \<Rightarrow> False
      | Some ps \<Rightarrow> pageno mod SLRU_PAGES_PER_SEGMENT < length ps)"

subsection \<open>Writing a slot\<close>

function wait_write :: "nat \<Rightarrow> nat \<Rightarrow> SlruShared \<Rightarrow> SlruShared" where
  "wait_write slotno pageno s =
     (if page_status s slotno = SLRU_PAGE_WRITE_IN_PROGRESS \<and> page_number s slotno = pageno
      then wait_write slotno pageno (SimpleLruWaitIO slotno s) else s)"
  by pat_completeness auto
termination
  by (relation "measure (\<lambda>(slotno, p, s). if page_status s slotno = SLRU_PAGE_WRITE_IN_PROGRESS then 1 else 0)")
     (auto simp: SimpleLruWaitIO_def)

declare wait_write.simps [simp del]

definition SlruInternalWritePage ::
    "SlruCtl \<Rightarrow> nat \<Rightarrow> nat list option \<Rightarrow> SlruShared \<Rightarrow> (SlruShared, nat list option) vres" where
  "SlruInternalWritePage ctl slotno fdata s =
     (let pageno = page_number s slotno; s1 = wait_write slotno pageno s in
      if \<not> page_dirty s1 slotno \<or> page_status s1 slotno \<noteq> SLRU_PAGE_VALID \<or> page_number s1 slotno \<noteq> pageno
      then Inr (fdata, s1)
      else
        let s2 = s1\<lparr>page_status := (page_status s1)(slotno := SLRU_PAGE_WRITE_IN_PROGRESS),
                    page_dirty := (page_dirty s1)(slotno := False)\<rparr> in
        (case SlruPhysicalWritePage ctl pageno slotno fdata s2 of
           Inl e \<Rightarrow> Inl e
         | Inr ((ok, fdata'), s3) \<Rightarrow>
             if \<not> (page_number s3 slotno = pageno \<and> page_status s3 slotno = SLRU_PAGE_WRITE_IN_PROGRESS)
             then Inl (AssertFail ''slot is being written'', s3)
             else
               let s4 = s3\<lparr>page_dirty := (page_dirty s3)(slotno := (if ok then page_dirty s3 slotno else True)),
                           page_status := (page_status s3)(slotno := SLRU_PAGE_VALID)\<rparr> in
               if ok then Inr (fdata', s4) else Inl (SlruReportIOError ctl s4, s4)))"

definition SimpleLruWritePage :: "SlruCtl \<Rightarrow> nat \<Rightarrow> SlruShared \<Rightarrow> SlruShared res" where
  "SimpleLruWritePage ctl slotno s =
     (case SlruInternalWritePage ctl slotno None s of Inl e \<Rightarrow> Inl e | Inr (fdata, s') \<Rightarrow> Inr s')"

subsection \<open>Choosing a slot\<close>

text \<open>The search for a slot that already holds the page.\<close>

definition slot_of :: "nat \<Rightarrow> SlruShared \<Rightarrow> nat option" where
  "slot_of pageno s =
     find (\<lambda>slotno. page_number s slotno = pageno \<and> page_status s slotno \<noteq> SLRU_PAGE_EMPTY) [0..<num_slots s]"

text \<open>The best candidates so far: slot, age and page number.\<close>

record victims =
  bestvalidslot :: nat
  best_valid_delta :: int
  best_valid_page_number :: nat
  bestinvalidslot :: nat
  best_invalid_delta :: int
  best_invalid_page_number :: nat

definition no_victims :: victims where
  "no_victims = \<lparr>bestvalidslot = 0, best_valid_delta = -1, best_valid_page_number = 0,
     bestinvalidslot = 0, best_invalid_delta = -1, best_invalid_page_number = 0\<rparr>"

definition consider_slot :: "SlruCtl \<Rightarrow> nat \<Rightarrow> int \<Rightarrow> SlruShared \<Rightarrow> victims \<Rightarrow> victims" where
  "consider_slot ctl slotno this_delta s v =
     (let this_page_number = page_number s slotno in
      if this_page_number = latest_page_number s then v
      else if page_status s slotno = SLRU_PAGE_VALID then
        (if this_delta > best_valid_delta v \<or>
            this_delta = best_valid_delta v \<and> PagePrecedes ctl this_page_number (best_valid_page_number v)
         then v\<lparr>bestvalidslot := slotno, best_valid_delta := this_delta, best_valid_page_number := this_page_number\<rparr>
         else v)
      else
        (if this_delta > best_invalid_delta v \<or>
            this_delta = best_invalid_delta v \<and> PagePrecedes ctl this_page_number (best_invalid_page_number v)
         then v\<lparr>bestinvalidslot := slotno, best_invalid_delta := this_delta, best_invalid_page_number := this_page_number\<rparr>
         else v))"

text \<open>The loop over the slots: it stops at an empty one, and pulls back use counts from the future.\<close>

fun scan_slots :: "SlruCtl \<Rightarrow> 32 word \<Rightarrow> nat list \<Rightarrow> victims \<Rightarrow> SlruShared \<Rightarrow> (nat + victims) \<times> SlruShared" where
  "scan_slots ctl cur_count [] v s = (Inr v, s)"
| "scan_slots ctl cur_count (slotno # slots) v s =
     (if page_status s slotno = SLRU_PAGE_EMPTY then (Inl slotno, s)
      else
        let d = sint (cur_count - page_lru_count s slotno) in
        if d < 0 then
          let s' = s\<lparr>page_lru_count := (page_lru_count s)(slotno := cur_count)\<rparr> in
          scan_slots ctl cur_count slots (consider_slot ctl slotno 0 s' v) s'
        else scan_slots ctl cur_count slots (consider_slot ctl slotno d s v) s)"

text \<open>
  The outer loop, restarted after every wait and every write; \<open>n\<close> bounds the number of rounds,
  and running out of it stands for a loop that does not end.
\<close>

fun select_loop :: "nat \<Rightarrow> SlruCtl \<Rightarrow> nat \<Rightarrow> SlruShared \<Rightarrow> (SlruShared, nat) vres" where
  "select_loop 0 ctl pageno s = Inl (UndefinedBehaviour ''endless loop'', s)"
| "select_loop (Suc n) ctl pageno s =
     (case slot_of pageno s of
        Some slotno \<Rightarrow> Inr (slotno, s)
      | None \<Rightarrow>
          let cur_count = cur_lru_count s; s1 = s\<lparr>cur_lru_count := cur_count + 1\<rparr> in
          (case scan_slots ctl cur_count [0..<num_slots s] no_victims s1 of
             (Inl slotno, s2) \<Rightarrow> Inr (slotno, s2)
           | (Inr v, s2) \<Rightarrow>
               if best_valid_delta v < 0 then select_loop n ctl pageno (SimpleLruWaitIO (bestinvalidslot v) s2)
               else if \<not> page_dirty s2 (bestvalidslot v) then Inr (bestvalidslot v, s2)
               else (case SlruInternalWritePage ctl (bestvalidslot v) None s2 of
                       Inl e \<Rightarrow> Inl e
                     | Inr (fdata, s3) \<Rightarrow> select_loop n ctl pageno s3)))"

definition SlruSelectLRUPage :: "SlruCtl \<Rightarrow> nat \<Rightarrow> SlruShared \<Rightarrow> (SlruShared, nat) vres" where
  "SlruSelectLRUPage ctl pageno s = select_loop (2 * num_slots s + 1) ctl pageno s"

subsection \<open>Zeroing, reading and writing pages\<close>

definition SimpleLruZeroPage :: "SlruCtl \<Rightarrow> nat \<Rightarrow> SlruShared \<Rightarrow> (SlruShared, nat) vres" where
  "SimpleLruZeroPage ctl pageno s =
     (case SlruSelectLRUPage ctl pageno s of
        Inl e \<Rightarrow> Inl e
      | Inr (slotno, s1) \<Rightarrow>
          if \<not> (page_status s1 slotno = SLRU_PAGE_EMPTY \<or>
                page_status s1 slotno = SLRU_PAGE_VALID \<and> \<not> page_dirty s1 slotno \<or> page_number s1 slotno = pageno)
          then Inl (AssertFail ''selected slot is freeable'', s1)
          else
            let s2 = SlruRecentlyUsed slotno
              (s1\<lparr>page_number := (page_number s1)(slotno := pageno),
                  page_status := (page_status s1)(slotno := SLRU_PAGE_VALID),
                  page_dirty := (page_dirty s1)(slotno := True)\<rparr>);
                s3 = SimpleLruZeroLSNs slotno (s2\<lparr>page_buffer := (page_buffer s2)(slotno := zero_page)\<rparr>) in
            Inr (slotno, s3\<lparr>latest_page_number := pageno\<rparr>))"

fun read_loop :: "nat \<Rightarrow> SlruCtl \<Rightarrow> nat \<Rightarrow> bool \<Rightarrow> SlruShared \<Rightarrow> (SlruShared, nat) vres" where
  "read_loop 0 ctl pageno write_ok s = Inl (UndefinedBehaviour ''endless loop'', s)"
| "read_loop (Suc n) ctl pageno write_ok s =
     (case SlruSelectLRUPage ctl pageno s of
        Inl e \<Rightarrow> Inl e
      | Inr (slotno, s1) \<Rightarrow>
          if page_number s1 slotno = pageno \<and> page_status s1 slotno \<noteq> SLRU_PAGE_EMPTY then
            (if page_status s1 slotno = SLRU_PAGE_READ_IN_PROGRESS \<or>
                page_status s1 slotno = SLRU_PAGE_WRITE_IN_PROGRESS \<and> \<not> write_ok
             then read_loop n ctl pageno write_ok (SimpleLruWaitIO slotno s1)
             else Inr (slotno, SlruRecentlyUsed slotno s1))
          else if \<not> (page_status s1 slotno = SLRU_PAGE_EMPTY \<or>
                     page_status s1 slotno = SLRU_PAGE_VALID \<and> \<not> page_dirty s1 slotno)
          then Inl (AssertFail ''selected slot is freeable'', s1)
          else
            let s2 = s1\<lparr>page_number := (page_number s1)(slotno := pageno),
                        page_status := (page_status s1)(slotno := SLRU_PAGE_READ_IN_PROGRESS),
                        page_dirty := (page_dirty s1)(slotno := False)\<rparr> in
            (case SlruPhysicalReadPage ctl pageno slotno s2 of
               Inl e \<Rightarrow> Inl e
             | Inr (ok, s3) \<Rightarrow>
                 let s4 = SimpleLruZeroLSNs slotno s3 in
                 if \<not> (page_number s4 slotno = pageno \<and> page_status s4 slotno = SLRU_PAGE_READ_IN_PROGRESS \<and>
                       \<not> page_dirty s4 slotno)
                 then Inl (AssertFail ''slot is being read'', s4)
                 else
                   let s5 = s4\<lparr>page_status := (page_status s4)(slotno := (if ok then SLRU_PAGE_VALID else SLRU_PAGE_EMPTY))\<rparr> in
                   if \<not> ok then Inl (SlruReportIOError ctl s5, s5)
                   else Inr (slotno, SlruRecentlyUsed slotno s5)))"

definition SimpleLruReadPage :: "SlruCtl \<Rightarrow> nat \<Rightarrow> bool \<Rightarrow> SlruShared \<Rightarrow> (SlruShared, nat) vres" where
  "SimpleLruReadPage ctl pageno write_ok s = read_loop 2 ctl pageno write_ok s"

definition SimpleLruReadPage_ReadOnly :: "SlruCtl \<Rightarrow> nat \<Rightarrow> SlruShared \<Rightarrow> (SlruShared, nat) vres" where
  "SimpleLruReadPage_ReadOnly ctl pageno s =
     (case find (\<lambda>slotno. page_number s slotno = pageno \<and> page_status s slotno \<noteq> SLRU_PAGE_EMPTY \<and>
                          page_status s slotno \<noteq> SLRU_PAGE_READ_IN_PROGRESS) [0..<num_slots s] of
        Some slotno \<Rightarrow> Inr (slotno, SlruRecentlyUsed slotno s)
      | None \<Rightarrow> SimpleLruReadPage ctl pageno True s)"

text \<open>Closing the files a \<^verbatim>\<open>SimpleLruWriteAll\<close> left open; the flag tells that all closed without an error.\<close>

fun close_files :: "nat list \<Rightarrow> bool \<Rightarrow> SlruShared \<Rightarrow> bool \<times> SlruShared" where
  "close_files [] ok s = (ok, s)"
| "close_files (seg # segs) ok s =
     (let (r, s1) = take_io s in
        if r \<noteq> IoOk then close_files segs False (s1\<lparr>slru_errcause := SLRU_CLOSE_FAILED\<rparr>)
        else close_files segs ok s1)"

fun write_slots ::
    "SlruCtl \<Rightarrow> bool \<Rightarrow> nat list \<Rightarrow> nat list option \<Rightarrow> SlruShared \<Rightarrow> (SlruShared, nat list option) vres" where
  "write_slots ctl allow_redirtied [] fdata s = Inr (fdata, s)"
| "write_slots ctl allow_redirtied (slotno # slots) fdata s =
     (case SlruInternalWritePage ctl slotno fdata s of
        Inl e \<Rightarrow> Inl e
      | Inr (fdata', s1) \<Rightarrow>
          if \<not> (allow_redirtied \<or> page_status s1 slotno = SLRU_PAGE_EMPTY \<or>
                page_status s1 slotno = SLRU_PAGE_VALID \<and> \<not> page_dirty s1 slotno)
          then Inl (AssertFail ''slot is clean'', s1)
          else write_slots ctl allow_redirtied slots fdata' s1)"

definition SimpleLruWriteAll :: "SlruCtl \<Rightarrow> bool \<Rightarrow> SlruShared stmt" where
  "SimpleLruWriteAll ctl allow_redirtied s =
     (case write_slots ctl allow_redirtied [0..<num_slots s] (Some []) s of
        Inl e \<Rightarrow> Inl e
      | Inr (fdata, s1) \<Rightarrow>
          let (ok, s2) = close_files (case fdata of None \<Rightarrow> [] | Some segs \<Rightarrow> segs) True s1 in
          if \<not> ok then Inl (SlruReportIOError ctl s2, s2)
          else if \<not> syncs ctl then Inr s2
          else let (r, s3) = take_io s2 in
            if r = IoOk then Inr s3
            else Inl (if data_sync_retry ctl then ERROR ''could not fsync file'' else PANIC ''could not fsync file'', s3))"

subsection \<open>Truncation\<close>

definition SlruMayDeleteSegment :: "SlruCtl \<Rightarrow> nat \<Rightarrow> nat \<Rightarrow> bool" where
  "SlruMayDeleteSegment ctl segpage cutoffPage =
     (let seg_last_page = segpage + SLRU_PAGES_PER_SEGMENT - 1 in
        PagePrecedes ctl segpage cutoffPage \<and> PagePrecedes ctl seg_last_page cutoffPage)"

definition SlruInternalDeleteSegment :: "nat \<Rightarrow> SlruShared \<Rightarrow> SlruShared" where
  "SlruInternalDeleteSegment segno s = s\<lparr>files := AList.delete segno (files s)\<rparr>"

text \<open>The directory scan visits the segment files in some order: that of \<open>files\<close>.\<close>

fun SlruScanDirectory ::
    "(nat \<Rightarrow> SlruShared \<Rightarrow> bool \<times> SlruShared) \<Rightarrow> nat list \<Rightarrow> SlruShared \<Rightarrow> bool \<times> SlruShared" where
  "SlruScanDirectory callback [] s = (False, s)"
| "SlruScanDirectory callback (segno # segs) s =
     (let (retval, s1) = callback (segno * SLRU_PAGES_PER_SEGMENT) s in
        if retval then (True, s1) else SlruScanDirectory callback segs s1)"

definition SlruScanDirCbReportPresence :: "SlruCtl \<Rightarrow> nat \<Rightarrow> nat \<Rightarrow> SlruShared \<Rightarrow> bool \<times> SlruShared" where
  "SlruScanDirCbReportPresence ctl cutoffPage segpage s = (SlruMayDeleteSegment ctl segpage cutoffPage, s)"

definition SlruScanDirCbDeleteCutoff :: "SlruCtl \<Rightarrow> nat \<Rightarrow> nat \<Rightarrow> SlruShared \<Rightarrow> bool \<times> SlruShared" where
  "SlruScanDirCbDeleteCutoff ctl cutoffPage segpage s =
     (False, if SlruMayDeleteSegment ctl segpage cutoffPage
             then SlruInternalDeleteSegment (segpage div SLRU_PAGES_PER_SEGMENT) s else s)"

definition SlruScanDirCbDeleteAll :: "nat \<Rightarrow> SlruShared \<Rightarrow> bool \<times> SlruShared" where
  "SlruScanDirCbDeleteAll segpage s = (False, SlruInternalDeleteSegment (segpage div SLRU_PAGES_PER_SEGMENT) s)"

text \<open>
  One pass over the slots: \<open>P\<close> says which pages have to leave the buffers. A pass that wrote or
  waited ends with \<open>True\<close> and is repeated; \<open>SlruDeleteSegment\<close> finishes the pass first.
\<close>

fun empty_slots ::
    "SlruCtl \<Rightarrow> (nat \<Rightarrow> bool) \<Rightarrow> nat list \<Rightarrow> SlruShared \<Rightarrow> (SlruShared, bool) vres" where
  "empty_slots ctl P [] s = Inr (False, s)"
| "empty_slots ctl P (slotno # slots) s =
     (if page_status s slotno = SLRU_PAGE_EMPTY then empty_slots ctl P slots s
      else if \<not> P (page_number s slotno) then empty_slots ctl P slots s
      else if page_status s slotno = SLRU_PAGE_VALID \<and> \<not> page_dirty s slotno
      then empty_slots ctl P slots (s\<lparr>page_status := (page_status s)(slotno := SLRU_PAGE_EMPTY)\<rparr>)
      else if page_status s slotno = SLRU_PAGE_VALID then
        (case SlruInternalWritePage ctl slotno None s of Inl e \<Rightarrow> Inl e | Inr (fdata, s1) \<Rightarrow> Inr (True, s1))
      else Inr (True, SimpleLruWaitIO slotno s))"

fun truncate_loop :: "nat \<Rightarrow> SlruCtl \<Rightarrow> nat \<Rightarrow> SlruShared \<Rightarrow> (SlruShared, bool) vres" where
  "truncate_loop 0 ctl cutoffPage s = Inl (UndefinedBehaviour ''endless loop'', s)"
| "truncate_loop (Suc n) ctl cutoffPage s =
     (if PagePrecedes ctl (latest_page_number s) cutoffPage then Inr (False, s)
      else (case empty_slots ctl (\<lambda>p. PagePrecedes ctl p cutoffPage) [0..<num_slots s] s of
              Inl e \<Rightarrow> Inl e
            | Inr (restart, s1) \<Rightarrow> if restart then truncate_loop n ctl cutoffPage s1 else Inr (True, s1)))"

definition SimpleLruTruncate :: "SlruCtl \<Rightarrow> nat \<Rightarrow> SlruShared stmt" where
  "SimpleLruTruncate ctl cutoffPage s =
     (case truncate_loop (3 * num_slots s + 1) ctl cutoffPage s of
        Inl e \<Rightarrow> Inl e
      | Inr (cleared, s1) \<Rightarrow>
          if \<not> cleared then Inr s1
          else Inr (snd (SlruScanDirectory (SlruScanDirCbDeleteCutoff ctl cutoffPage) (map fst (files s1)) s1)))"

fun delete_pass ::
    "SlruCtl \<Rightarrow> nat \<Rightarrow> nat list \<Rightarrow> bool \<Rightarrow> SlruShared \<Rightarrow> (SlruShared, bool) vres" where
  "delete_pass ctl segno [] did_write s = Inr (did_write, s)"
| "delete_pass ctl segno (slotno # slots) did_write s =
     (if page_status s slotno = SLRU_PAGE_EMPTY then delete_pass ctl segno slots did_write s
      else if page_number s slotno div SLRU_PAGES_PER_SEGMENT \<noteq> segno then delete_pass ctl segno slots did_write s
      else if page_status s slotno = SLRU_PAGE_VALID \<and> \<not> page_dirty s slotno
      then delete_pass ctl segno slots did_write (s\<lparr>page_status := (page_status s)(slotno := SLRU_PAGE_EMPTY)\<rparr>)
      else if page_status s slotno = SLRU_PAGE_VALID then
        (case SlruInternalWritePage ctl slotno None s of
           Inl e \<Rightarrow> Inl e | Inr (fdata, s1) \<Rightarrow> delete_pass ctl segno slots True s1)
      else delete_pass ctl segno slots True (SimpleLruWaitIO slotno s))"

fun delete_loop :: "nat \<Rightarrow> SlruCtl \<Rightarrow> nat \<Rightarrow> SlruShared stmt" where
  "delete_loop 0 ctl segno s = Inl (UndefinedBehaviour ''endless loop'', s)"
| "delete_loop (Suc n) ctl segno s =
     (case delete_pass ctl segno [0..<num_slots s] False s of
        Inl e \<Rightarrow> Inl e
      | Inr (did_write, s1) \<Rightarrow>
          if did_write then delete_loop n ctl segno s1 else Inr (SlruInternalDeleteSegment segno s1))"

definition SlruDeleteSegment :: "SlruCtl \<Rightarrow> nat \<Rightarrow> SlruShared stmt" where
  "SlruDeleteSegment ctl segno s = delete_loop (3 * num_slots s + 1) ctl segno s"

end
