(* ===== verification/Slru_Disk.thy ===== *)
theory Slru_Disk
  imports Slru
begin

section \<open>The page cache: abstraction, invariant and disk\<close>

text \<open>
  What a page contains is decided by the slot that holds it or else by the disk; the
  routines of \<^verbatim>\<open>slru.c\<close> move pages between the two without changing that. The invariant says
  that no page is in two slots, that a clean page agrees with the disk and that the WAL its
  entries depend on is flushed.
\<close>

subsection \<open>Definitions\<close>

definition loaded :: "SlruShared \<Rightarrow> nat \<Rightarrow> bool" where
  "loaded s i \<longleftrightarrow> page_status s i = SLRU_PAGE_VALID \<or> page_status s i = SLRU_PAGE_WRITE_IN_PROGRESS"

definition disk_page :: "SlruShared \<Rightarrow> nat \<Rightarrow> page option" where
  "disk_page s p = (case segment_pages (p div SLRU_PAGES_PER_SEGMENT) s of
     None \<Rightarrow> None
   | Some ps \<Rightarrow> if p mod SLRU_PAGES_PER_SEGMENT < length ps then Some (ps ! (p mod SLRU_PAGES_PER_SEGMENT)) else None)"

definition page_of :: "SlruShared \<Rightarrow> nat \<Rightarrow> page option" where
  "page_of s p = (case find (\<lambda>i. page_number s i = p \<and> loaded s i) [0..<num_slots s] of
     Some i \<Rightarrow> Some (page_buffer s i)
   | None \<Rightarrow> disk_page s p)"

definition lsns_flushed :: "SlruShared \<Rightarrow> nat \<Rightarrow> bool" where
  "lsns_flushed s i \<longleftrightarrow> (\<forall>k < lsn_groups_per_page s. group_lsn s (i * lsn_groups_per_page s + k) \<le> flushed s)"

definition slot_ok :: "SlruShared \<Rightarrow> nat \<Rightarrow> bool" where
  "slot_ok s i \<longleftrightarrow> (page_dirty s i \<longrightarrow> loaded s i) \<and> (loaded s i \<longrightarrow> length (page_buffer s i) = BLCKSZ) \<and>
     (page_status s i = SLRU_PAGE_VALID \<and> \<not> page_dirty s i \<longrightarrow>
        disk_page s (page_number s i) = Some (page_buffer s i) \<and> lsns_flushed s i)"

definition unique_pages :: "SlruShared \<Rightarrow> bool" where
  "unique_pages s \<longleftrightarrow> (\<forall>i < num_slots s. \<forall>j < num_slots s. page_status s i \<noteq> SLRU_PAGE_EMPTY \<longrightarrow>
     page_status s j \<noteq> SLRU_PAGE_EMPTY \<longrightarrow> page_number s i = page_number s j \<longrightarrow> i = j)"

definition disk_ok :: "SlruShared \<Rightarrow> bool" where
  "disk_ok s \<longleftrightarrow> (\<forall>p x. disk_page s p = Some x \<longrightarrow> length x = BLCKSZ)"

definition slru_ok :: "SlruShared \<Rightarrow> bool" where
  "slru_ok s \<longleftrightarrow> 2 \<le> num_slots s \<and> unique_pages s \<and> disk_ok s \<and> (\<forall>i < num_slots s. slot_ok s i)"

text \<open>
  Nothing is lost: every page keeps its contents, and a page that did not exist is still
  missing or, below the end of a file that grew, a page of zeroes.
\<close>

definition grown :: "page option \<Rightarrow> page option \<Rightarrow> bool" where
  "grown x y \<longleftrightarrow> y = x \<or> x = None \<and> y = Some zero_page"

definition keeps_pages :: "SlruShared \<Rightarrow> SlruShared \<Rightarrow> bool" where
  "keeps_pages s s' \<longleftrightarrow> num_slots s' = num_slots s \<and> lsn_groups_per_page s' = lsn_groups_per_page s \<and>
     flushed s \<le> flushed s' \<and> (\<forall>p. grown (page_of s p) (page_of s' p))"

lemma grown_refl [simp]: "grown x x"
  by (simp add: grown_def)

lemma grown_trans: "grown x y \<Longrightarrow> grown y z \<Longrightarrow> grown x z"
  by (auto simp: grown_def)

lemma grown_Some [simp]: "grown (Some x) y \<longleftrightarrow> y = Some x"
  by (auto simp: grown_def)

lemma keeps_pages_refl: "keeps_pages s s"
  by (simp add: keeps_pages_def)

lemma keeps_pages_trans: "keeps_pages a b \<Longrightarrow> keeps_pages b c \<Longrightarrow> keeps_pages a c"
  unfolding keeps_pages_def by (auto intro: grown_trans)

lemma keeps_pages_Some: "keeps_pages s s' \<Longrightarrow> page_of s p = Some x \<Longrightarrow> page_of s' p = Some x"
  unfolding keeps_pages_def by (metis grown_Some)

text \<open>The part of the state all this depends on.\<close>

definition core where
  "core s = (num_slots s, page_buffer s, page_status s, page_dirty s, page_number s, group_lsn s,
     lsn_groups_per_page s, files s, flushed s)"

lemma core_ok:
  assumes "core s' = core s"
  shows "slru_ok s' = slru_ok s" "page_of s' = page_of s" "keeps_pages s s'" "loaded s' = loaded s" "disk_page s' = disk_page s"
proof -
  have c: "num_slots s' = num_slots s" "page_buffer s' = page_buffer s" "page_status s' = page_status s"
    "page_dirty s' = page_dirty s" "page_number s' = page_number s" "group_lsn s' = group_lsn s"
    "lsn_groups_per_page s' = lsn_groups_per_page s" "files s' = files s" "flushed s' = flushed s"
    using assms by (simp_all add: core_def)
  show l: "loaded s' = loaded s" by (rule ext) (simp add: loaded_def c)
  show d: "disk_page s' = disk_page s" by (rule ext) (simp add: disk_page_def segment_pages_def c)
  show p: "page_of s' = page_of s" by (rule ext) (simp add: page_of_def c l d cong: option.case_cong)
  show "slru_ok s' = slru_ok s"
    by (simp add: slru_ok_def slot_ok_def unique_pages_def disk_ok_def lsns_flushed_def c l d)
  show "keeps_pages s s'" by (simp add: keeps_pages_def c p)
qed

lemma core_take_io: "take_io s = (r, s') \<Longrightarrow> core s' = core s"
  by (auto simp: take_io_def core_def split: list.splits)

lemma core_used [simp]: "core (SlruRecentlyUsed i s) = core s"
  by (simp add: SlruRecentlyUsed_def core_def Let_def)

lemma core_err [simp]: "core (s\<lparr>slru_errcause := e\<rparr>) = core s"
  by (simp add: core_def)

subsection \<open>Looking up a page\<close>

lemma page_of_slot:
  assumes "unique_pages s" "i < num_slots s" "loaded s i"
  shows "page_of s (page_number s i) = Some (page_buffer s i)"
proof -
  let ?P = "\<lambda>j. page_number s j = page_number s i \<and> loaded s j"
  have ne: "find ?P [0..<num_slots s] \<noteq> None" using assms by (auto simp: find_None_iff)
  then obtain j where j: "find ?P [0..<num_slots s] = Some j" by blast
  then have "?P j" "j < num_slots s" by (auto simp: find_Some_iff)
  then have "j = i" using assms by (auto simp: unique_pages_def loaded_def)
  then show ?thesis using j by (simp add: page_of_def)
qed

lemma page_of_disk:
  assumes "\<And>i. i < num_slots s \<Longrightarrow> loaded s i \<Longrightarrow> page_number s i \<noteq> p"
  shows "page_of s p = disk_page s p"
proof -
  have "find (\<lambda>i. page_number s i = p \<and> loaded s i) [0..<num_slots s] = None"
    using assms by (auto simp: find_None_iff)
  then show ?thesis by (simp add: page_of_def)
qed

text \<open>The two cases in which a step keeps a page: it stays in its slot, or it is on disk before and after.\<close>

lemma page_kept_slot:
  assumes "unique_pages s" "unique_pages s'" "num_slots s' = num_slots s" "i < num_slots s" "loaded s i" "loaded s' i"
    "page_number s' i = page_number s i" "page_buffer s' i = page_buffer s i"
  shows "page_of s' (page_number s i) = page_of s (page_number s i)"
  using page_of_slot[OF assms(1,4,5)] page_of_slot[OF assms(2), of i] assms by simp

lemma keeps_pagesI:
  assumes "unique_pages s" "unique_pages s'" "num_slots s' = num_slots s"
    "lsn_groups_per_page s' = lsn_groups_per_page s" "flushed s \<le> flushed s'"
    "\<And>i. i < num_slots s \<Longrightarrow> loaded s i \<Longrightarrow>
       if loaded s' i then page_number s' i = page_number s i \<and> page_buffer s' i = page_buffer s i
       else (\<forall>j < num_slots s. loaded s' j \<longrightarrow> page_number s' j \<noteq> page_number s i) \<and>
         disk_page s' (page_number s i) = Some (page_buffer s i)"
    "\<And>i. i < num_slots s \<Longrightarrow> loaded s' i \<Longrightarrow> \<not> loaded s i \<Longrightarrow>
       page_buffer s' i = zero_page \<and> disk_page s (page_number s' i) = None \<or>
       disk_page s (page_number s' i) = Some (page_buffer s' i)"
    "\<And>p. (\<And>i. i < num_slots s \<Longrightarrow> loaded s i \<Longrightarrow> page_number s i \<noteq> p) \<Longrightarrow> grown (disk_page s p) (disk_page s' p)"
  shows "keeps_pages s s'"
proof -
  have "grown (page_of s p) (page_of s' p)" for p
  proof (cases "\<exists>i < num_slots s. loaded s i \<and> page_number s i = p")
    case True
    then obtain i where i: "i < num_slots s" "loaded s i" "page_number s i = p" by blast
    show ?thesis
    proof (cases "loaded s' i")
      case True
      then show ?thesis using page_kept_slot[OF assms(1-3) i(1,2)] assms(6)[OF i(1,2)] i(3) by simp
    next
      case False
      then have d: "\<forall>j < num_slots s'. loaded s' j \<longrightarrow> page_number s' j \<noteq> p" "disk_page s' p = Some (page_buffer s i)"
        using assms(6)[OF i(1,2)] i(3) assms(3) by simp_all
      then have "page_of s' p = disk_page s' p" by (intro page_of_disk) auto
      with d(2) show ?thesis using page_of_slot[OF assms(1) i(1,2)] i(3) by simp
    qed
  next
    case False
    then have d: "page_of s p = disk_page s p" by (intro page_of_disk) auto
    show ?thesis
    proof (cases "\<exists>i < num_slots s. loaded s' i \<and> page_number s' i = p")
      case True
      then obtain i where i: "i < num_slots s" "loaded s' i" "page_number s' i = p" by blast
      have "\<not> loaded s i" using False assms(6)[OF i(1)] i(2,3) i(1) by auto
      then show ?thesis
        using assms(7)[OF i(1,2)] page_of_slot[OF assms(2) _ i(2)] i assms(3) d by (auto simp: grown_def)
    next
      case no: False
      then have "page_of s' p = disk_page s' p" using assms(3) by (intro page_of_disk) auto
      then show ?thesis using d assms(8)[of p] False by auto
    qed
  qed
  then show ?thesis using assms(3-5) by (simp add: keeps_pages_def)
qed


subsection \<open>The disk\<close>

lemma segment_set: "segment_pages seg (set_segment seg' ps s) = (if seg = seg' then Some ps else segment_pages seg s)"
  by (simp add: segment_pages_def set_segment_def update_conv')

lemma disk_set_segment:
  "disk_page (set_segment seg ps s) p =
     (if p div SLRU_PAGES_PER_SEGMENT = seg
      then if p mod SLRU_PAGES_PER_SEGMENT < length ps then Some (ps ! (p mod SLRU_PAGES_PER_SEGMENT)) else None
      else disk_page s p)"
  by (auto simp: disk_page_def segment_set)

lemma length_zero_page [simp]: "length zero_page = BLCKSZ"
  by (simp add: zero_page_def)

lemma seg_page_eq: "p div SLRU_PAGES_PER_SEGMENT = q div SLRU_PAGES_PER_SEGMENT \<Longrightarrow>
    p mod SLRU_PAGES_PER_SEGMENT = q mod SLRU_PAGES_PER_SEGMENT \<Longrightarrow> p = q"
  by (metis div_mult_mod_eq)

lemma with_hole_nth:
  "k < length (with_hole r ps) \<Longrightarrow> with_hole r ps ! k =
     (case ps of None \<Rightarrow> zero_page | Some ps \<Rightarrow> if k < length ps then ps ! k else zero_page)"
  by (auto simp: with_hole_def nth_append split: option.splits)

lemma with_hole_length:
  "r \<le> length (with_hole r ps)" "length (with_hole r (Some xs)) \<ge> length xs"
  by (auto simp: with_hole_def split: option.splits)

text \<open>What a write, complete or not, does to the other pages.\<close>

definition disk_grows :: "nat \<Rightarrow> SlruShared \<Rightarrow> SlruShared \<Rightarrow> bool" where
  "disk_grows pageno s s' \<longleftrightarrow> (\<forall>p. p \<noteq> pageno \<longrightarrow> grown (disk_page s p) (disk_page s' p)) \<and> (disk_ok s \<longrightarrow> disk_ok s')"

lemma disk_grows_trans: "disk_grows p a b \<Longrightarrow> disk_grows p b c \<Longrightarrow> disk_grows p a c"
  unfolding disk_grows_def using grown_trans by blast

lemma disk_grows_core: "core s' = core s \<Longrightarrow> disk_grows p s s'"
  using core_ok(5)[of s' s] by (simp add: disk_grows_def disk_ok_def)

lemma disk_grows_hole:
  assumes "length ps = length (with_hole r (segment_pages seg s)) \<or> length ps = Suc r \<and> length (with_hole r (segment_pages seg s)) = r"
    "\<And>k. k \<noteq> r \<Longrightarrow> k < length (with_hole r (segment_pages seg s)) \<Longrightarrow> ps ! k = with_hole r (segment_pages seg s) ! k"
    "disk_ok s \<Longrightarrow> r < length ps \<Longrightarrow> length (ps ! r) = BLCKSZ"
    "seg = pageno div SLRU_PAGES_PER_SEGMENT" "r = pageno mod SLRU_PAGES_PER_SEGMENT"
  shows "disk_grows pageno s (set_segment seg ps s)"
proof -
  let ?h = "with_hole r (segment_pages seg s)" and ?s = "set_segment seg ps s"
  have g: "grown (disk_page s p) (disk_page ?s p)" if "p \<noteq> pageno" for p
  proof (cases "p div SLRU_PAGES_PER_SEGMENT = seg")
    case True
    let ?k = "p mod SLRU_PAGES_PER_SEGMENT"
    have k: "?k \<noteq> r" using that True seg_page_eq[of p pageno] assms(4,5) by auto
    then have len: "?k < length ps \<longleftrightarrow> ?k < length ?h" using assms(1) by auto
    show ?thesis
    proof (cases "?k < length ?h")
      case in_hole: True
      then show ?thesis
        using True len assms(2)[OF k] with_hole_nth[OF in_hole]
        by (auto simp: disk_page_def segment_set grown_def split: option.splits)
    next
      case False
      then have "disk_page s p = None"
        using True with_hole_length(2)[of "the (segment_pages seg s)" r] by (auto simp: disk_page_def split: option.splits)
      then show ?thesis using True False len by (simp add: disk_set_segment)
    qed
  next
    case False
    then show ?thesis by (simp add: disk_set_segment)
  qed
  moreover have "disk_ok ?s" if d: "disk_ok s"
    unfolding disk_ok_def
  proof (intro allI impI)
    fix p x assume x: "disk_page ?s p = Some x"
    show "length x = BLCKSZ"
    proof (cases "p = pageno")
      case True
      then show ?thesis using x assms(3)[OF d] assms(4,5) by (auto simp: disk_set_segment split: if_splits)
    next
      case False
      then have "disk_page s p = Some x \<or> x = zero_page" using g[OF False] x by (auto simp: grown_def)
      then show ?thesis using d unfolding disk_ok_def by auto
    qed
  qed
  ultimately show ?thesis by (simp add: disk_grows_def)
qed


subsection \<open>A physical write\<close>

definition bufs where
  "bufs s = (num_slots s, page_buffer s, page_status s, page_dirty s, page_number s, group_lsn s,
     lsn_groups_per_page s, latest_page_number s)"

lemma bufsD:
  assumes "bufs s' = bufs s"
  shows "num_slots s' = num_slots s" "page_buffer s' = page_buffer s" "page_status s' = page_status s"
    "page_dirty s' = page_dirty s" "page_number s' = page_number s" "group_lsn s' = group_lsn s"
    "lsn_groups_per_page s' = lsn_groups_per_page s" "latest_page_number s' = latest_page_number s"
    "loaded s' = loaded s" "unique_pages s' = unique_pages s"
  using assms by (simp_all add: bufs_def loaded_def unique_pages_def fun_eq_iff)

definition writes :: "nat \<Rightarrow> SlruShared \<Rightarrow> SlruShared \<Rightarrow> bool" where
  "writes pageno s s' \<longleftrightarrow> bufs s' = bufs s \<and> flushed s \<le> flushed s' \<and> disk_grows pageno s s'"

lemma writes_refl: "writes pageno s s"
  by (simp add: writes_def disk_grows_core)

lemma writes_trans: "writes p a b \<Longrightarrow> writes p b c \<Longrightarrow> writes p a c"
  unfolding writes_def using disk_grows_trans[of p a b c] by auto

lemma bufs_take_io: "take_io s = (r, s') \<Longrightarrow> bufs s' = bufs s"
  by (auto simp: take_io_def bufs_def split: list.splits)

lemma same_take_io: "take_io s = (r, s') \<Longrightarrow> core s' = core s \<and> bufs s' = bufs s"
  by (simp add: core_take_io bufs_take_io)

lemma writes_take_io: "take_io s = (r, s') \<Longrightarrow> writes p s s'"
  using core_take_io[of s r s'] bufs_take_io[of s r s'] disk_grows_core[of s' s p] by (simp add: writes_def core_def)

lemma bufs_err [simp]: "bufs (s\<lparr>slru_errcause := e\<rparr>) = bufs s"
  by (simp add: bufs_def)

lemma writes_err: "writes p s s' \<Longrightarrow> writes p s (s'\<lparr>slru_errcause := e\<rparr>)"
  using disk_grows_core[OF core_err, of p s' e] disk_grows_trans[of p s s' "s'\<lparr>slru_errcause := e\<rparr>"]
  by (simp add: writes_def bufs_def)

lemma foldl_max_start: "m \<le> foldl (\<lambda>m k. let t = f k in if m < t then t else m) (m :: nat) ks"
proof (induction ks arbitrary: m)
  case (Cons a ks)
  show ?case using Cons.IH[of "let t = f a in if m < t then t else m"] by (auto simp: Let_def split: if_splits)
qed simp

lemma foldl_max_elem: "k \<in> set ks \<Longrightarrow> f k \<le> foldl (\<lambda>m k. let t = f k in if m < t then t else m) (m :: nat) ks"
proof (induction ks arbitrary: m)
  case (Cons a ks)
  have "f a \<le> foldl (\<lambda>m k. let t = f k in if m < t then t else m) (let t = f a in if m < t then t else m) ks"
    by (rule order_trans[OF _ foldl_max_start]) (simp add: Let_def)
  with Cons show ?case by auto
qed simp

lemma slot_max_lsn_ge: "k < lsn_groups_per_page s \<Longrightarrow> group_lsn s (i * lsn_groups_per_page s + k) \<le> slot_max_lsn i s"
proof (cases "k = 0")
  case True
  then show ?thesis unfolding slot_max_lsn_def using foldl_max_start by simp
next
  case False
  assume "k < lsn_groups_per_page s"
  with False show ?thesis unfolding slot_max_lsn_def by (intro foldl_max_elem) auto
qed

lemma flush_slot_effect:
  "writes p s (flush_slot_lsn i s)" "lsns_flushed (flush_slot_lsn i s) i"
proof -
  have d: "disk_page (flush_slot_lsn i s) = disk_page s"
    by (rule ext) (simp add: flush_slot_lsn_def XLogFlush_to_def disk_page_def segment_pages_def)
  then show "writes p s (flush_slot_lsn i s)"
    by (simp add: writes_def disk_grows_def disk_ok_def) (simp add: flush_slot_lsn_def XLogFlush_to_def bufs_def)
  show "lsns_flushed (flush_slot_lsn i s) i"
    using slot_max_lsn_ge[of _ s i]
    by (fastforce simp: lsns_flushed_def flush_slot_lsn_def XLogFlush_to_def le_max_iff_disj)
qed

lemma create_segment_effect:
  "writes p s (case segment_pages seg s of None \<Rightarrow> set_segment seg [] s | Some ps \<Rightarrow> s)"
proof (cases "segment_pages seg s")
  case None
  have "disk_page (set_segment seg [] s) = disk_page s"
    using None by (intro ext) (auto simp: segment_set disk_page_def)
  then show ?thesis using None
    by (simp add: writes_def disk_grows_def disk_ok_def) (simp add: set_segment_def bufs_def)
next
  case (Some ps)
  then show ?thesis by (simp add: writes_refl)
qed

lemma open_segment_cases:
  obtains m s' where "open_segment seg fdata s = Inl (ERROR m, s')" "writes p s s'" "flushed s' = flushed s"
  | opened keep fdata' s' where "open_segment seg fdata s = Inr ((opened, keep, fdata'), s')" "writes p s s'"
      "flushed s' = flushed s" "fdata' = None \<longleftrightarrow> fdata = None"
proof -
  let ?have = "case fdata of Some segs \<Rightarrow> seg \<in> set segs | None \<Rightarrow> False"
  obtain r s1 where io: "take_io s = (r, s1)" by fastforce
  have w1: "writes p s s1" by (rule writes_take_io[OF io])
  let ?s2 = "case segment_pages seg s1 of None \<Rightarrow> set_segment seg [] s1 | Some ps \<Rightarrow> s1"
  have f: "flushed s1 = flushed s" "flushed ?s2 = flushed s"
    using core_take_io[OF io] by (auto simp: core_def set_segment_def split: option.split)
  have w2: "writes p s ?s2" by (rule writes_trans[OF w1 create_segment_effect])
  consider "?have" | "\<not> ?have" "r = IoRaise" | "\<not> ?have" "r \<noteq> IoRaise" "r \<noteq> IoOk" | "\<not> ?have" "r = IoOk" by blast
  then show thesis
  proof cases
    case 1
    then have "open_segment seg fdata s = Inr ((True, True, fdata), s)" by (simp add: open_segment_def)
    from that(2)[OF this writes_refl] show ?thesis by simp
  next
    case 2
    then have "open_segment seg fdata s = Inl (ERROR ''exceeded maxAllocatedDescs'', s1)"
      using io by (simp add: open_segment_def)
    from that(1)[OF this w1 f(1)] show ?thesis .
  next
    case 3
    then have "open_segment seg fdata s = Inr ((False, False, fdata), s1\<lparr>slru_errcause := SLRU_OPEN_FAILED\<rparr>)"
      using io by (simp add: open_segment_def)
    from that(2)[OF this writes_err[OF w1]] show ?thesis using f(1) by simp
  next
    case 4
    then have "\<exists>keep fdata'. open_segment seg fdata s = Inr ((True, keep, fdata'), ?s2) \<and> (fdata' = None \<longleftrightarrow> fdata = None)"
      using io by (cases fdata) (auto simp: open_segment_def Let_def)
    then show ?thesis using that(2)[OF _ w2 f(2)] by blast
  qed
qed

lemma after_write_effect:
  "after_write ctl keep s = (ok, s') \<Longrightarrow> core s' = core s \<and> bufs s' = bufs s"
  by (auto simp: after_write_def Let_def split: if_splits prod.splits dest!: same_take_io)


lemma pwrite_effect:
  assumes "length pg = BLCKSZ" "seg = pageno div SLRU_PAGES_PER_SEGMENT" "r = pageno mod SLRU_PAGES_PER_SEGMENT"
  shows "writes pageno s (set_segment seg (pwrite_page pg r (segment_pages seg s)) s)"
    "disk_page (set_segment seg (pwrite_page pg r (segment_pages seg s)) s) pageno = Some pg"
    "writes pageno s (set_segment seg (pwrite_short k pg r (segment_pages seg s)) s)"
proof -
  let ?h = "with_hole r (segment_pages seg s)"
  have len: "r \<le> length ?h" by (rule with_hole_length(1))
  have "disk_grows pageno s (set_segment seg (pwrite_page pg r (segment_pages seg s)) s)"
    by (rule disk_grows_hole[OF _ _ _ assms(2,3)])
       (use len assms(1) in \<open>auto simp: pwrite_page_def Let_def nth_append not_less\<close>)
  then show "writes pageno s (set_segment seg (pwrite_page pg r (segment_pages seg s)) s)"
    by (simp add: writes_def) (simp add: set_segment_def bufs_def)
  show "disk_page (set_segment seg (pwrite_page pg r (segment_pages seg s)) s) pageno = Some pg"
    using len assms(2,3) by (auto simp: disk_set_segment pwrite_page_def Let_def nth_append not_less)
  have old: "length (?h ! r) = BLCKSZ" if "disk_ok s" "r < length ?h"
    using that with_hole_nth[OF that(2)] assms(2,3)
    by (auto simp: disk_ok_def disk_page_def split: option.splits if_splits dest: spec[of _ pageno])
  have "disk_grows pageno s (set_segment seg (pwrite_short k pg r (segment_pages seg s)) s)"
    by (rule disk_grows_hole[OF _ _ _ assms(2,3)])
       (use old assms(1) in \<open>auto simp: pwrite_short_def Let_def min_def split: if_splits\<close>)
  then show "writes pageno s (set_segment seg (pwrite_short k pg r (segment_pages seg s)) s)"
    by (simp add: writes_def) (simp add: set_segment_def bufs_def)
qed

end
