(* ===== verification/Slru_Select.thy ===== *)
theory Slru_Select
  imports Slru_Disk
begin

section \<open>The page cache: writing and choosing slots\<close>

text \<open>
  Waiting for failed I/O, writing a slot and choosing one keep the invariant and the contents of
  every page, on every branch and for every outcome of the system calls; the search for a
  slot ends, with the page itself or with a slot that can be reused.
\<close>

lemma SlruPhysicalWritePage_cases:
  assumes "length (page_buffer s i) = BLCKSZ"
  obtains m s' where "SlruPhysicalWritePage ctl pageno i fdata s = Inl (ERROR m, s')" "writes pageno s s'"
  | ok fdata' s' where "SlruPhysicalWritePage ctl pageno i fdata s = Inr ((ok, fdata'), s')" "writes pageno s s'"
      "ok \<Longrightarrow> disk_page s' pageno = Some (page_buffer s i) \<and> lsns_flushed s' i"
proof -
  let ?seg = "pageno div SLRU_PAGES_PER_SEGMENT" and ?r = "pageno mod SLRU_PAGES_PER_SEGMENT"
  define s0 where "s0 = flush_slot_lsn i s"
  have w0: "writes pageno s s0" "lsns_flushed s0 i" by (simp_all add: s0_def flush_slot_effect)
  show thesis
  proof (rule open_segment_cases[of ?seg fdata s0 pageno])
    fix m s' assume "open_segment ?seg fdata s0 = Inl (ERROR m, s')" "writes pageno s0 s'"
    then show thesis using that(1) writes_trans[OF w0(1)] by (simp add: SlruPhysicalWritePage_def s0_def)
  next
    fix opened keep fdata' s1
    assume o: "open_segment ?seg fdata s0 = Inr ((opened, keep, fdata'), s1)" "writes pageno s0 s1" "flushed s1 = flushed s0"
    have w1: "writes pageno s s1" by (rule writes_trans[OF w0(1) o(2)])
    obtain r s2 where io: "take_io s1 = (r, s2)" by fastforce
    have w2: "writes pageno s s2" by (rule writes_trans[OF w1 writes_take_io[OF io]])
    have pg: "page_buffer s2 i = page_buffer s i" using w2 bufsD(2)[of s2 s] by (simp add: writes_def)
    have fl: "lsns_flushed s2 i"
      using w0(2) o(2,3) core_take_io[OF io] bufsD(6,7)[of s1 s0] by (auto simp: lsns_flushed_def writes_def core_def)
    note e = pwrite_effect[of "page_buffer s i" ?seg pageno ?r s2, OF assms refl refl]
    show thesis
    proof (cases opened)
      case False
      then show thesis
        using that(2)[of False fdata' s1] o(1) w1 by (simp add: SlruPhysicalWritePage_def s0_def)
    next
      case True
      have unf: "SlruPhysicalWritePage ctl pageno i fdata s = (case r of
          IoOk \<Rightarrow> let (ok, s3) = after_write ctl keep (set_segment ?seg (pwrite_page (page_buffer s i) ?r (segment_pages ?seg s2)) s2)
                  in Inr ((ok, fdata'), s3)
        | IoShort k \<Rightarrow> Inr ((False, fdata'),
            (set_segment ?seg (pwrite_short k (page_buffer s i) ?r (segment_pages ?seg s2)) s2)\<lparr>slru_errcause := SLRU_WRITE_FAILED\<rparr>)
        | _ \<Rightarrow> Inr ((False, fdata'), s2\<lparr>slru_errcause := SLRU_WRITE_FAILED\<rparr>))"
        using True o(1) io by (simp add: SlruPhysicalWritePage_def s0_def[symmetric] pg Let_def cong: io.case_cong)
      show thesis
      proof (cases r)
        case IoOk
        let ?s3 = "set_segment ?seg (pwrite_page (page_buffer s i) ?r (segment_pages ?seg s2)) s2"
        obtain ok s4 where a: "after_write ctl keep ?s3 = (ok, s4)" by fastforce
        note same = after_write_effect[OF a]
        have w3: "writes pageno s ?s3" by (rule writes_trans[OF w2 e(1)])
        have "writes pageno ?s3 s4" using same disk_grows_core[of s4 ?s3] by (simp add: writes_def core_def)
        moreover have "disk_page s4 pageno = Some (page_buffer s i)" using e(2) core_ok(5)[of s4 ?s3] same by simp
        moreover have "lsns_flushed s4 i" using fl same by (simp add: lsns_flushed_def core_def set_segment_def)
        ultimately show thesis using that(2)[of ok fdata' s4] unf IoOk a writes_trans[OF w3] by simp
      next
        case (IoShort k)
        then show thesis using that(2)[OF unf[unfolded IoShort io.case]] writes_err[OF writes_trans[OF w2 e(3)]] by simp
      qed (use unf that(2)[of False fdata' "s2\<lparr>slru_errcause := SLRU_WRITE_FAILED\<rparr>"] writes_err[OF w2] in simp_all)
    qed
  qed
qed


subsection \<open>Work left\<close>

text \<open>How often a slot can still make a search start over: once to clear a failed I/O, once to write it.\<close>

definition slot_work :: "SlruShared \<Rightarrow> nat \<Rightarrow> nat" where
  "slot_work s i = (case page_status s i of
     SLRU_PAGE_EMPTY \<Rightarrow> 0 | SLRU_PAGE_READ_IN_PROGRESS \<Rightarrow> 1 | SLRU_PAGE_WRITE_IN_PROGRESS \<Rightarrow> 2
   | SLRU_PAGE_VALID \<Rightarrow> if page_dirty s i then 1 else 0)"

definition work :: "SlruShared \<Rightarrow> nat" where
  "work s = (\<Sum>i < num_slots s. slot_work s i)"

definition others_same :: "nat \<Rightarrow> SlruShared \<Rightarrow> SlruShared \<Rightarrow> bool" where
  "others_same i s s' \<longleftrightarrow> num_slots s' = num_slots s \<and> latest_page_number s' = latest_page_number s \<and>
     page_number s' i = page_number s i \<and> (\<forall>j. j \<noteq> i \<longrightarrow> page_status s' j = page_status s j \<and>
     page_dirty s' j = page_dirty s j \<and> page_number s' j = page_number s j \<and> page_buffer s' j = page_buffer s j)"

lemma work_le: "work s \<le> 2 * num_slots s"
proof -
  have "work s \<le> (\<Sum>i < num_slots s. 2)"
    unfolding work_def by (rule sum_mono) (auto simp: slot_work_def split: SlruPageStatus.split)
  then show ?thesis by simp
qed

lemma work_others:
  assumes "others_same i s s'" "i < num_slots s"
  shows "work s' + slot_work s i = work s + slot_work s' i"
proof -
  have same: "(\<Sum>j \<in> {..<num_slots s} - {i}. slot_work s' j) = (\<Sum>j \<in> {..<num_slots s} - {i}. slot_work s j)"
    using assms(1) by (intro sum.cong) (auto simp: slot_work_def others_same_def)
  have "work s = slot_work s i + (\<Sum>j \<in> {..<num_slots s} - {i}. slot_work s j)"
    unfolding work_def using assms(2) by (intro sum.remove) auto
  moreover have "work s' = slot_work s' i + (\<Sum>j \<in> {..<num_slots s} - {i}. slot_work s' j)"
    unfolding work_def using assms by (subst sum.remove[of _ i]) (auto simp: others_same_def)
  ultimately show ?thesis using same by simp
qed

subsection \<open>Waiting and writing\<close>

lemma slru_okD:
  assumes "slru_ok s"
  shows "unique_pages s" "disk_ok s" "i < num_slots s \<Longrightarrow> slot_ok s i" "2 \<le> num_slots s"
  using assms by (simp_all add: slru_ok_def)

text \<open>A step that changes the marks of one slot only.\<close>

lemma remark_slot:
  assumes "slru_ok s" "i < num_slots s" "others_same i s s'" "page_buffer s' i = page_buffer s i"
    "group_lsn s' = group_lsn s" "lsn_groups_per_page s' = lsn_groups_per_page s" "flushed s \<le> flushed s'"
    "disk_grows (page_number s i) s s'" "loaded s i" "loaded s' i" "slot_ok s' i"
  shows "slru_ok s' \<and> keeps_pages s s'"
proof -
  note ok = slru_okD[OF assms(1)]
  have n: "num_slots s' = num_slots s" using assms(3) by (simp add: others_same_def)
  have num: "page_number s' = page_number s" using assms(3) by (auto simp: others_same_def fun_eq_iff)
  have buf: "page_buffer s' = page_buffer s" using assms(3,4) by (auto simp: others_same_def fun_eq_iff)
  have ld: "loaded s' j = loaded s j" for j
    using assms(3,9,10) by (cases "j = i") (auto simp: others_same_def loaded_def)
  have ne: "page_status s' j \<noteq> SLRU_PAGE_EMPTY \<Longrightarrow> page_status s j \<noteq> SLRU_PAGE_EMPTY" for j
    using assms(3,9) by (cases "j = i") (auto simp: others_same_def loaded_def)
  have un: "unique_pages s'"
    using ok(1) ne unfolding unique_pages_def num n by blast
  have far: "page_number s j \<noteq> page_number s i" if "j < num_slots s" "loaded s j" "j \<noteq> i" for j
    using ok(1) that assms(2,9) by (auto simp: unique_pages_def loaded_def)
  have slot: "slot_ok s' j" if j: "j < num_slots s" "j \<noteq> i" for j
  proof -
    have sj: "page_status s' j = page_status s j" "page_dirty s' j = page_dirty s j"
      using assms(3) j(2) by (auto simp: others_same_def)
    have "disk_page s' (page_number s j) = disk_page s (page_number s j) \<or> disk_page s (page_number s j) = None" if "loaded s j"
      using far[OF j(1) that j(2)] assms(8) by (auto simp: disk_grows_def grown_def)
    moreover have "lsns_flushed s j \<Longrightarrow> lsns_flushed s' j"
      using assms(5-7) by (auto simp: lsns_flushed_def intro: order_trans)
    ultimately show ?thesis
      using ok(3)[OF j(1)] by (auto simp: slot_ok_def sj ld num buf loaded_def)
  qed
  have "disk_ok s'" using ok(2) assms(8) by (simp add: disk_grows_def)
  then have "slru_ok s'" using ok(4) un slot assms(11) n unfolding slru_ok_def by auto
  moreover have "keeps_pages s s'"
  proof (rule keeps_pagesI[OF ok(1) un n assms(6,7)])
    fix p assume "\<And>j. j < num_slots s \<Longrightarrow> loaded s j \<Longrightarrow> page_number s j \<noteq> p"
    then have "p \<noteq> page_number s i" using assms(2,9) by auto
    then show "grown (disk_page s p) (disk_page s' p)" using assms(8) by (simp add: disk_grows_def)
  qed (simp_all add: ld num buf)
  ultimately show ?thesis by blast
qed


lemma disk_same_grows: "disk_page s' = disk_page s \<Longrightarrow> disk_grows p s s'"
  by (simp add: disk_grows_def disk_ok_def)

lemma disk_page_marks [simp]:
  "disk_page (s\<lparr>page_status := a\<rparr>) = disk_page s" "disk_page (s\<lparr>page_dirty := b\<rparr>) = disk_page s"
  "disk_page (s\<lparr>page_number := c\<rparr>) = disk_page s" "disk_page (s\<lparr>page_buffer := d\<rparr>) = disk_page s"
  "disk_page (s\<lparr>group_lsn := e\<rparr>) = disk_page s" "disk_page (s\<lparr>page_lru_count := f\<rparr>) = disk_page s"
  "disk_page (s\<lparr>cur_lru_count := g\<rparr>) = disk_page s" "disk_page (s\<lparr>latest_page_number := h\<rparr>) = disk_page s"
  by (simp_all add: disk_page_def segment_pages_def fun_eq_iff)

text \<open>A slot given up: it was being read, or is clean.\<close>

lemma empty_slot:
  assumes "slru_ok s" "i < num_slots s"
    "page_status s i = SLRU_PAGE_READ_IN_PROGRESS \<or> page_status s i = SLRU_PAGE_VALID \<and> \<not> page_dirty s i"
  shows "slru_ok (s\<lparr>page_status := (page_status s)(i := SLRU_PAGE_EMPTY)\<rparr>) \<and>
    keeps_pages s (s\<lparr>page_status := (page_status s)(i := SLRU_PAGE_EMPTY)\<rparr>)" (is "slru_ok ?s \<and> _")
proof -
  note ok = slru_okD[OF assms(1)]
  have ld: "loaded ?s j \<longleftrightarrow> loaded s j \<and> j \<noteq> i" for j by (auto simp: loaded_def)
  have un: "unique_pages ?s" using ok(1) by (auto simp: unique_pages_def)
  have "\<not> page_dirty s i" using ok(3)[OF assms(2)] assms(3) by (auto simp: slot_ok_def loaded_def)
  then have "slot_ok ?s j" if "j < num_slots s" for j
    using ok(3)[OF that] by (auto simp: slot_ok_def ld lsns_flushed_def)
  then have "slru_ok ?s" using ok un by (simp add: slru_ok_def disk_ok_def)
  moreover have "keeps_pages s ?s"
  proof (rule keeps_pagesI[OF ok(1) un])
    fix j assume j: "j < num_slots s" "loaded s j"
    show "if loaded ?s j then page_number ?s j = page_number s j \<and> page_buffer ?s j = page_buffer s j
      else (\<forall>k < num_slots s. loaded ?s k \<longrightarrow> page_number ?s k \<noteq> page_number s j) \<and>
        disk_page ?s (page_number s j) = Some (page_buffer s j)"
    proof (cases "j = i")
      case True
      then have "page_status s i = SLRU_PAGE_VALID" "\<not> page_dirty s i" using j assms(3) by (auto simp: loaded_def)
      then show ?thesis
        using True ok(3)[OF assms(2)] ok(1) j by (auto simp: ld slot_ok_def unique_pages_def loaded_def)
    next
      case False
      then show ?thesis using j by (simp add: ld)
    qed
  qed (auto simp: ld)
  ultimately show ?thesis by blast
qed

lemma WaitIO_ok:
  assumes "slru_ok s" "i < num_slots s"
  shows "slru_ok (SimpleLruWaitIO i s) \<and> keeps_pages s (SimpleLruWaitIO i s)" "others_same i s (SimpleLruWaitIO i s)"
    "page_status s i = SLRU_PAGE_READ_IN_PROGRESS \<or> page_status s i = SLRU_PAGE_WRITE_IN_PROGRESS \<Longrightarrow>
      work (SimpleLruWaitIO i s) < work s"
proof -
  let ?s = "SimpleLruWaitIO i s"
  show o: "others_same i s ?s" by (simp add: SimpleLruWaitIO_def others_same_def)
  show "slru_ok ?s \<and> keeps_pages s ?s"
  proof (cases "page_status s i")
    case SLRU_PAGE_READ_IN_PROGRESS
    then show ?thesis using empty_slot[OF assms] by (simp add: SimpleLruWaitIO_def)
  next
    case SLRU_PAGE_WRITE_IN_PROGRESS
    then have eq: "?s = s\<lparr>page_status := (page_status s)(i := SLRU_PAGE_VALID), page_dirty := (page_dirty s)(i := True)\<rparr>"
      by (simp add: SimpleLruWaitIO_def)
    have "slot_ok ?s i" using slru_okD(3)[OF assms] SLRU_PAGE_WRITE_IN_PROGRESS by (simp add: eq slot_ok_def loaded_def)
    then show ?thesis
      using SLRU_PAGE_WRITE_IN_PROGRESS
      by (intro remark_slot[OF assms o]) (simp_all add: eq loaded_def disk_same_grows)
  qed (use assms(1) in \<open>simp_all add: SimpleLruWaitIO_def keeps_pages_refl\<close>)
  assume "page_status s i = SLRU_PAGE_READ_IN_PROGRESS \<or> page_status s i = SLRU_PAGE_WRITE_IN_PROGRESS"
  then have "slot_work ?s i < slot_work s i" by (auto simp: SimpleLruWaitIO_def slot_work_def)
  then show "work ?s < work s" using work_others[OF o assms(2)] by simp
qed

lemma wait_write_eq:
  "wait_write i (page_number s i) s =
     (if page_status s i = SLRU_PAGE_WRITE_IN_PROGRESS then SimpleLruWaitIO i s else s)"
  by (subst wait_write.simps) (auto simp: SimpleLruWaitIO_def wait_write.simps)

definition io_error :: "pg_error \<Rightarrow> bool" where
  "io_error e \<longleftrightarrow> (\<exists>m. e = ERROR m \<or> e = PANIC m)"

lemma io_error_report: "io_error (SlruReportIOError ctl s)"
  by (auto simp: io_error_def SlruReportIOError_def split: SlruErrorCause.split)

lemma SlruInternalWritePage_cases:
  assumes "slru_ok s" "i < num_slots s"
  obtains e s' where "SlruInternalWritePage ctl i fdata s = Inl (e, s')" "io_error e" "slru_ok s'" "keeps_pages s s'"
  | fdata' s' where "SlruInternalWritePage ctl i fdata s = Inr (fdata', s')" "slru_ok s'" "keeps_pages s s'"
      "others_same i s s'" "page_status s' i = (if page_status s i = SLRU_PAGE_WRITE_IN_PROGRESS then SLRU_PAGE_VALID else page_status s i)"
      "\<not> page_dirty s' i" "slot_work s i > 0 \<longrightarrow> loaded s i \<longrightarrow> work s' < work s"
proof -
  define s1 where "s1 = wait_write i (page_number s i) s"
  have s1: "slru_ok s1" "keeps_pages s s1" "others_same i s s1" "work s1 \<le> work s"
    "page_status s1 i = (if page_status s i = SLRU_PAGE_WRITE_IN_PROGRESS then SLRU_PAGE_VALID else page_status s i)"
    "page_status s i \<noteq> SLRU_PAGE_WRITE_IN_PROGRESS \<longrightarrow> s1 = s"
    using WaitIO_ok[OF assms] assms(1)
    by (auto simp: s1_def wait_write_eq keeps_pages_refl others_same_def SimpleLruWaitIO_def)
  have n: "num_slots s1 = num_slots s" "page_number s1 i = page_number s i" using s1(3) by (simp_all add: others_same_def)
  show thesis
  proof (cases "\<not> page_dirty s1 i \<or> page_status s1 i \<noteq> SLRU_PAGE_VALID")
    case True
    have nd: "\<not> page_dirty s1 i"
    proof
      assume d: "page_dirty s1 i"
      then have "loaded s1 i" using slru_okD(3)[OF s1(1), of i] assms(2) n by (simp add: slot_ok_def)
      then show False using True d s1(5) by (auto simp: loaded_def split: if_splits)
    qed
    have eq: "SlruInternalWritePage ctl i fdata s = Inr (fdata, s1)"
      using True n(2) unfolding SlruInternalWritePage_def s1_def[symmetric] Let_def by simp
    have "slot_work s i > 0 \<longrightarrow> loaded s i \<longrightarrow> work s1 < work s"
      using nd s1(5,6) by (auto simp: loaded_def slot_work_def s1_def wait_write_eq SimpleLruWaitIO_def split: if_splits)
    then show thesis by (rule that(2)[OF eq s1(1,2,3,5) nd])
  next
    case False
    let ?p = "page_number s i"
    define s2 where "s2 = s1\<lparr>page_status := (page_status s1)(i := SLRU_PAGE_WRITE_IN_PROGRESS),
                    page_dirty := (page_dirty s1)(i := False)\<rparr>"
    have v: "page_dirty s1 i" "page_status s1 i = SLRU_PAGE_VALID" "loaded s1 i" "loaded s i"
      using False s1(5) by (auto simp: loaded_def split: if_splits)
    have len: "length (page_buffer s1 i) = BLCKSZ" "length (page_buffer s2 i) = BLCKSZ"
      using slru_okD(3)[OF s1(1), of i] assms(2) n v by (simp_all add: slot_ok_def s2_def)
    have step: "slru_ok s' \<and> keeps_pages s s' \<and> others_same i s s'"
      if w: "writes ?p s2 s3" "others_same i s3 s'" "page_buffer s' = page_buffer s3" "group_lsn s' = group_lsn s3"
        "lsn_groups_per_page s' = lsn_groups_per_page s3" "flushed s' = flushed s3" "disk_page s' = disk_page s3"
        "loaded s' i" "page_status s' i = SLRU_PAGE_VALID \<and> \<not> page_dirty s' i \<Longrightarrow>
           disk_page s3 ?p = Some (page_buffer s2 i) \<and> lsns_flushed s3 i" for s3 s'
    proof -
      note b = bufsD[of s3 s2]
      have b3: "bufs s3 = bufs s2" "flushed s2 \<le> flushed s3" "disk_grows ?p s2 s3" using w(1) by (simp_all add: writes_def)
      have os: "others_same i s1 s'" using w(2) b[OF b3(1)] by (simp add: others_same_def s2_def)
      have "disk_grows (page_number s1 i) s1 s'" using b3(3) w(7) n(2) by (simp add: disk_grows_def s2_def disk_ok_def)
      moreover have "slot_ok s' i"
        using w(3-9) len b[OF b3(1)] os n(2) by (auto simp: slot_ok_def s2_def others_same_def lsns_flushed_def)
      ultimately have "slru_ok s' \<and> keeps_pages s1 s'"
        using os v(3) w(3-6,8) b[OF b3(1)] b3(2) assms(2) n(1)
        by (intro remark_slot[OF s1(1) _ os]) (simp_all add: s2_def)
      moreover have "others_same i s s'" using s1(3) os by (simp add: others_same_def)
      ultimately show ?thesis using keeps_pages_trans[OF s1(2)] by blast
    qed
    have unf: "SlruInternalWritePage ctl i fdata s = (case SlruPhysicalWritePage ctl ?p i fdata s2 of
           Inl e \<Rightarrow> Inl e
         | Inr ((ok, fdata'), s3) \<Rightarrow>
             if \<not> (page_number s3 i = ?p \<and> page_status s3 i = SLRU_PAGE_WRITE_IN_PROGRESS)
             then Inl (AssertFail ''slot is being written'', s3)
             else
               let s4 = s3\<lparr>page_dirty := (page_dirty s3)(i := (if ok then page_dirty s3 i else True)),
                           page_status := (page_status s3)(i := SLRU_PAGE_VALID)\<rparr> in
               if ok then Inr (fdata', s4) else Inl (SlruReportIOError ctl s4, s4))"
      using False n(2) unfolding SlruInternalWritePage_def s1_def[symmetric] s2_def Let_def by simp
    show thesis
    proof (rule SlruPhysicalWritePage_cases[OF len(2), of ctl ?p fdata])
      fix m s' assume r: "SlruPhysicalWritePage ctl ?p i fdata s2 = Inl (ERROR m, s')" "writes ?p s2 s'"
      have b: "bufs s' = bufs s2" using r(2) by (simp add: writes_def)
      have "slru_ok s' \<and> keeps_pages s s' \<and> others_same i s s'"
        by (rule step[OF r(2)]) (simp_all add: others_same_def bufsD[OF b] s2_def loaded_def)
      then show thesis using that(1)[of "ERROR m" s'] unf r(1) by (simp add: io_error_def)
    next
      fix ok fdata' s3
      assume r: "SlruPhysicalWritePage ctl ?p i fdata s2 = Inr ((ok, fdata'), s3)" "writes ?p s2 s3"
        "ok \<Longrightarrow> disk_page s3 ?p = Some (page_buffer s2 i) \<and> lsns_flushed s3 i"
      have b: "bufs s3 = bufs s2" using r(2) by (simp add: writes_def)
      define s4 where "s4 = s3\<lparr>page_dirty := (page_dirty s3)(i := \<not> ok), page_status := (page_status s3)(i := SLRU_PAGE_VALID)\<rparr>"
      have st: "page_number s3 i = ?p" "page_status s3 i = SLRU_PAGE_WRITE_IN_PROGRESS" "\<not> page_dirty s3 i"
        using n(2) by (simp_all add: bufsD[OF b] s2_def)
      have ok4: "slru_ok s4 \<and> keeps_pages s s4 \<and> others_same i s s4"
        by (rule step[OF r(2)]) (use r(3) in \<open>simp_all add: s4_def others_same_def loaded_def\<close>)
      have eq: "SlruInternalWritePage ctl i fdata s = (if ok then Inr (fdata', s4) else Inl (SlruReportIOError ctl s4, s4))"
        unfolding unf r(1) using st by (simp add: s4_def Let_def)
      show thesis
      proof (cases ok)
        case True
        have "slot_work s4 i = 0" using True by (simp add: s4_def slot_work_def)
        then have "slot_work s i > 0 \<longrightarrow> loaded s i \<longrightarrow> work s4 < work s" using work_others[of i s s4] ok4 assms(2) by simp
        then show thesis using that(2)[of fdata' s4] True eq ok4 v(4) by (auto simp: s4_def loaded_def)
      next
        case False
        then show thesis using that(1)[of "SlruReportIOError ctl s4" s4] eq ok4 io_error_report by simp
      qed
    qed
  qed
qed


subsection \<open>Choosing a slot\<close>

text \<open>The age of a slot as the scan computes it, and what is known of the candidates it keeps.\<close>

definition age :: "32 word \<Rightarrow> SlruShared \<Rightarrow> nat \<Rightarrow> int" where
  "age cur_count s i = max 0 (sint (cur_count - page_lru_count s i))"

definition busy :: "SlruShared \<Rightarrow> nat \<Rightarrow> bool" where
  "busy s i \<longleftrightarrow> page_status s i = SLRU_PAGE_READ_IN_PROGRESS \<or> page_status s i = SLRU_PAGE_WRITE_IN_PROGRESS"

definition victims_ok :: "32 word \<Rightarrow> SlruShared \<Rightarrow> victims \<Rightarrow> bool" where
  "victims_ok cur_count s v \<longleftrightarrow> bestinvalidslot v < num_slots s \<and> (0 \<le> best_invalid_delta v \<longrightarrow> busy s (bestinvalidslot v)) \<and>
     (0 \<le> best_valid_delta v \<longrightarrow> bestvalidslot v < num_slots s \<and> page_status s (bestvalidslot v) = SLRU_PAGE_VALID \<and>
        page_number s (bestvalidslot v) \<noteq> latest_page_number s \<and> best_valid_delta v = age cur_count s (bestvalidslot v))"

definition evictable :: "SlruShared \<Rightarrow> nat \<Rightarrow> bool" where
  "evictable s i \<longleftrightarrow> page_status s i = SLRU_PAGE_VALID \<and> page_number s i \<noteq> latest_page_number s"

definition covered :: "32 word \<Rightarrow> SlruShared \<Rightarrow> nat set \<Rightarrow> victims \<Rightarrow> bool" where
  "covered cur_count s A v \<longleftrightarrow> (\<forall>i \<in> A. page_status s i \<noteq> SLRU_PAGE_EMPTY \<and>
     (evictable s i \<longrightarrow> age cur_count s i \<le> best_valid_delta v) \<and>
     (busy s i \<and> page_number s i \<noteq> latest_page_number s \<longrightarrow> 0 \<le> best_invalid_delta v))"

lemma consider_slot_ok:
  assumes "victims_ok c s v" "covered c s A v" "i < num_slots s" "page_status s i \<noteq> SLRU_PAGE_EMPTY"
  shows "victims_ok c s (consider_slot ctl i (age c s i) s v)" "covered c s (insert i A) (consider_slot ctl i (age c s i) s v)"
proof -
  have nn: "0 \<le> age c s i" by (simp add: age_def)
  have st: "busy s i \<longleftrightarrow> page_status s i \<noteq> SLRU_PAGE_VALID" using assms(4) by (cases "page_status s i") (simp_all add: busy_def)
  show "victims_ok c s (consider_slot ctl i (age c s i) s v)"
    using assms(1,3) st by (auto simp: victims_ok_def consider_slot_def Let_def)
  show "covered c s (insert i A) (consider_slot ctl i (age c s i) s v)"
    using assms(2,4) st nn unfolding covered_def consider_slot_def Let_def evictable_def
    by (cases "page_number s i = latest_page_number s"; cases "page_status s i = SLRU_PAGE_VALID") (fastforce)+
qed

lemma victims_same:
  assumes "bufs s' = bufs s" "age c s' = age c s"
  shows "victims_ok c s' v = victims_ok c s v" "covered c s' A v = covered c s A v"
  using bufsD[OF assms(1)] assms(2) by (simp_all add: victims_ok_def covered_def busy_def evictable_def)

lemma scan_slots_ok:
  assumes "scan_slots ctl c slots v s = (r, s')" "victims_ok c s v" "covered c s A v" "set slots \<subseteq> {..<num_slots s}"
  shows "core s' = core s \<and> bufs s' = bufs s \<and> age c s' = age c s \<and>
    (case r of Inl i \<Rightarrow> i \<in> set slots \<and> page_status s i = SLRU_PAGE_EMPTY
     | Inr v' \<Rightarrow> victims_ok c s v' \<and> covered c s (A \<union> set slots) v')"
  using assms
proof (induction slots arbitrary: v s A)
  case (Cons i slots)
  show ?case
  proof (cases "page_status s i = SLRU_PAGE_EMPTY")
    case True
    then show ?thesis using Cons.prems(1) by auto
  next
    case False
    define d where "d = sint (c - page_lru_count s i)"
    define s1 where "s1 = (if d < 0 then s\<lparr>page_lru_count := (page_lru_count s)(i := c)\<rparr> else s)"
    have same: "core s1 = core s" "bufs s1 = bufs s" by (simp_all add: s1_def core_def bufs_def)
    have ag: "age c s1 = age c s" by (auto simp: age_def s1_def d_def fun_eq_iff)
    have eq: "age c s i = (if d < 0 then 0 else d)" by (simp add: age_def d_def)
    have cs: "consider_slot ctl i k s1 v = consider_slot ctl i k s v" for k by (simp add: consider_slot_def s1_def Let_def)
    let ?v = "consider_slot ctl i (age c s i) s v"
    have "scan_slots ctl c slots ?v s1 = (r, s')"
      using Cons.prems(1) False cs[of 0] eq by (simp add: s1_def d_def Let_def split: if_splits)
    moreover have ok: "victims_ok c s ?v" "covered c s (insert i A) ?v"
      using consider_slot_ok[OF Cons.prems(2,3) _ False] Cons.prems(4) by simp_all
    moreover note vs = victims_same[OF same(2) ag]
    moreover    moreover have "set slots \<subseteq> {..<num_slots s1}" using Cons.prems(4) bufsD(1)[OF same(2)] by simp
    ultimately have "core s' = core s1 \<and> bufs s' = bufs s1 \<and> age c s' = age c s1 \<and>
      (case r of Inl i \<Rightarrow> i \<in> set slots \<and> page_status s1 i = SLRU_PAGE_EMPTY
       | Inr v' \<Rightarrow> victims_ok c s1 v' \<and> covered c s1 (insert i A \<union> set slots) v')"
      by (intro Cons.IH) simp_all
    then show ?thesis using same ag vs bufsD(3)[OF same(2)] by (simp split: sum.splits)
  qed
qed auto

lemma slot_of_Some: "slot_of p s = Some i \<Longrightarrow> i < num_slots s \<and> page_number s i = p \<and> page_status s i \<noteq> SLRU_PAGE_EMPTY"
  by (auto simp: slot_of_def find_Some_iff)

lemma slot_of_None: "slot_of p s = None \<longleftrightarrow> (\<forall>i < num_slots s. page_number s i = p \<longrightarrow> page_status s i = SLRU_PAGE_EMPTY)"
  by (auto simp: slot_of_def find_None_iff)

text \<open>A cache of at least two slots always has a page to give up or an I/O to wait for.\<close>

lemma some_candidate:
  assumes "slru_ok s" "victims_ok c s v" "covered c s {..<num_slots s} v" "best_valid_delta v < 0"
  shows "busy s (bestinvalidslot v)" "bestinvalidslot v < num_slots s"
proof -
  have ne: "\<And>i. i < num_slots s \<Longrightarrow> page_status s i \<noteq> SLRU_PAGE_EMPTY" using assms(3) by (simp add: covered_def)
  have "0 < num_slots s" "1 < num_slots s" using slru_okD(4)[OF assms(1)] by simp_all
  then have "page_number s 0 \<noteq> page_number s 1"
    using slru_okD(1)[OF assms(1)] ne[of 0] ne[of 1] unfolding unique_pages_def by (metis zero_neq_one)
  then obtain i where i: "i < num_slots s" "page_number s i \<noteq> latest_page_number s"
    using \<open>0 < num_slots s\<close> \<open>1 < num_slots s\<close> by metis
  have "\<not> evictable s i"
    using assms(3,4) i(1) unfolding covered_def age_def by (metis lessThan_iff linorder_not_le max.cobounded1 order_trans)
  then have "busy s i" using ne[OF i(1)] i(2) by (cases "page_status s i") (auto simp: evictable_def busy_def)
  then show "busy s (bestinvalidslot v)" "bestinvalidslot v < num_slots s"
    using assms(2,3) i by (auto simp: covered_def victims_ok_def)
qed


lemma scan_cases:
  assumes "slru_ok s"
  obtains (empty) i s2 where "scan_slots ctl c [0..<num_slots s] no_victims (s\<lparr>cur_lru_count := k\<rparr>) = (Inl i, s2)"
      "core s2 = core s" "bufs s2 = bufs s" "i < num_slots s2" "page_status s2 i = SLRU_PAGE_EMPTY"
  | (wait) v s2 where "scan_slots ctl c [0..<num_slots s] no_victims (s\<lparr>cur_lru_count := k\<rparr>) = (Inr v, s2)"
      "core s2 = core s" "bufs s2 = bufs s" "best_valid_delta v < 0" "bestinvalidslot v < num_slots s2" "busy s2 (bestinvalidslot v)"
  | (victim) v s2 where "scan_slots ctl c [0..<num_slots s] no_victims (s\<lparr>cur_lru_count := k\<rparr>) = (Inr v, s2)"
      "core s2 = core s" "bufs s2 = bufs s" "\<not> best_valid_delta v < 0" "bestvalidslot v < num_slots s2" "evictable s2 (bestvalidslot v)"
      "\<And>j. j < num_slots s2 \<Longrightarrow> evictable s2 j \<Longrightarrow> age c s2 j \<le> age c s2 (bestvalidslot v)"
proof -
  let ?s1 = "s\<lparr>cur_lru_count := k\<rparr>"
  obtain r s2 where sc: "scan_slots ctl c [0..<num_slots s] no_victims ?s1 = (r, s2)" by fastforce
  have c1: "core ?s1 = core s" "bufs ?s1 = bufs s" by (simp_all add: core_def bufs_def)
  have "victims_ok c ?s1 no_victims" "covered c ?s1 {} no_victims"
    using slru_okD(4)[OF assms] by (simp_all add: victims_ok_def no_victims_def covered_def)
  from scan_slots_ok[OF sc this] have scan: "core s2 = core s" "bufs s2 = bufs ?s1" "bufs s2 = bufs s" "age c s2 = age c ?s1"
    "case r of Inl i \<Rightarrow> i < num_slots s \<and> page_status ?s1 i = SLRU_PAGE_EMPTY
     | Inr v' \<Rightarrow> victims_ok c ?s1 v' \<and> covered c ?s1 {..<num_slots s} v'"
    using c1 by (auto simp: atLeast0LessThan split: sum.splits)
  note b = bufsD[OF scan(3)]
  show thesis
  proof (cases r)
    case (Inl i)
    then show thesis using empty[OF sc[unfolded Inl] scan(1,3)] scan(5) by (simp add: b)
  next
    case (Inr v)
    have v: "victims_ok c s2 v" "covered c s2 {..<num_slots s2} v"
      using scan(5) victims_same[OF scan(2,4)] Inr by (simp_all add: b)
    have ok2: "slru_ok s2" using core_ok(1)[OF scan(1)] assms by simp
    show thesis
    proof (cases "best_valid_delta v < 0")
      case True
      from some_candidate[OF ok2 v True] show thesis using wait[OF sc[unfolded Inr] scan(1,3) True] by simp
    next
      case False
      then show thesis
        using v victim[OF sc[unfolded Inr] scan(1,3) False] by (simp add: victims_ok_def covered_def evictable_def)
    qed
  qed
qed

text \<open>What \<^verbatim>\<open>SlruSelectLRUPage\<close> promises: the page itself, or a slot that can be reused.\<close>

definition reusable :: "nat \<Rightarrow> nat \<Rightarrow> SlruShared \<Rightarrow> bool" where
  "reusable pageno i s \<longleftrightarrow> i < num_slots s \<and> slot_of pageno s = None \<and>
     (page_status s i = SLRU_PAGE_EMPTY \<or> page_status s i = SLRU_PAGE_VALID \<and> \<not> page_dirty s i)"

definition selected :: "nat \<Rightarrow> SlruShared \<Rightarrow> nat \<Rightarrow> SlruShared \<Rightarrow> bool" where
  "selected pageno s i s' \<longleftrightarrow> (if slot_of pageno s = None then reusable pageno i s' else slot_of pageno s = Some i \<and> s' = s)"

definition outcome_ok :: "SlruShared \<Rightarrow> ('a \<Rightarrow> SlruShared \<Rightarrow> bool) \<Rightarrow> (SlruShared, 'a) vres \<Rightarrow> bool" where
  "outcome_ok s Q r \<longleftrightarrow> (case r of Inl (e, s') \<Rightarrow> io_error e \<and> slru_ok s' \<and> keeps_pages s s' | Inr (x, s') \<Rightarrow> slru_ok s' \<and> Q x s')"

lemma outcome_trans:
  assumes "outcome_ok s' (\<lambda>x t. keeps_pages s' t \<and> Q x t) r" "keeps_pages s s'"
  shows "outcome_ok s (\<lambda>x t. keeps_pages s t \<and> Q x t) r"
  using assms by (auto simp: outcome_ok_def intro: keeps_pages_trans split: sum.splits)

lemma slot_of_others:
  assumes "others_same i s s'" "page_status s i = SLRU_PAGE_EMPTY \<longrightarrow> page_status s' i = SLRU_PAGE_EMPTY" "slot_of p s = None"
  shows "slot_of p s' = None"
  unfolding slot_of_None
proof (intro allI impI)
  fix j assume "j < num_slots s'" "page_number s' j = p"
  then show "page_status s' j = SLRU_PAGE_EMPTY"
    using assms by (cases "j = i") (auto simp: others_same_def slot_of_None)
qed

lemma select_loop_ok:
  "slru_ok s \<Longrightarrow> work s < n \<Longrightarrow> outcome_ok s (\<lambda>i s'. keeps_pages s s' \<and> selected pageno s i s') (select_loop n ctl pageno s)"
proof (induction n arbitrary: s)
  case (Suc n)
  show ?case
  proof (cases "slot_of pageno s")
    case (Some i)
    then show ?thesis using Suc.prems(1) by (simp add: outcome_ok_def selected_def keeps_pages_refl)
  next
    case None
    let ?out = "outcome_ok s (\<lambda>i s'. keeps_pages s s' \<and> selected pageno s i s')"
    define k where "k = cur_lru_count s + 1"
    have facts: "slru_ok s2" "keeps_pages s s2" "slot_of pageno s2 = None" "work s2 = work s"
      if c: "core s2 = core s" "bufs s2 = bufs s" for s2
      using core_ok[OF c(1)] Suc.prems(1) None bufsD[OF c(2)]
      by (simp_all add: slot_of_None work_def slot_work_def cong: SlruPageStatus.case_cong)
    have again: "?out (select_loop n ctl pageno s3)"
      if "slru_ok s3" "keeps_pages s s3" "work s3 < work s" "slot_of pageno s3 = None" for s3
      using outcome_trans[OF Suc.IH[OF that(1)] that(2)] that(3,4) Suc.prems(2) None by (simp add: selected_def)
    from Suc.prems(1) show ?thesis
    proof (cases rule: scan_cases[where ctl = ctl and c = "cur_lru_count s" and k = k])
      case (empty i s2)
      then show ?thesis using facts[OF empty(2,3)] None by (simp add: k_def outcome_ok_def selected_def reusable_def)
    next
      case (wait v s2)
      note f = facts[OF wait(2,3)] and w = WaitIO_ok[OF facts(1)[OF wait(2,3)] wait(5)]
      have "slot_of pageno (SimpleLruWaitIO (bestinvalidslot v) s2) = None"
        by (rule slot_of_others[OF w(2) _ f(3)]) (simp add: SimpleLruWaitIO_def)
      then have "?out (select_loop n ctl pageno (SimpleLruWaitIO (bestinvalidslot v) s2))"
        using w wait(6) f keeps_pages_trans[OF f(2)] by (intro again) (auto simp: busy_def)
      then show ?thesis using None wait(1,4) by (simp add: k_def)
    next
      case (victim v s2)
      note f = facts[OF victim(2,3)]
      show ?thesis
      proof (cases "page_dirty s2 (bestvalidslot v)")
        case False
        then show ?thesis
          using victim f None by (simp add: k_def outcome_ok_def selected_def reusable_def evictable_def)
      next
        case True
        from f(1) victim(5) show ?thesis
        proof (cases rule: SlruInternalWritePage_cases[where ctl = ctl and fdata = None])
          case (1 e s')
          then show ?thesis
            using victim(1,4) None True keeps_pages_trans[OF f(2)] by (simp add: k_def outcome_ok_def)
        next
          case (2 fdata' s')
          have "slot_of pageno s' = None" by (rule slot_of_others[OF 2(4) _ f(3)]) (simp add: 2(5))
          then have "?out (select_loop n ctl pageno s')"
            using 2 victim(6) f True keeps_pages_trans[OF f(2)]
            by (intro again) (auto simp: slot_work_def loaded_def evictable_def)
          then show ?thesis using 2(1) victim(1,4) None True by (simp add: k_def)
        qed
      qed
    qed
  qed
qed simp

lemma SlruSelectLRUPage_ok:
  "slru_ok s \<Longrightarrow> outcome_ok s (\<lambda>i s'. keeps_pages s s' \<and> selected pageno s i s') (SlruSelectLRUPage ctl pageno s)"
  unfolding SlruSelectLRUPage_def by (rule select_loop_ok) (use work_le[of s] in simp_all)

end
