(* ===== verification/Slru_Inv.thy ===== *)
theory Slru_Inv
  imports Slru_Select
begin

section \<open>The page cache: every routine keeps the pages\<close>

text \<open>
  Each routine of \<^verbatim>\<open>slru.c\<close>, on every branch and every outcome of its system calls, keeps the
  invariant and the contents of all pages it is not asked to change.
\<close>

subsection \<open>Installing a page in a slot\<close>

definition installs :: "nat \<Rightarrow> nat \<Rightarrow> SlruShared \<Rightarrow> SlruShared \<Rightarrow> bool" where
  "installs pageno i s s' \<longleftrightarrow> num_slots s' = num_slots s \<and> lsn_groups_per_page s' = lsn_groups_per_page s \<and>
     flushed s' = flushed s \<and> disk_page s' = disk_page s \<and> page_number s' i = pageno \<and>
     page_status s' i \<noteq> SLRU_PAGE_EMPTY \<and> slot_ok s' i \<and> (\<forall>j. j \<noteq> i \<longrightarrow> page_status s' j = page_status s j \<and>
       page_dirty s' j = page_dirty s j \<and> page_number s' j = page_number s j \<and> page_buffer s' j = page_buffer s j \<and>
       (lsns_flushed s j \<longrightarrow> lsns_flushed s' j))"

lemma installs_ok:
  assumes "slru_ok s" "selected pageno s0 i s" "i < num_slots s" "installs pageno i s s'"
  shows "slru_ok s' \<and> (\<forall>p. p \<noteq> pageno \<longrightarrow> page_of s' p = page_of s p)"
proof -
  note ok = slru_okD[OF assms(1)] and inst = assms(4)[unfolded installs_def]
  have far: "page_number s j \<noteq> pageno" if "j < num_slots s" "j \<noteq> i" "page_status s j \<noteq> SLRU_PAGE_EMPTY" for j
  proof (cases "slot_of pageno s")
    case None
    then show ?thesis using that by (auto simp: slot_of_None)
  next
    case (Some k)
    then have "k = i" using assms(2) by (auto simp: selected_def reusable_def split: if_splits)
    then show ?thesis using slot_of_Some[OF Some] ok(1) that unfolding unique_pages_def by blast
  qed
  have ld: "loaded s' j = loaded s j" if "j \<noteq> i" for j using inst that by (simp add: loaded_def)
  have un: "unique_pages s'"
    unfolding unique_pages_def
  proof (intro allI impI)
    fix j k assume jk: "j < num_slots s'" "k < num_slots s'" "page_status s' j \<noteq> SLRU_PAGE_EMPTY"
      "page_status s' k \<noteq> SLRU_PAGE_EMPTY" "page_number s' j = page_number s' k"
    show "j = k"
    proof (cases "j = i \<or> k = i")
      case True
      then show ?thesis using jk inst far[of j] far[of k] by metis
    next
      case False
      then show ?thesis using jk inst ok(1) unfolding unique_pages_def by simp
    qed
  qed
  have "slot_ok s' j" if "j < num_slots s" for j
    using ok(3)[OF that] inst ld by (cases "j = i") (auto simp: slot_ok_def)
  then have "slru_ok s'" using ok un inst by (simp add: slru_ok_def disk_ok_def)
  moreover have "page_of s' p = page_of s p" if p: "p \<noteq> pageno" for p
  proof (cases "\<exists>j < num_slots s. j \<noteq> i \<and> loaded s j \<and> page_number s j = p")
    case True
    then obtain j where j: "j < num_slots s" "j \<noteq> i" "loaded s j" "page_number s j = p" by blast
    then show ?thesis
      using page_kept_slot[OF ok(1) un _ j(1,3)] ld[OF j(2)] inst by auto
  next
    case False
    have old: "page_of s p = disk_page s p"
    proof (cases "loaded s i \<and> page_number s i = p")
      case True
      then have "page_status s i = SLRU_PAGE_VALID" "\<not> page_dirty s i"
        using assms(2) p slot_of_Some[of pageno s0 i] by (auto simp: selected_def reusable_def loaded_def split: if_splits)
      then show ?thesis
        using ok(3)[OF assms(3)] page_of_slot[OF ok(1) assms(3)] True by (auto simp: slot_ok_def)
    next
      case no: False
      then show ?thesis using False by (intro page_of_disk) auto
    qed
    have "page_of s' p = disk_page s' p" using False p inst ld by (intro page_of_disk) (metis)
    then show ?thesis using old inst by simp
  qed
  ultimately show ?thesis by blast
qed


lemma selected_slot: "selected pageno s i s' \<Longrightarrow> i < num_slots s'"
  using slot_of_Some[of pageno s i] by (auto simp: selected_def reusable_def split: if_splits)

lemma zero_lsns:
  "lsns_flushed (SimpleLruZeroLSNs i s) i" "i \<noteq> j \<Longrightarrow> lsns_flushed s j \<Longrightarrow> lsns_flushed (SimpleLruZeroLSNs i s) j"
  "disk_page (SimpleLruZeroLSNs i s) = disk_page s"
  by (auto simp: lsns_flushed_def SimpleLruZeroLSNs_def)

lemma zero_lsns_same [simp]:
  "num_slots (SimpleLruZeroLSNs i s) = num_slots s" "page_buffer (SimpleLruZeroLSNs i s) = page_buffer s"
  "page_status (SimpleLruZeroLSNs i s) = page_status s" "page_dirty (SimpleLruZeroLSNs i s) = page_dirty s"
  "page_number (SimpleLruZeroLSNs i s) = page_number s" "flushed (SimpleLruZeroLSNs i s) = flushed s"
  "lsn_groups_per_page (SimpleLruZeroLSNs i s) = lsn_groups_per_page s" "files (SimpleLruZeroLSNs i s) = files s"
  "latest_page_number (SimpleLruZeroLSNs i s) = latest_page_number s"
  by (simp_all add: SimpleLruZeroLSNs_def)

subsection \<open>Zeroing a page\<close>

definition zeroed :: "nat \<Rightarrow> SlruShared \<Rightarrow> nat \<Rightarrow> SlruShared \<Rightarrow> bool" where
  "zeroed pageno s i s' \<longleftrightarrow> i < num_slots s' \<and> num_slots s' = num_slots s \<and> lsn_groups_per_page s' = lsn_groups_per_page s \<and>
     flushed s \<le> flushed s' \<and> page_number s' i = pageno \<and> page_status s' i = SLRU_PAGE_VALID \<and> page_dirty s' i \<and>
     latest_page_number s' = pageno \<and> page_of s' pageno = Some zero_page \<and>
     (\<forall>p. p \<noteq> pageno \<longrightarrow> grown (page_of s p) (page_of s' p))"

lemma SimpleLruZeroPage_ok:
  assumes "slru_ok s"
  shows "outcome_ok s (zeroed pageno s) (SimpleLruZeroPage ctl pageno s)"
proof (cases "SlruSelectLRUPage ctl pageno s")
  case (Inl es)
  then show ?thesis using SlruSelectLRUPage_ok[OF assms, of pageno ctl]
    by (cases es) (simp add: SimpleLruZeroPage_def outcome_ok_def)
next
  case (Inr r0)
  obtain i s1 where eq: "r0 = (i, s1)" by fastforce
  have s1: "slru_ok s1" "keeps_pages s s1" "selected pageno s i s1"
    using SlruSelectLRUPage_ok[OF assms, of pageno ctl] Inr eq by (simp_all add: outcome_ok_def)
  note i = selected_slot[OF s1(3)]
  define s2 where "s2 = SlruRecentlyUsed i (s1\<lparr>page_number := (page_number s1)(i := pageno),
      page_status := (page_status s1)(i := SLRU_PAGE_VALID), page_dirty := (page_dirty s1)(i := True)\<rparr>)"
  define s3 where "s3 = (SimpleLruZeroLSNs i (s2\<lparr>page_buffer := (page_buffer s2)(i := zero_page)\<rparr>))\<lparr>latest_page_number := pageno\<rparr>"
  have "page_status s1 i = SLRU_PAGE_EMPTY \<or> page_status s1 i = SLRU_PAGE_VALID \<and> \<not> page_dirty s1 i \<or> page_number s1 i = pageno"
    using s1(3) slot_of_Some[of pageno s i] by (auto simp: selected_def reusable_def split: if_splits)
  then have r: "SimpleLruZeroPage ctl pageno s = Inr (i, s3)"
    using Inr eq by (simp add: SimpleLruZeroPage_def s2_def s3_def Let_def)
  have c2: "core s2 = core (s1\<lparr>page_number := (page_number s1)(i := pageno),
      page_status := (page_status s1)(i := SLRU_PAGE_VALID), page_dirty := (page_dirty s1)(i := True)\<rparr>)" by (simp add: s2_def)
  have f: "num_slots s3 = num_slots s1" "lsn_groups_per_page s3 = lsn_groups_per_page s1" "flushed s3 = flushed s1"
    "page_number s3 = (page_number s1)(i := pageno)" "page_status s3 = (page_status s1)(i := SLRU_PAGE_VALID)"
    "page_dirty s3 = (page_dirty s1)(i := True)" "page_buffer s3 = (page_buffer s1)(i := zero_page)"
    "latest_page_number s3 = pageno"
    using c2 by (simp_all add: s3_def core_def)
  have d: "disk_page s3 = disk_page s1" using core_ok(5)[OF c2] by (simp add: s3_def zero_lsns(3))
  have l: "lsns_flushed s1 j \<Longrightarrow> lsns_flushed s3 j" if "j \<noteq> i" for j
    using zero_lsns(2)[of i j "s2\<lparr>page_buffer := (page_buffer s2)(i := zero_page)\<rparr>"] that c2
    by (simp add: s3_def lsns_flushed_def core_def)
  have "installs pageno i s1 s3" by (simp add: installs_def f d l slot_ok_def loaded_def)
  note ok3 = installs_ok[OF s1(1,3) i this]
  have "page_of s3 (page_number s3 i) = Some (page_buffer s3 i)"
    by (rule page_of_slot) (use ok3 i in \<open>simp_all add: slru_ok_def f loaded_def\<close>)
  then have "zeroed pageno s i s3"
    using s1(2) ok3 i by (simp add: zeroed_def f keeps_pages_def)
  then show ?thesis using r ok3 by (simp add: outcome_ok_def)
qed


subsection \<open>Reading a page\<close>

lemma SlruPhysicalReadPage_cases:
  assumes "\<not> InRecovery ctl"
  obtains m s' where "SlruPhysicalReadPage ctl pageno i s = Inl (ERROR m, s')" "core s' = core s" "bufs s' = bufs s"
  | s' x where "SlruPhysicalReadPage ctl pageno i s = Inr (False, s')"
      "core s' = core (s\<lparr>page_buffer := (page_buffer s)(i := x)\<rparr>)" "bufs s' = bufs (s\<lparr>page_buffer := (page_buffer s)(i := x)\<rparr>)"
  | s' x where "SlruPhysicalReadPage ctl pageno i s = Inr (True, s')" "disk_page s pageno = Some x"
      "core s' = core (s\<lparr>page_buffer := (page_buffer s)(i := x)\<rparr>)" "bufs s' = bufs (s\<lparr>page_buffer := (page_buffer s)(i := x)\<rparr>)"
proof -
  let ?seg = "pageno div SLRU_PAGES_PER_SEGMENT" and ?r = "pageno mod SLRU_PAGES_PER_SEGMENT"
  obtain r1 s1 where io1: "take_io s = (r1, s1)" by fastforce
  obtain r2 s2 where io2: "take_io s1 = (r2, s2)" by fastforce
  let ?set = "\<lambda>pages. s2\<lparr>page_buffer := (page_buffer s2)(i := pages ! ?r)\<rparr>"
  note same1 = same_take_io[OF io1] and same2 = same_take_io[OF io2]
  have self: "core (s\<lparr>page_buffer := (page_buffer s)(i := page_buffer s i)\<rparr>) = core s"
    "bufs (s\<lparr>page_buffer := (page_buffer s)(i := page_buffer s i)\<rparr>) = bufs s" by (simp_all add: core_def bufs_def)
  have seg: "segment_pages ?seg s1 = segment_pages ?seg s" using same1 by (simp add: segment_pages_def core_def)
  consider (raise) "r1 = IoRaise" | (nofile) "r1 \<noteq> IoRaise" "r1 \<noteq> IoOk \<or> segment_pages ?seg s = None"
    | (short) pages where "r1 = IoOk" "segment_pages ?seg s = Some pages" "r2 \<noteq> IoOk \<or> length pages \<le> ?r"
    | (full) pages where "r1 = IoOk" "segment_pages ?seg s = Some pages" "r2 = IoOk" "?r < length pages"
    by (cases "segment_pages ?seg s"; cases "r1 = IoRaise"; cases "r1 = IoOk") (auto simp: not_less[symmetric])
  then show thesis
  proof cases
    case raise
    then show thesis using that(1)[of _ s1] io1 same1 by (simp add: SlruPhysicalReadPage_def)
  next
    case nofile
    then have "SlruPhysicalReadPage ctl pageno i s = Inr (False, s1\<lparr>slru_errcause := SLRU_OPEN_FAILED\<rparr>)"
      using io1 assms seg by (auto simp: SlruPhysicalReadPage_def Let_def)
    from that(2)[OF this, of "page_buffer s i"] show thesis using same1 self by simp
  next
    case (short pages)
    then have "SlruPhysicalReadPage ctl pageno i s = Inr (False, s2\<lparr>slru_errcause := SLRU_READ_FAILED\<rparr>)"
      using io1 io2 seg by (auto simp: SlruPhysicalReadPage_def)
    from that(2)[OF this, of "page_buffer s i"] show thesis using same1 same2 self by simp
  next
    case (full pages)
    obtain r3 s4 where io3: "take_io (?set pages) = (r3, s4)" by fastforce
    have d: "disk_page s pageno = Some (pages ! ?r)" using full by (simp add: disk_page_def)
    have c: "core s4 = core (s\<lparr>page_buffer := (page_buffer s)(i := pages ! ?r)\<rparr>)"
      "bufs s4 = bufs (s\<lparr>page_buffer := (page_buffer s)(i := pages ! ?r)\<rparr>)"
      using same_take_io[OF io3] same1 same2 by (simp_all add: core_def bufs_def)
    show thesis
    proof (cases "r3 = IoOk")
      case True
      then have "SlruPhysicalReadPage ctl pageno i s = Inr (True, s4)"
        using full io1 io2 io3 seg by (simp add: SlruPhysicalReadPage_def)
      from that(3)[OF this d c] show thesis .
    next
      case False
      then have "SlruPhysicalReadPage ctl pageno i s = Inr (False, s4\<lparr>slru_errcause := SLRU_CLOSE_FAILED\<rparr>)"
        using full io1 io2 io3 seg by (simp add: SlruPhysicalReadPage_def)
      from that(2)[OF this, of "pages ! ?r"] show thesis using c by simp
    qed
  qed
qed

text \<open>The slot holds the page, and can be used as the caller asked for.\<close>

definition found :: "nat \<Rightarrow> bool \<Rightarrow> SlruShared \<Rightarrow> nat \<Rightarrow> SlruShared \<Rightarrow> bool" where
  "found pageno write_ok s i s' \<longleftrightarrow> keeps_pages s s' \<and> i < num_slots s' \<and> page_number s' i = pageno \<and>
     (page_status s' i = SLRU_PAGE_VALID \<or> write_ok \<and> page_status s' i = SLRU_PAGE_WRITE_IN_PROGRESS)"

lemma found_page: "slru_ok s' \<Longrightarrow> found pageno w s i s' \<Longrightarrow> page_of s' pageno = Some (page_buffer s' i)"
  using page_of_slot[of s' i] by (auto simp: found_def slru_ok_def loaded_def)

lemma outcome_mono: "outcome_ok s Q r \<Longrightarrow> (\<And>x t. slru_ok t \<Longrightarrow> Q x t \<Longrightarrow> Q' x t) \<Longrightarrow> outcome_ok s Q' r"
  by (auto simp: outcome_ok_def split: sum.splits)

text \<open>Reading the page into a reusable slot.\<close>

lemma keeps_pages_one:
  assumes "num_slots s' = num_slots s" "lsn_groups_per_page s' = lsn_groups_per_page s" "flushed s' = flushed s"
    "\<forall>p. p \<noteq> pageno \<longrightarrow> page_of s' p = page_of s p" "page_of s' pageno = page_of s pageno"
  shows "keeps_pages s s'"
proof -
  have "page_of s' p = page_of s p" for p using assms(4,5) by (cases "p = pageno") auto
  then show ?thesis using assms(1-3) by (simp add: keeps_pages_def)
qed

lemma reusable_disk: "slru_ok s \<Longrightarrow> reusable pageno i s \<Longrightarrow> page_of s pageno = disk_page s pageno"
  by (rule page_of_disk) (auto simp: reusable_def slot_of_None loaded_def)

lemma read_into_slot:
  assumes "slru_ok s" "reusable pageno i s" "num_slots s' = num_slots s" "lsn_groups_per_page s' = lsn_groups_per_page s"
    "flushed s' = flushed s" "disk_page s' = disk_page s" "page_number s' = (page_number s)(i := pageno)"
    "page_dirty s' = (page_dirty s)(i := False)" "page_status s' = (page_status s)(i := st)"
    "page_buffer s' = (page_buffer s)(i := x)" "\<And>j. j \<noteq> i \<Longrightarrow> lsns_flushed s j \<Longrightarrow> lsns_flushed s' j"
    "st = SLRU_PAGE_READ_IN_PROGRESS \<or> st = SLRU_PAGE_VALID \<and> disk_page s pageno = Some x \<and> lsns_flushed s' i"
  shows "slru_ok s' \<and> keeps_pages s s'"
proof -
  have i: "i < num_slots s" using assms(2) by (simp add: reusable_def)
  have len: "length x = BLCKSZ" if "disk_page s pageno = Some x"
    using slru_okD(2)[OF assms(1)] that by (simp add: disk_ok_def)
  have "slot_ok s' i" using assms(6-10,12) len by (auto simp: slot_ok_def loaded_def)
  then have "installs pageno i s s'" using assms by (auto simp: installs_def)
  moreover have sel: "selected pageno s i s" using assms(2) by (simp add: selected_def reusable_def)
  ultimately have ok: "slru_ok s' \<and> (\<forall>p. p \<noteq> pageno \<longrightarrow> page_of s' p = page_of s p)"
    using installs_ok[OF assms(1) sel i] by blast
  have "page_of s' pageno = page_of s pageno"
  proof (cases "st = SLRU_PAGE_VALID")
    case True
    then have "page_of s' (page_number s' i) = Some (page_buffer s' i)"
      using i ok assms(3,9) by (intro page_of_slot) (auto simp: slru_ok_def loaded_def)
    then show ?thesis using True assms(7,10,12) reusable_disk[OF assms(1,2)] by auto
  next
    case False
    have "page_of s' pageno = disk_page s' pageno"
      using False assms(2,3,7,9,12) by (intro page_of_disk) (auto simp: reusable_def slot_of_None loaded_def split: if_splits)
    then show ?thesis using reusable_disk[OF assms(1,2)] assms(6) by simp
  qed
  then show ?thesis using ok keeps_pages_one[OF assms(3-5)] by blast
qed


lemma read_new_ok:
  assumes "\<not> InRecovery ctl" "slru_ok s" "slot_of pageno s = None"
  shows "outcome_ok s (found pageno write_ok s) (read_loop (Suc n) ctl pageno write_ok s)"
proof (cases "SlruSelectLRUPage ctl pageno s")
  case (Inl es)
  then show ?thesis using SlruSelectLRUPage_ok[OF assms(2), of pageno ctl] by (cases es) (simp add: outcome_ok_def)
next
  case (Inr r0)
  obtain i s1 where eq: "r0 = (i, s1)" by fastforce
  have s1: "slru_ok s1" "keeps_pages s s1" "reusable pageno i s1"
    using SlruSelectLRUPage_ok[OF assms(2), of pageno ctl] Inr eq assms(3) by (simp_all add: outcome_ok_def selected_def)
  have i: "i < num_slots s1" using s1(3) by (simp add: reusable_def)
  define s2 where "s2 = s1\<lparr>page_number := (page_number s1)(i := pageno),
      page_status := (page_status s1)(i := SLRU_PAGE_READ_IN_PROGRESS), page_dirty := (page_dirty s1)(i := False)\<rparr>"
  let ?fin = "\<lambda>ok s3. (SimpleLruZeroLSNs i s3)\<lparr>page_status :=
      (page_status (SimpleLruZeroLSNs i s3))(i := (if ok then SLRU_PAGE_VALID else SLRU_PAGE_EMPTY))\<rparr>"
  have free: "\<not> (page_number s1 i = pageno \<and> page_status s1 i \<noteq> SLRU_PAGE_EMPTY)"
      "page_status s1 i = SLRU_PAGE_EMPTY \<or> page_status s1 i = SLRU_PAGE_VALID \<and> \<not> page_dirty s1 i"
    using s1(3) i by (auto simp: reusable_def slot_of_None)
  have unf: "read_loop (Suc n) ctl pageno write_ok s = (case SlruPhysicalReadPage ctl pageno i s2 of
      Inl e \<Rightarrow> Inl e
    | Inr (ok, s3) \<Rightarrow>
        if \<not> (page_number s3 i = pageno \<and> page_status s3 i = SLRU_PAGE_READ_IN_PROGRESS \<and> \<not> page_dirty s3 i)
        then Inl (AssertFail ''slot is being read'', SimpleLruZeroLSNs i s3)
        else if \<not> ok then Inl (SlruReportIOError ctl (?fin ok s3), ?fin ok s3)
        else Inr (i, SlruRecentlyUsed i (?fin ok s3)))"
    using Inr eq free by (cases "page_status s1 i = SLRU_PAGE_EMPTY") (simp_all add: s2_def Let_def split: sum.split prod.split)
  have d2: "disk_page s2 = disk_page s1" by (simp add: s2_def)
  have mid: "slru_ok t \<and> keeps_pages s1 t"
    if c: "core t = core (s2\<lparr>page_buffer := (page_buffer s2)(i := x)\<rparr>)" for t x
    by (rule read_into_slot[OF s1(1,3), where st = SLRU_PAGE_READ_IN_PROGRESS and x = x])
       (use c core_ok(5)[OF c] d2 in \<open>auto simp: core_def s2_def lsns_flushed_def\<close>)
  from assms(1) show ?thesis
  proof (cases rule: SlruPhysicalReadPage_cases[where pageno = pageno and i = i and s = s2])
    case (1 m s')
    have "slru_ok s' \<and> keeps_pages s1 s'"
      by (rule mid[where x = "page_buffer s2 i"]) (use 1(2) in \<open>simp add: core_def\<close>)
    then show ?thesis unfolding unf using 1(1) keeps_pages_trans[OF s1(2)] by (simp add: outcome_ok_def io_error_def)
  next
    case (2 s3 x)
    let ?t = "SimpleLruZeroLSNs i s3"
    have b: "page_number s3 i = pageno" "page_status s3 i = SLRU_PAGE_READ_IN_PROGRESS" "\<not> page_dirty s3 i"
      "num_slots s3 = num_slots s1"
      using 2(2) by (simp_all add: core_def s2_def)
    have t: "slru_ok ?t \<and> keeps_pages s1 ?t"
      by (rule read_into_slot[OF s1(1,3), where st = SLRU_PAGE_READ_IN_PROGRESS and x = x])
         (use 2(2) core_ok(5)[OF 2(2)] d2 zero_lsns(2)[of i _ s3] in \<open>auto simp: core_def s2_def lsns_flushed_def zero_lsns(3)\<close>)
    have "slru_ok (?fin False s3) \<and> keeps_pages ?t (?fin False s3)"
      using empty_slot[of ?t i] t i b by simp
    then show ?thesis unfolding unf
      using 2(1) b keeps_pages_trans[OF keeps_pages_trans[OF s1(2), of ?t]] t io_error_report by (simp add: outcome_ok_def)
  next
    case (3 s3 x)
    let ?t = "?fin True s3"
    have b: "page_number s3 i = pageno" "page_status s3 i = SLRU_PAGE_READ_IN_PROGRESS" "\<not> page_dirty s3 i"
      "num_slots s3 = num_slots s1"
      using 3(3) by (simp_all add: core_def s2_def)
    have l: "lsns_flushed ?t i" using zero_lsns(1)[of i s3] by (simp add: lsns_flushed_def)
    have t: "slru_ok ?t \<and> keeps_pages s1 ?t"
      by (rule read_into_slot[OF s1(1,3), where st = SLRU_PAGE_VALID and x = x])
         (use 3(2,3) core_ok(5)[OF 3(3)] d2 l zero_lsns(2)[of i _ s3] in \<open>auto simp: core_def s2_def lsns_flushed_def zero_lsns(3)\<close>)
    let ?u = "SlruRecentlyUsed i ?t"
    note u = core_ok[OF core_used[of i ?t]]
    have "found pageno write_ok s i ?u"
      using keeps_pages_trans[OF keeps_pages_trans[OF s1(2)] u(3)] t i b core_used[of i ?t]
      by (simp add: found_def core_def)
    then show ?thesis unfolding unf using 3(1) b t u(1) by (simp add: outcome_ok_def)
  qed
qed

lemma read_loop_ready:
  assumes "slru_ok s" "slot_of pageno s = Some i"
    "\<not> (page_status s i = SLRU_PAGE_READ_IN_PROGRESS \<or> page_status s i = SLRU_PAGE_WRITE_IN_PROGRESS \<and> \<not> write_ok)"
  shows "outcome_ok s (found pageno write_ok s) (read_loop (Suc n) ctl pageno write_ok s)"
proof -
  note sl = slot_of_Some[OF assms(2)]
  have "SlruSelectLRUPage ctl pageno s = Inr (i, s)" using assms(2) by (simp add: SlruSelectLRUPage_def)
  then have r: "read_loop (Suc n) ctl pageno write_ok s = Inr (i, SlruRecentlyUsed i s)" using assms(3) sl by (cases "page_status s i") auto
  note u = core_ok[OF core_used[of i s]]
  have "found pageno write_ok s i (SlruRecentlyUsed i s)"
    using u(3) core_used[of i s] sl assms(3) by (cases "page_status s i") (auto simp: found_def core_def)
  then show ?thesis using r u(1) assms(1) by (simp add: outcome_ok_def)
qed

lemma SimpleLruReadPage_ok:
  assumes "\<not> InRecovery ctl" "slru_ok s"
  shows "outcome_ok s (found pageno write_ok s) (SimpleLruReadPage ctl pageno write_ok s)"
proof (cases "slot_of pageno s")
  case None
  then show ?thesis using read_new_ok[OF assms None, of write_ok 1] by (simp add: SimpleLruReadPage_def numeral_2_eq_2)
next
  case (Some i)
  note sl = slot_of_Some[OF Some]
  let ?s = "SimpleLruWaitIO i s"
  note w = WaitIO_ok[OF assms(2), of i]
  have lift: "outcome_ok s (found pageno write_ok s) r" if "outcome_ok ?s (found pageno write_ok ?s) r" for r
    using that w(1) sl keeps_pages_trans[of s ?s] by (auto simp: outcome_ok_def found_def split: sum.splits)
  consider (ready) "\<not> (page_status s i = SLRU_PAGE_READ_IN_PROGRESS \<or> page_status s i = SLRU_PAGE_WRITE_IN_PROGRESS \<and> \<not> write_ok)"
    | (reading) "page_status s i = SLRU_PAGE_READ_IN_PROGRESS" | (writing) "page_status s i = SLRU_PAGE_WRITE_IN_PROGRESS" "\<not> write_ok" by blast
  then show ?thesis
  proof cases
    case ready
    then show ?thesis using read_loop_ready[OF assms(2) Some ready, of 1] by (simp add: SimpleLruReadPage_def numeral_2_eq_2)
  next
    case reading
    have "slot_of pageno ?s = None"
      unfolding slot_of_None
    proof (intro allI impI)
      fix j assume j: "j < num_slots ?s" "page_number ?s j = pageno"
      then have j': "j < num_slots s" "page_number s j = page_number s i" using reading sl by (simp_all add: SimpleLruWaitIO_def)
      then have "j = i" if "page_status s j \<noteq> SLRU_PAGE_EMPTY"
        using slru_okD(1)[OF assms(2)] sl that unfolding unique_pages_def by blast
      then show "page_status ?s j = SLRU_PAGE_EMPTY" using reading by (auto simp: SimpleLruWaitIO_def)
    qed
    then have "outcome_ok ?s (found pageno write_ok ?s) (read_loop (Suc 0) ctl pageno write_ok ?s)"
      using w(1) sl by (intro read_new_ok[OF assms(1)]) auto
    then show ?thesis
      using reading Some sl lift by (simp add: SimpleLruReadPage_def numeral_2_eq_2 SlruSelectLRUPage_def del: read_loop.simps(1))
  next
    case writing
    have same: "(\<lambda>j. page_number ?s j = pageno \<and> page_status ?s j \<noteq> SLRU_PAGE_EMPTY) =
        (\<lambda>j. page_number s j = pageno \<and> page_status s j \<noteq> SLRU_PAGE_EMPTY)"
      using writing by (auto simp: SimpleLruWaitIO_def fun_eq_iff)
    have "slot_of pageno ?s = Some i"
      using Some w(2) sl unfolding slot_of_def same by (simp add: others_same_def)
    then have "outcome_ok ?s (found pageno write_ok ?s) (read_loop (Suc 0) ctl pageno write_ok ?s)"
      using w(1) sl writing by (intro read_loop_ready) (auto simp: SimpleLruWaitIO_def)
    then show ?thesis
      using writing Some sl lift by (simp add: SimpleLruReadPage_def numeral_2_eq_2 SlruSelectLRUPage_def del: read_loop.simps(1))
  qed
qed


lemma SimpleLruReadPage_ReadOnly_ok:
  assumes "\<not> InRecovery ctl" "slru_ok s"
  shows "outcome_ok s (found pageno True s) (SimpleLruReadPage_ReadOnly ctl pageno s)"
proof (cases "find (\<lambda>slotno. page_number s slotno = pageno \<and> page_status s slotno \<noteq> SLRU_PAGE_EMPTY \<and>
                          page_status s slotno \<noteq> SLRU_PAGE_READ_IN_PROGRESS) [0..<num_slots s]")
  case None
  then show ?thesis using SimpleLruReadPage_ok[OF assms] by (simp add: SimpleLruReadPage_ReadOnly_def)
next
  case (Some i)
  then have sl: "i < num_slots s" "page_number s i = pageno" "page_status s i \<noteq> SLRU_PAGE_EMPTY"
    "page_status s i \<noteq> SLRU_PAGE_READ_IN_PROGRESS" by (auto simp: find_Some_iff)
  note u = core_ok[OF core_used[of i s]]
  have "found pageno True s i (SlruRecentlyUsed i s)"
    using u(3) core_used[of i s] sl by (cases "page_status s i") (simp_all add: found_def core_def)
  then show ?thesis using Some u(1) assms(2) by (simp add: SimpleLruReadPage_ReadOnly_def outcome_ok_def)
qed

subsection \<open>Checkpoints\<close>

text \<open>Slots a checkpoint has dealt with: nothing in them is newer than the disk.\<close>

definition settled :: "SlruShared \<Rightarrow> nat \<Rightarrow> bool" where
  "settled s i \<longleftrightarrow> \<not> page_dirty s i \<and> page_status s i \<noteq> SLRU_PAGE_WRITE_IN_PROGRESS"

lemma write_slots_ok:
  assumes "slru_ok s" "set slots \<subseteq> {..<num_slots s}" "\<forall>i \<in> A. settled s i"
  shows "outcome_ok s (\<lambda>fdata s'. keeps_pages s s' \<and> (\<forall>i \<in> A \<union> set slots. settled s' i)) (write_slots ctl True slots fdata s)"
  using assms
proof (induction slots arbitrary: s fdata A)
  case Nil
  then show ?case by (simp add: outcome_ok_def keeps_pages_refl)
next
  case (Cons i slots)
  have i: "i < num_slots s" using Cons.prems(2) by simp
  from Cons.prems(1) i show ?case
  proof (cases rule: SlruInternalWritePage_cases[where ctl = ctl and fdata = fdata])
    case (1 e s')
    then show ?thesis by (simp add: outcome_ok_def)
  next
    case (2 fdata' s')
    have "\<forall>j \<in> insert i A. settled s' j"
    proof
      fix j assume "j \<in> insert i A"
      then show "settled s' j" using Cons.prems(3) 2(4,5,6) by (cases "j = i") (auto simp: settled_def others_same_def)
    qed
    then have "outcome_ok s' (\<lambda>fdata s''. keeps_pages s' s'' \<and> (\<forall>j \<in> insert i A \<union> set slots. settled s'' j))
        (write_slots ctl True slots fdata' s')"
      using 2(2,4) Cons.prems(2) by (intro Cons.IH) (auto simp: others_same_def)
    from outcome_trans[OF this 2(3)] show ?thesis using 2(1) by simp
  qed
qed

lemma close_files_same: "close_files segs ok s = (ok', s') \<Longrightarrow> core s' = core s"
proof (induction segs arbitrary: ok s)
  case (Cons seg segs)
  then show ?case by (auto simp: Let_def split: prod.splits if_splits dest!: core_take_io)
qed simp

lemma settled_disk:
  assumes "slru_ok s" "\<forall>i < num_slots s. settled s i" "page_of s p = Some x"
  shows "disk_page s p = Some x"
proof (cases "\<exists>i < num_slots s. loaded s i \<and> page_number s i = p")
  case True
  then obtain i where i: "i < num_slots s" "loaded s i" "page_number s i = p" by blast
  then have "page_status s i = SLRU_PAGE_VALID" "\<not> page_dirty s i" using assms(2) by (auto simp: settled_def loaded_def)
  then show ?thesis
    using slru_okD(3)[OF assms(1) i(1)] page_of_slot[OF slru_okD(1)[OF assms(1)] i(1,2)] i(3) assms(3) by (simp add: slot_ok_def)
next
  case False
  then have "page_of s p = disk_page s p" by (intro page_of_disk) auto
  then show ?thesis using assms(3) by simp
qed

lemma SimpleLruWriteAll_ok:
  assumes "slru_ok s"
  obtains e s' where "SimpleLruWriteAll ctl True s = Inl (e, s')" "io_error e" "slru_ok s'" "keeps_pages s s'"
  | s' where "SimpleLruWriteAll ctl True s = Inr s'" "slru_ok s'" "keeps_pages s s'" "\<forall>i < num_slots s'. settled s' i"
proof -
  have w: "outcome_ok s (\<lambda>fdata s'. keeps_pages s s' \<and> (\<forall>i < num_slots s. settled s' i))
      (write_slots ctl True [0..<num_slots s] (Some []) s)"
    by (rule outcome_mono[OF write_slots_ok[OF assms, of _ "{}"]]) (auto simp: atLeast0LessThan)
  show thesis
  proof (cases "write_slots ctl True [0..<num_slots s] (Some []) s")
    case (Inl es)
    then show thesis using w that(1) by (cases es) (simp add: SimpleLruWriteAll_def outcome_ok_def)
  next
    case (Inr r)
    obtain fdata s1 where r: "r = (fdata, s1)" by fastforce
    have s1: "slru_ok s1" "keeps_pages s s1" "\<forall>i < num_slots s1. settled s1 i"
      using w Inr r by (auto simp: outcome_ok_def keeps_pages_def)
    obtain ok s2 where c: "close_files (case fdata of None \<Rightarrow> [] | Some segs \<Rightarrow> segs) True s1 = (ok, s2)" by fastforce
    obtain io s3 where io: "take_io s2 = (io, s3)" by fastforce
    have good: "slru_ok t" "keeps_pages s t" "\<forall>i < num_slots t. settled t i" if "core t = core s1" for t
      using core_ok[OF that] s1 keeps_pages_trans[OF s1(2)] that by (auto simp: settled_def core_def)
    note g2 = good[OF close_files_same[OF c]] and g3 = good[OF trans[OF core_take_io[OF io] close_files_same[OF c]]]
    consider (close) "\<not> ok" | (nosync) "ok" "\<not> syncs ctl" | (sync) "ok" "syncs ctl" "io = IoOk" | (fail) "ok" "syncs ctl" "io \<noteq> IoOk" by blast
    then show thesis
    proof cases
      case close
      then show thesis using that(1)[of "SlruReportIOError ctl s2" s2] g2 Inr r c io_error_report by (simp add: SimpleLruWriteAll_def)
    next
      case nosync
      then show thesis using that(2)[of s2] g2 Inr r c by (simp add: SimpleLruWriteAll_def)
    next
      case sync
      then show thesis using that(2)[of s3] g3 Inr r c io by (simp add: SimpleLruWriteAll_def)
    next
      case fail
      then show thesis
        using that(1)[of "if data_sync_retry ctl then ERROR ''could not fsync file'' else PANIC ''could not fsync file''" s3]
          g3 Inr r c io by (simp add: SimpleLruWriteAll_def io_error_def)
    qed
  qed
qed

end
