(* ===== verification/Slru_Truncate.thy ===== *)
theory Slru_Truncate
  imports Slru_Inv
begin

section \<open>The page cache: removing old segments\<close>

text \<open>
  Truncation throws away whole segment files. What it must not touch is decided by the client's
  \<^verbatim>\<open>PagePrecedes\<close>; the law it has to satisfy is that a segment whose first and last page are
  old contains old pages only.
\<close>

locale page_order =
  fixes prec :: "nat \<Rightarrow> nat \<Rightarrow> bool"
  assumes segment_old: "prec (seg * SLRU_PAGES_PER_SEGMENT) c \<Longrightarrow>
    prec (seg * SLRU_PAGES_PER_SEGMENT + SLRU_PAGES_PER_SEGMENT - 1) c \<Longrightarrow> r < SLRU_PAGES_PER_SEGMENT \<Longrightarrow>
    prec (seg * SLRU_PAGES_PER_SEGMENT + r) c"

subsection \<open>Clearing slots\<close>

definition cleared :: "(nat \<Rightarrow> bool) \<Rightarrow> SlruShared \<Rightarrow> nat \<Rightarrow> bool" where
  "cleared P s i \<longleftrightarrow> page_status s i = SLRU_PAGE_EMPTY \<or> \<not> P (page_number s i)"

lemma cleared_others:
  assumes "others_same i s s'" "cleared P s j" "page_status s i = SLRU_PAGE_EMPTY \<longrightarrow> page_status s' i = SLRU_PAGE_EMPTY"
  shows "cleared P s' j"
  using assms by (cases "j = i") (auto simp: cleared_def others_same_def)

lemma emptied_slot:
  assumes "slru_ok s" "i < num_slots s" "page_status s i = SLRU_PAGE_VALID" "\<not> page_dirty s i"
  defines "s' \<equiv> s\<lparr>page_status := (page_status s)(i := SLRU_PAGE_EMPTY)\<rparr>"
  shows "slru_ok s'" "keeps_pages s s'" "others_same i s s'" "work s' = work s" "cleared P s' i"
proof -
  show "slru_ok s'" "keeps_pages s s'" using empty_slot[OF assms(1,2)] assms(3,4) by (simp_all add: s'_def)
  show o: "others_same i s s'" by (simp add: s'_def others_same_def)
  show "work s' = work s"
    using work_others[OF o assms(2)] assms(3,4) by (simp add: s'_def slot_work_def)
  show "cleared P s' i" by (simp add: s'_def cleared_def)
qed

lemma delete_pass_ok:
  assumes "slru_ok s" "set slots \<subseteq> {..<num_slots s}" "\<not> d \<longrightarrow> (\<forall>i \<in> A. cleared (\<lambda>p. p div SLRU_PAGES_PER_SEGMENT = seg) s i)"
    "work s \<le> w" "d \<longrightarrow> work s < w"
  shows "outcome_ok s (\<lambda>again s'. keeps_pages s s' \<and> (if again then work s' < w
      else \<forall>i \<in> A \<union> set slots. cleared (\<lambda>p. p div SLRU_PAGES_PER_SEGMENT = seg) s' i)) (delete_pass ctl seg slots d s)"
  using assms
proof (induction slots arbitrary: s d A)
  case Nil
  then show ?case by (auto simp: outcome_ok_def keeps_pages_refl)
next
  case (Cons i slots)
  let ?P = "\<lambda>p. p div SLRU_PAGES_PER_SEGMENT = seg"
  let ?Q = "\<lambda>A again s'. if again then work s' < w else \<forall>i \<in> A. cleared ?P s' i"
  have i: "i < num_slots s" using Cons.prems(2) by simp
  have go: "outcome_ok s (\<lambda>again s'. keeps_pages s s' \<and> ?Q (A \<union> set (i # slots)) again s') (delete_pass ctl seg slots d' s1)"
    if "slru_ok s1" "keeps_pages s s1" "\<not> d' \<longrightarrow> (\<forall>j \<in> insert i A. cleared ?P s1 j)" "work s1 \<le> w" "d' \<longrightarrow> work s1 < w" for d' s1
  proof -
    have n: "num_slots s1 = num_slots s" using that(2) by (simp add: keeps_pages_def)
    have "outcome_ok s1 (\<lambda>again s'. keeps_pages s1 s' \<and> ?Q (insert i A \<union> set slots) again s') (delete_pass ctl seg slots d' s1)"
      using that(1,3,4,5) Cons.prems(2) n by (intro Cons.IH) auto
    from outcome_trans[OF this that(2)] show ?thesis by (rule outcome_mono) simp
  qed
  consider (skip) "cleared ?P s i" | (clean) "\<not> cleared ?P s i" "page_status s i = SLRU_PAGE_VALID" "\<not> page_dirty s i"
    | (dirty) "\<not> cleared ?P s i" "page_status s i = SLRU_PAGE_VALID" "page_dirty s i" | (busy) "\<not> cleared ?P s i" "busy s i"
    by (cases "page_status s i") (auto simp: cleared_def busy_def)
  then show ?case
  proof cases
    case skip
    then have "delete_pass ctl seg (i # slots) d s = delete_pass ctl seg slots d s" by (auto simp: cleared_def)
    then show ?thesis using go[of s d] Cons.prems skip by (simp add: keeps_pages_refl)
  next
    case clean
    let ?s = "s\<lparr>page_status := (page_status s)(i := SLRU_PAGE_EMPTY)\<rparr>"
    note e = emptied_slot[OF Cons.prems(1) i clean(2,3)]
    have "delete_pass ctl seg (i # slots) d s = delete_pass ctl seg slots d ?s" using clean by (simp add: cleared_def)
    moreover have "\<forall>j \<in> insert i A. cleared ?P ?s j" if "\<not> d"
      using that Cons.prems(3) e(3,5) clean(2) cleared_others[OF e(3)] by auto
    ultimately show ?thesis using go[of ?s d] e(1,2,4) Cons.prems(4,5) by simp
  next
    case dirty
    from Cons.prems(1) i show ?thesis
    proof (cases rule: SlruInternalWritePage_cases[where ctl = ctl and fdata = None])
      case (1 e s')
      then show ?thesis using dirty by (simp add: outcome_ok_def cleared_def)
    next
      case (2 fdata' s')
      have "work s' < w" using 2(7) dirty Cons.prems(4) by (simp add: slot_work_def loaded_def)
      then show ?thesis using go[of s' True] 2(1,2,3) dirty by (simp add: cleared_def)
    qed
  next
    case busy
    note e = WaitIO_ok[OF Cons.prems(1) i]
    have "delete_pass ctl seg (i # slots) d s = delete_pass ctl seg slots True (SimpleLruWaitIO i s)"
      using busy by (auto simp: cleared_def busy_def)
    then show ?thesis using go[of "SimpleLruWaitIO i s" True] e busy(2) Cons.prems(4) by (auto simp: busy_def)
  qed
qed

lemma empty_slots_ok:
  assumes "slru_ok s" "set slots \<subseteq> {..<num_slots s}" "\<forall>i \<in> A. cleared P s i"
  shows "outcome_ok s (\<lambda>again s'. keeps_pages s s' \<and> (if again then work s' < work s
      else \<forall>i \<in> A \<union> set slots. cleared P s' i)) (empty_slots ctl P slots s)"
  using assms
proof (induction slots arbitrary: s A)
  case Nil
  then show ?case by (auto simp: outcome_ok_def keeps_pages_refl)
next
  case (Cons i slots)
  let ?Q = "\<lambda>A again s'. if again then work s' < work s else \<forall>i \<in> A. cleared P s' i"
  have i: "i < num_slots s" using Cons.prems(2) by simp
  have go: "outcome_ok s (\<lambda>again s'. keeps_pages s s' \<and> ?Q (A \<union> set (i # slots)) again s') (empty_slots ctl P slots s1)"
    if "slru_ok s1" "keeps_pages s s1" "\<forall>j \<in> insert i A. cleared P s1 j" "work s1 = work s" for s1
  proof -
    have n: "num_slots s1 = num_slots s" using that(2) by (simp add: keeps_pages_def)
    have "outcome_ok s1 (\<lambda>again s'. keeps_pages s1 s' \<and> (if again then work s' < work s1 else \<forall>j \<in> insert i A \<union> set slots. cleared P s' j))
        (empty_slots ctl P slots s1)"
      using that(1,3) Cons.prems(2) n by (intro Cons.IH) auto
    from outcome_trans[OF this that(2)] show ?thesis by (rule outcome_mono) (auto simp: that(4) split: if_splits)
  qed
  consider (skip) "cleared P s i" | (clean) "\<not> cleared P s i" "page_status s i = SLRU_PAGE_VALID" "\<not> page_dirty s i"
    | (dirty) "\<not> cleared P s i" "page_status s i = SLRU_PAGE_VALID" "page_dirty s i" | (busy) "\<not> cleared P s i" "busy s i"
    by (cases "page_status s i") (auto simp: cleared_def busy_def)
  then show ?case
  proof cases
    case skip
    then have "empty_slots ctl P (i # slots) s = empty_slots ctl P slots s" by (auto simp: cleared_def)
    then show ?thesis using go[of s] Cons.prems skip by (simp add: keeps_pages_refl)
  next
    case clean
    let ?s = "s\<lparr>page_status := (page_status s)(i := SLRU_PAGE_EMPTY)\<rparr>"
    note e = emptied_slot[OF Cons.prems(1) i clean(2,3)]
    have "empty_slots ctl P (i # slots) s = empty_slots ctl P slots ?s" using clean by (simp add: cleared_def)
    moreover have "\<forall>j \<in> insert i A. cleared P ?s j"
      using Cons.prems(3) e(3,5) clean(2) cleared_others[OF e(3)] by auto
    ultimately show ?thesis using go[of ?s] e(1,2,4) by simp
  next
    case dirty
    from Cons.prems(1) i show ?thesis
    proof (cases rule: SlruInternalWritePage_cases[where ctl = ctl and fdata = None])
      case (2 fdata' s')
      have "work s' < work s" using 2(7) dirty by (simp add: slot_work_def loaded_def)
      then show ?thesis using 2(1,2,3) dirty by (simp add: cleared_def outcome_ok_def)
    qed (use dirty in \<open>simp add: outcome_ok_def cleared_def\<close>)
  next
    case busy
    note e = WaitIO_ok[OF Cons.prems(1) i]
    have "empty_slots ctl P (i # slots) s = Inr (True, SimpleLruWaitIO i s)"
      using busy by (auto simp: cleared_def busy_def)
    then show ?thesis using e busy(2) by (auto simp: busy_def outcome_ok_def)
  qed
qed


lemma delete_loop_ok:
  assumes "slru_ok s" "work s < n"
  obtains (error) e s' where "delete_loop n ctl seg s = Inl (e, s')" "io_error e" "slru_ok s'" "keeps_pages s s'"
  | (ok) s1 where "delete_loop n ctl seg s = Inr (SlruInternalDeleteSegment seg s1)" "slru_ok s1" "keeps_pages s s1"
      "\<forall>i < num_slots s1. cleared (\<lambda>p. p div SLRU_PAGES_PER_SEGMENT = seg) s1 i"
  using assms
proof (induction n arbitrary: s thesis)
  case (Suc n)
  let ?r = "delete_pass ctl seg [0..<num_slots s] False s"
  have p: "outcome_ok s (\<lambda>again s'. keeps_pages s s' \<and> (if again then work s' < work s
      else \<forall>i \<in> {} \<union> set [0..<num_slots s]. cleared (\<lambda>p. p div SLRU_PAGES_PER_SEGMENT = seg) s' i)) ?r"
    using Suc.prems(3) by (intro delete_pass_ok) auto
  show ?case
  proof (cases ?r)
    case (Inl a)
    then show ?thesis using p Suc.prems(1) by (cases a) (auto simp: outcome_ok_def)
  next
    case (Inr a)
    obtain again s1 where a: "a = (again, s1)" by (cases a)
    have k: "slru_ok s1" "keeps_pages s s1" using p Inr a by (auto simp: outcome_ok_def)
    have n: "num_slots s1 = num_slots s" using k(2) by (simp add: keeps_pages_def)
    show ?thesis
    proof (cases again)
      case True
      then have "work s1 < n" using p Inr a Suc.prems(4) by (auto simp: outcome_ok_def)
      from k(1) this show ?thesis
        by (rule Suc.IH[of s1, rotated 2]) (use Inr a True k(2) Suc.prems(1,2) in \<open>auto intro: keeps_pages_trans\<close>)
    next
      case False
      then show ?thesis using p Inr a k n Suc.prems(2)[of s1] by (auto simp: outcome_ok_def)
    qed
  qed
qed simp

lemma truncate_loop_ok:
  assumes "slru_ok s" "work s < n"
  shows "outcome_ok s (\<lambda>c s'. keeps_pages s s' \<and>
    (c \<longrightarrow> (\<forall>i < num_slots s'. cleared (\<lambda>p. PagePrecedes ctl p cutoff) s' i))) (truncate_loop n ctl cutoff s)"
  using assms
proof (induction n arbitrary: s)
  case (Suc n)
  let ?P = "\<lambda>p. PagePrecedes ctl p cutoff"
  let ?r = "empty_slots ctl ?P [0..<num_slots s] s"
  have p: "outcome_ok s (\<lambda>again s'. keeps_pages s s' \<and> (if again then work s' < work s
      else \<forall>i \<in> {} \<union> set [0..<num_slots s]. cleared ?P s' i)) ?r"
    using Suc.prems(1) by (intro empty_slots_ok) auto
  show ?case
  proof (cases "PagePrecedes ctl (latest_page_number s) cutoff")
    case True
    then show ?thesis using Suc.prems(1) by (simp add: outcome_ok_def keeps_pages_refl)
  next
    case now: False
    show ?thesis
    proof (cases ?r)
      case (Inl a)
      then show ?thesis using p now by (cases a) (auto simp: outcome_ok_def)
    next
      case (Inr a)
      obtain again s1 where a: "a = (again, s1)" by (cases a)
      have k: "slru_ok s1" "keeps_pages s s1" using p Inr a by (auto simp: outcome_ok_def)
      have n: "num_slots s1 = num_slots s" using k(2) by (simp add: keeps_pages_def)
      show ?thesis
      proof (cases again)
        case True
        then have "work s1 < n" using p Inr a Suc.prems(2) by (auto simp: outcome_ok_def)
        from outcome_trans[OF Suc.IH[OF k(1) this] k(2)] show ?thesis using now Inr a True by simp
      next
        case False
        then show ?thesis using p now Inr a k n by (auto simp: outcome_ok_def)
      qed
    qed
  qed
qed simp


subsection \<open>Removing files\<close>

lemma files_removed:
  assumes "slru_ok s" "\<forall>p. disk_page (s\<lparr>files := fs\<rparr>) p = (if D p then None else disk_page s p)"
    "\<forall>i < num_slots s. cleared D s i"
  shows "slru_ok (s\<lparr>files := fs\<rparr>)" "page_of (s\<lparr>files := fs\<rparr>) p = (if D p then None else page_of s p)"
proof -
  let ?s = "s\<lparr>files := fs\<rparr>"
  have l: "loaded ?s i = loaded s i" for i by (simp add: loaded_def)
  have keep: "\<not> D (page_number s i)" if "i < num_slots s" "loaded s i" for i
    using assms(3) that by (auto simp: cleared_def loaded_def)
  have "slot_ok ?s i" if "i < num_slots s" for i
    using assms(1) that keep[OF that] by (auto simp: slru_ok_def slot_ok_def l assms(2) lsns_flushed_def loaded_def)
  then show "slru_ok ?s" using assms(1) by (auto simp: slru_ok_def unique_pages_def disk_ok_def assms(2))
  show "page_of ?s p = (if D p then None else page_of s p)"
  proof (cases "\<exists>i < num_slots s. page_number s i = p \<and> loaded s i")
    case True
    then obtain i where i: "i < num_slots s" "loaded s i" "page_number s i = p" by blast
    have "unique_pages s" "unique_pages ?s" using assms(1) by (auto simp: slru_ok_def unique_pages_def)
    then show ?thesis using page_of_slot[of s i] page_of_slot[of ?s i] i keep[of i] l by simp
  next
    case False
    then have "page_of s p = disk_page s p" "page_of ?s p = disk_page ?s p" by (auto intro!: page_of_disk simp: l)
    then show ?thesis using assms(2) by simp
  qed
qed

lemma segment_deleted:
  "disk_page (SlruInternalDeleteSegment seg s) p = (if p div SLRU_PAGES_PER_SEGMENT = seg then None else disk_page s p)"
  by (simp add: disk_page_def segment_pages_def SlruInternalDeleteSegment_def delete_conv)

lemma directory_scanned:
  "\<exists>fs. snd (SlruScanDirectory (SlruScanDirCbDeleteCutoff ctl cutoff) segs s) = s\<lparr>files := fs\<rparr> \<and>
    (\<forall>p. disk_page (s\<lparr>files := fs\<rparr>) p = (if p div SLRU_PAGES_PER_SEGMENT \<in> set segs \<and>
       SlruMayDeleteSegment ctl (p div SLRU_PAGES_PER_SEGMENT * SLRU_PAGES_PER_SEGMENT) cutoff then None else disk_page s p))"
proof (induction segs arbitrary: s)
  case Nil
  show ?case by (intro exI[of _ "files s"]) simp
next
  case (Cons seg segs)
  let ?m = "SlruMayDeleteSegment ctl (seg * SLRU_PAGES_PER_SEGMENT) cutoff"
  let ?s = "if ?m then SlruInternalDeleteSegment seg s else s"
  obtain fs where fs: "snd (SlruScanDirectory (SlruScanDirCbDeleteCutoff ctl cutoff) segs ?s) = ?s\<lparr>files := fs\<rparr>"
    "\<forall>p. disk_page (?s\<lparr>files := fs\<rparr>) p = (if p div SLRU_PAGES_PER_SEGMENT \<in> set segs \<and>
       SlruMayDeleteSegment ctl (p div SLRU_PAGES_PER_SEGMENT * SLRU_PAGES_PER_SEGMENT) cutoff then None else disk_page ?s p)"
    using Cons.IH[of ?s] by blast
  have "?s\<lparr>files := fs\<rparr> = s\<lparr>files := fs\<rparr>" by (simp add: SlruInternalDeleteSegment_def)
  moreover have "SlruScanDirCbDeleteCutoff ctl cutoff (seg * SLRU_PAGES_PER_SEGMENT) s = (False, ?s)"
    by (simp add: SlruScanDirCbDeleteCutoff_def SLRU_PAGES_PER_SEGMENT_def)
  ultimately show ?case using fs by (intro exI[of _ fs]) (auto simp: segment_deleted)
qed


subsection \<open>Truncation and deletion\<close>

text \<open>
  Truncation returns or reports an I/O error; a page that does not precede the cutoff keeps its
  contents, and a page that goes is old.
\<close>

lemma SimpleLruTruncate_ok:
  assumes "slru_ok s" "page_order (PagePrecedes ctl)"
  shows "case SimpleLruTruncate ctl cutoff s of
      Inl (e, s') \<Rightarrow> io_error e \<and> slru_ok s' \<and> keeps_pages s s'
    | Inr s' \<Rightarrow> slru_ok s' \<and> num_slots s' = num_slots s \<and> lsn_groups_per_page s' = lsn_groups_per_page s \<and>
        (\<forall>p. grown (page_of s p) (page_of s' p) \<or> page_of s' p = None \<and> PagePrecedes ctl p cutoff)"
proof (cases "truncate_loop (3 * num_slots s + 1) ctl cutoff s")
  case (Inl a)
  then show ?thesis using truncate_loop_ok[OF assms(1), of "3 * num_slots s + 1" ctl cutoff] work_le[of s]
    by (cases a) (auto simp: SimpleLruTruncate_def outcome_ok_def)
next
  case (Inr a)
  obtain c s1 where a: "a = (c, s1)" by (cases a)
  have k: "slru_ok s1" "keeps_pages s s1" "c \<longrightarrow> (\<forall>i < num_slots s1. cleared (\<lambda>p. PagePrecedes ctl p cutoff) s1 i)"
    using truncate_loop_ok[OF assms(1), of "3 * num_slots s + 1" ctl cutoff] work_le[of s] Inr a
    by (auto simp: outcome_ok_def)
  let ?D = "\<lambda>p. p div SLRU_PAGES_PER_SEGMENT \<in> set (map fst (files s1)) \<and>
       SlruMayDeleteSegment ctl (p div SLRU_PAGES_PER_SEGMENT * SLRU_PAGES_PER_SEGMENT) cutoff"
  have old: "PagePrecedes ctl p cutoff" if "?D p" for p
    using page_order.segment_old[OF assms(2), of "p div SLRU_PAGES_PER_SEGMENT" cutoff "p mod SLRU_PAGES_PER_SEGMENT"] that
    by (simp add: SlruMayDeleteSegment_def Let_def SLRU_PAGES_PER_SEGMENT_def)
  obtain fs where fs: "snd (SlruScanDirectory (SlruScanDirCbDeleteCutoff ctl cutoff) (map fst (files s1)) s1) = s1\<lparr>files := fs\<rparr>"
    "\<forall>p. disk_page (s1\<lparr>files := fs\<rparr>) p = (if ?D p then None else disk_page s1 p)"
    using directory_scanned[of ctl cutoff "map fst (files s1)" s1] by blast
  show ?thesis
  proof (cases c)
    case True
    then have "\<forall>i < num_slots s1. cleared ?D s1 i" using k(3) old by (auto simp: cleared_def)
    note r = files_removed[OF k(1) fs(2) this]
    have "SimpleLruTruncate ctl cutoff s = Inr (s1\<lparr>files := fs\<rparr>)" using Inr a True fs(1) by (simp add: SimpleLruTruncate_def)
    then show ?thesis using r k(2) old by (simp add: keeps_pages_def)
  next
    case False
    then show ?thesis using Inr a k by (simp add: SimpleLruTruncate_def keeps_pages_def)
  qed
qed

lemma SlruDeleteSegment_ok:
  assumes "slru_ok s"
  shows "case SlruDeleteSegment ctl seg s of
      Inl (e, s') \<Rightarrow> io_error e \<and> slru_ok s' \<and> keeps_pages s s'
    | Inr s' \<Rightarrow> slru_ok s' \<and> num_slots s' = num_slots s \<and>
        (\<forall>p. if p div SLRU_PAGES_PER_SEGMENT = seg then page_of s' p = None else grown (page_of s p) (page_of s' p))"
proof -
  have "work s < 3 * num_slots s + 1" using work_le[of s] by simp
  from assms this show ?thesis
  proof (cases rule: delete_loop_ok[where ctl = ctl and seg = seg])
    case (ok s1)
    have d: "\<forall>p. disk_page (s1\<lparr>files := AList.delete seg (files s1)\<rparr>) p =
        (if p div SLRU_PAGES_PER_SEGMENT = seg then None else disk_page s1 p)"
      using segment_deleted[of seg s1] by (simp add: SlruInternalDeleteSegment_def)
    show ?thesis using files_removed[OF ok(2) d ok(4)] ok(1,3)
      by (simp add: SlruDeleteSegment_def SlruInternalDeleteSegment_def keeps_pages_def)
  qed (simp add: SlruDeleteSegment_def)
qed

end
