(* ===== verification/Slru_Live.thy ===== *)
theory Slru_Live
  imports Slru_Truncate
begin

section \<open>The page cache when every system call succeeds\<close>

text \<open>
  The routines of the cache either do their work or report an I/O error. Here: with no failing
  system call ahead (\<open>io_results\<close> used up) they do not report one, so they do their work.
\<close>

definition quiet :: "(SlruShared, 'a) vres \<Rightarrow> bool" where
  "quiet r \<longleftrightarrow> (case r of Inl (e, s') \<Rightarrow> \<not> io_error e | Inr (x, s') \<Rightarrow> io_results s' = [])"

lemma quiet_simps [simp]:
  "quiet (Inr (x, s)) \<longleftrightarrow> io_results s = []" "quiet (Inl (e, s)) \<longleftrightarrow> \<not> io_error e"
  by (simp_all add: quiet_def)

lemma io_error_simps [simp]: "\<not> io_error (AssertFail m)" "\<not> io_error (UndefinedBehaviour m)"
  by (simp_all add: io_error_def)

lemma take_io_quiet: "io_results s = [] \<Longrightarrow> take_io s = (IoOk, s)"
  by (simp add: take_io_def)

lemma io_same [simp]:
  "io_results (flush_slot_lsn i s) = io_results s" "io_results (set_segment seg ps s) = io_results s"
  "io_results (SlruRecentlyUsed i s) = io_results s" "io_results (SimpleLruZeroLSNs i s) = io_results s"
  "io_results (SimpleLruWaitIO i s) = io_results s"
  by (simp_all add: flush_slot_lsn_def XLogFlush_to_def set_segment_def SlruRecentlyUsed_def SimpleLruZeroLSNs_def
      SimpleLruWaitIO_def Let_def)

lemma io_wait_write [simp]: "io_results (wait_write i p s) = io_results s"
  by (induction i p s rule: wait_write.induct) (subst wait_write.simps, simp)

lemma quiet_open:
  assumes "io_results s = []"
  shows "\<exists>k f s1. open_segment seg fdata s = Inr ((True, k, f), s1) \<and> io_results s1 = []"
proof -
  let ?s2 = "case segment_pages seg s of None \<Rightarrow> set_segment seg [] s | Some ps \<Rightarrow> s"
  have "io_results ?s2 = []" using assms by (simp split: option.split)
  then show ?thesis using assms by (cases fdata) (auto simp: open_segment_def take_io_quiet Let_def)
qed

lemma quiet_physical_write:
  assumes "io_results s = []"
  obtains fdata' s' where "SlruPhysicalWritePage ctl pageno i fdata s = Inr ((True, fdata'), s')" "io_results s' = []"
proof -
  obtain k f s1 where o: "open_segment (pageno div SLRU_PAGES_PER_SEGMENT) fdata (flush_slot_lsn i s) = Inr ((True, k, f), s1)"
    "io_results s1 = []"
    using quiet_open[of "flush_slot_lsn i s" "pageno div SLRU_PAGES_PER_SEGMENT" fdata] assms by auto
  have a: "io_results t = [] \<Longrightarrow> after_write ctl k t = (True, t)" for t
    by (auto simp: after_write_def take_io_quiet)
  let ?seg = "pageno div SLRU_PAGES_PER_SEGMENT"
  let ?s = "set_segment ?seg (pwrite_page (page_buffer s1 i) (pageno mod SLRU_PAGES_PER_SEGMENT) (segment_pages ?seg s1)) s1"
  have "SlruPhysicalWritePage ctl pageno i fdata s = Inr ((True, f), ?s)"
    using o by (simp add: SlruPhysicalWritePage_def take_io_quiet a Let_def)
  then show thesis by (rule that) (simp add: o(2))
qed

lemma quiet_write: "io_results s = [] \<Longrightarrow> quiet (SlruInternalWritePage ctl i fdata s)"
proof -
  assume io: "io_results s = []"
  define s1 where "s1 = wait_write i (page_number s i) s"
  let ?s2 = "s1\<lparr>page_status := (page_status s1)(i := SLRU_PAGE_WRITE_IN_PROGRESS), page_dirty := (page_dirty s1)(i := False)\<rparr>"
  have io1: "io_results s1 = []" using io by (simp add: s1_def)
  then have "io_results ?s2 = []" by simp
  then obtain f s3 where w: "SlruPhysicalWritePage ctl (page_number s i) i fdata ?s2 = Inr ((True, f), s3)" "io_results s3 = []"
    by (rule quiet_physical_write)
  show ?thesis unfolding SlruInternalWritePage_def Let_def s1_def[symmetric] w(1) using w(2) io1 by simp
qed

lemma io_scan: "io_results (snd (scan_slots ctl c slots v s)) = io_results s"
  by (induction ctl c slots v s rule: scan_slots.induct) (auto simp: Let_def)

lemma quiet_select: "io_results s = [] \<Longrightarrow> quiet (select_loop n ctl pageno s)"
proof (induction n arbitrary: s)
  case (Suc n)
  let ?s1 = "s\<lparr>cur_lru_count := cur_lru_count s + 1\<rparr>"
  obtain r s2 where sc: "scan_slots ctl (cur_lru_count s) [0..<num_slots s] no_victims ?s1 = (r, s2)" by fastforce
  have io: "io_results s2 = []" using io_scan[of ctl "cur_lru_count s" "[0..<num_slots s]" no_victims ?s1] sc Suc.prems by simp
  have wr: "quiet (case SlruInternalWritePage ctl j None s2 of Inl e \<Rightarrow> Inl e | Inr (f, s3) \<Rightarrow> select_loop n ctl pageno s3)" for j
    using quiet_write[OF io, of ctl j None] Suc.IH by (auto split: sum.splits)
  show ?case
  proof (cases r)
    case (Inl i)
    then show ?thesis using sc io Suc.prems by (auto simp: Let_def split: option.split)
  next
    case (Inr v)
    then show ?thesis using sc io wr[of "bestvalidslot v"] Suc.IH[of "SimpleLruWaitIO (bestinvalidslot v) s2"] Suc.prems
      by (auto simp: Let_def split: option.split)
  qed
qed simp

lemma quiet_SelectLRU: "io_results s = [] \<Longrightarrow> quiet (SlruSelectLRUPage ctl pageno s)"
  unfolding SlruSelectLRUPage_def by (rule quiet_select)

lemma quiet_zero: "io_results s = [] \<Longrightarrow> quiet (SimpleLruZeroPage ctl pageno s)"
  using quiet_SelectLRU[of s ctl pageno] by (auto simp: SimpleLruZeroPage_def Let_def split: sum.splits)

lemma quiet_physical_read:
  assumes "io_results s = []" "disk_page s pageno = Some x"
  shows "\<exists>s'. SlruPhysicalReadPage ctl pageno i s = Inr (True, s') \<and> io_results s' = []"
  using assms by (auto simp: SlruPhysicalReadPage_def disk_page_def take_io_quiet Let_def split: option.splits if_splits)

lemma keeps_page: "keeps_pages s s' \<Longrightarrow> page_of s p \<noteq> None \<Longrightarrow> page_of s' p \<noteq> None"
  unfolding keeps_pages_def grown_def by metis

lemma quiet_read_loop:
  assumes "slru_ok s" "io_results s = []" "page_of s pageno \<noteq> None"
  shows "quiet (read_loop n ctl pageno write_ok s)"
  using assms
proof (induction n arbitrary: s)
  case (Suc n)
  note sel = SlruSelectLRUPage_ok[OF Suc.prems(1), of pageno ctl] quiet_SelectLRU[OF Suc.prems(2), of ctl pageno]
  show ?case
  proof (cases "SlruSelectLRUPage ctl pageno s")
    case (Inl a)
    then show ?thesis using sel(2) by (cases a) simp
  next
    case (Inr a)
    obtain i s1 where a: "a = (i, s1)" by (cases a)
    have s1: "slru_ok s1" "keeps_pages s s1" "selected pageno s i s1" "io_results s1 = []"
      using sel Inr a by (auto simp: outcome_ok_def)
    have p1: "page_of s1 pageno \<noteq> None" using keeps_page[OF s1(2)] Suc.prems(3) by blast
    have i: "i < num_slots s1" using s1(2,3) slot_of_Some
      by (auto simp: selected_def reusable_def keeps_pages_def split: if_splits)
    show ?thesis
    proof (cases "page_number s1 i = pageno \<and> page_status s1 i \<noteq> SLRU_PAGE_EMPTY")
      case True
      have "quiet (read_loop n ctl pageno write_ok (SimpleLruWaitIO i s1))"
        using WaitIO_ok[OF s1(1) i] keeps_page p1 s1(1,4) Suc.IH[of "SimpleLruWaitIO i s1"]
        by (cases "busy s1 i") (auto simp: busy_def SimpleLruWaitIO_def)
      then show ?thesis using True Inr a s1(4) by auto
    next
      case False
      have "slot_of pageno s = None"
      proof (rule ccontr)
        assume "slot_of pageno s \<noteq> None"
        then show False using s1(3) False slot_of_Some[of pageno s i] by (auto simp: selected_def)
      qed
      then have re: "reusable pageno i s1" using s1(3) by (simp add: selected_def)
      let ?s2 = "s1\<lparr>page_number := (page_number s1)(i := pageno),
                        page_status := (page_status s1)(i := SLRU_PAGE_READ_IN_PROGRESS),
                        page_dirty := (page_dirty s1)(i := False)\<rparr>"
      obtain x where "disk_page s1 pageno = Some x" using reusable_disk[OF s1(1) re] p1 by auto
      then have "disk_page ?s2 pageno = Some x" by (simp add: disk_page_def segment_pages_def)
      then obtain s3 where "SlruPhysicalReadPage ctl pageno i ?s2 = Inr (True, s3)" "io_results s3 = []"
        using quiet_physical_read[of ?s2 pageno x ctl i] s1(4) by auto
      then show ?thesis using False Inr a by (auto simp: Let_def)
    qed
  qed
qed simp

lemma outcome_quiet:
  assumes "outcome_ok s Q r" "quiet r"
  obtains x s' where "r = Inr (x, s')" "slru_ok s'" "Q x s'" "io_results s' = []"
  using assms by (cases r) (auto simp: outcome_ok_def)

lemma quiet_read: "slru_ok s \<Longrightarrow> io_results s = [] \<Longrightarrow> page_of s p \<noteq> None \<Longrightarrow> quiet (SimpleLruReadPage ctl p w s)"
  by (simp add: SimpleLruReadPage_def quiet_read_loop)

lemma quiet_read_only:
  "slru_ok s \<Longrightarrow> io_results s = [] \<Longrightarrow> page_of s p \<noteq> None \<Longrightarrow> quiet (SimpleLruReadPage_ReadOnly ctl p s)"
  by (auto simp: SimpleLruReadPage_ReadOnly_def quiet_read split: option.splits)

lemma physical_read_io: "io_results s = [] \<Longrightarrow> SlruPhysicalReadPage ctl p i s = Inr (ok, s') \<Longrightarrow> io_results s' = []"
  by (auto simp: SlruPhysicalReadPage_def take_io_quiet Let_def split: option.splits if_splits)

lemma read_loop_io: "io_results s = [] \<Longrightarrow> read_loop n ctl p w s = Inr (i, s') \<Longrightarrow> io_results s' = []"
proof (induction n arbitrary: s)
  case (Suc n)
  show ?case
  proof (cases "SlruSelectLRUPage ctl p s")
    case (Inl a)
    then show ?thesis using Suc.prems by simp
  next
    case (Inr a)
    obtain j s1 where a: "a = (j, s1)" by (cases a)
    have io: "io_results s1 = []" using quiet_SelectLRU[OF Suc.prems(1), of ctl p] Inr a by simp
    have wait: "read_loop n ctl p w (SimpleLruWaitIO j s1) = Inr (i, s') \<Longrightarrow> io_results s' = []" using io by (intro Suc.IH) auto
    let ?s2 = "s1\<lparr>page_number := (page_number s1)(j := p),
                        page_status := (page_status s1)(j := SLRU_PAGE_READ_IN_PROGRESS),
                        page_dirty := (page_dirty s1)(j := False)\<rparr>"
    have read: "SlruPhysicalReadPage ctl p j ?s2 = Inr (ok, s3) \<Longrightarrow> io_results s3 = []" for ok s3
      by (rule physical_read_io[of ?s2]) (simp_all add: io)
    show ?thesis using Suc.prems(2) Inr a io wait read
      by (auto simp: Let_def split: if_splits sum.splits)
  qed
qed simp

lemma read_io: "io_results s = [] \<Longrightarrow> SimpleLruReadPage ctl p w s = Inr (i, s') \<Longrightarrow> io_results s' = []"
  unfolding SimpleLruReadPage_def by (rule read_loop_io)

lemma quiet_write_slots: "io_results s = [] \<Longrightarrow> quiet (write_slots ctl r slots f s)"
proof (induction ctl r slots f s rule: write_slots.induct)
  case (2 ctl r i slots f s)
  show ?case
  proof (cases "SlruInternalWritePage ctl i f s")
    case (Inl a)
    then show ?thesis using quiet_write[OF 2(2), of ctl i f] by (cases a) simp
  next
    case (Inr a)
    obtain f' s' where a: "a = (f', s')" by (cases a)
    then have "io_results s' = []" using quiet_write[OF 2(2), of ctl i f] Inr by simp
    then show ?thesis using 2(1) Inr a by auto
  qed
qed simp

lemma quiet_close: "io_results s = [] \<Longrightarrow> close_files segs ok s = (ok, s)"
  by (induction segs arbitrary: ok) (simp_all add: take_io_quiet)

lemma quiet_write_all: "io_results s = [] \<Longrightarrow> SimpleLruWriteAll ctl r s = Inl (e, s') \<Longrightarrow> \<not> io_error e"
  using quiet_write_slots[of s ctl r "[0..<num_slots s]" "Some []"]
  by (auto simp: SimpleLruWriteAll_def Let_def quiet_close take_io_quiet split: sum.splits if_splits option.splits)

end
