(* ===== verification/Xid_Shmem.thy ===== *)
theory Xid_Shmem
  imports Slru_Live Transam
begin

section \<open>Shared memory of the transaction-id modules\<close>

text \<open>
  The shared structures \<^verbatim>\<open>clog.c\<close>, \<^verbatim>\<open>subtrans.c\<close> and \<^verbatim>\<open>varsup.c\<close> work on: the page caches,
  \<^verbatim>\<open>ShmemVariableCache\<close> (transam.h), the fields of \<^verbatim>\<open>PGPROC\<close> (proc.h) that carry transaction ids, and
  the write-ahead log as the list of the records these modules insert.
\<close>

type_synonym Oid = "32 word"

record VariableCacheData =
  nextOid :: Oid
  oidCount :: "32 word"
  nextXid :: FullTransactionId
  oldestXid :: TransactionId
  xidVacLimit :: TransactionId
  xidWarnLimit :: TransactionId
  xidStopLimit :: TransactionId
  xidWrapLimit :: TransactionId
  oldestXidDB :: Oid
  oldestCommitTsXid :: TransactionId
  newestCommitTsXid :: TransactionId
  latestCompletedXid :: FullTransactionId
  xactCompletionCount :: "64 word"
  oldestClogXid :: TransactionId

text \<open>
  \<open>subxids\<close> are the first \<^verbatim>\<open>subxidStatus.count\<close> entries of the array, so its length is the count.
\<close>

record PGPROC =
  proc_xid :: TransactionId
  subxids :: "TransactionId list"
  overflowed :: bool
  clogGroupMember :: bool
  clogGroupMemberXid :: TransactionId
  clogGroupMemberXidStatus :: XidStatus
  clogGroupMemberPage :: nat
  clogGroupMemberLsn :: XLogRecPtr

datatype xlog_record =
    CLOG_ZEROPAGE nat | CLOG_TRUNCATE nat TransactionId Oid | XLOG_NEXTOID Oid | COMMIT_TS_ZEROPAGE nat

text \<open>
  \<open>clogGroup\<close> is the lock-free list that starts at \<^verbatim>\<open>procglobal->clogGroupFirst\<close> and is linked
  through \<^verbatim>\<open>clogGroupNext\<close>: processes push themselves at its head and the leader takes all of it.
  \<open>lock_results\<close> are the outcomes of the coming calls of \<^verbatim>\<open>LWLockConditionalAcquire\<close> (success
  when it is used up), \<open>joining\<close> the processes that push themselves onto the list before each
  coming point where this process touches it. WAL positions count records. \<open>notices\<close> are the
  requests for autovacuum sent to the postmaster and the warnings issued (database and number of ids left).
\<close>

datatype notice = PMSIGNAL_START_AUTOVAC_LAUNCHER | WARN_VACUUM_WITHIN Oid "32 word"

record Shmem =
  XactSlru :: SlruShared
  SubTransSlru :: SlruShared
  CommitTsSlru :: SlruShared
  commitTsActive :: bool
  ShmemVariableCache :: VariableCacheData
  allProcs :: "nat \<Rightarrow> PGPROC"
  MyProc :: nat
  clogGroup :: "nat list"
  lock_results :: "bool list"
  joining :: "nat list list"
  xlog :: "xlog_record list"
  xlog_end :: XLogRecPtr
  notices :: "notice list"

definition XLogInsert_record :: "xlog_record \<Rightarrow> Shmem \<Rightarrow> Shmem" where
  "XLogInsert_record rec s = s\<lparr>xlog := xlog s @ [rec], xlog_end := xlog_end s + 1\<rparr>"

text \<open>Running a page-cache routine on one of the caches.\<close>

definition on_xact :: "(SlruShared \<Rightarrow> (SlruShared, 'a) vres) \<Rightarrow> Shmem \<Rightarrow> (Shmem, 'a) vres" where
  "on_xact f s = (case f (XactSlru s) of
     Inl (e, x) \<Rightarrow> Inl (e, s\<lparr>XactSlru := x\<rparr>) | Inr (r, x) \<Rightarrow> Inr (r, s\<lparr>XactSlru := x\<rparr>))"

definition do_xact :: "SlruShared stmt \<Rightarrow> Shmem stmt" where
  "do_xact f s = (case f (XactSlru s) of
     Inl (e, x) \<Rightarrow> Inl (e, s\<lparr>XactSlru := x\<rparr>) | Inr x \<Rightarrow> Inr (s\<lparr>XactSlru := x\<rparr>))"

definition on_subtrans :: "(SlruShared \<Rightarrow> (SlruShared, 'a) vres) \<Rightarrow> Shmem \<Rightarrow> (Shmem, 'a) vres" where
  "on_subtrans f s = (case f (SubTransSlru s) of
     Inl (e, x) \<Rightarrow> Inl (e, s\<lparr>SubTransSlru := x\<rparr>) | Inr (r, x) \<Rightarrow> Inr (r, s\<lparr>SubTransSlru := x\<rparr>))"

definition do_subtrans :: "SlruShared stmt \<Rightarrow> Shmem stmt" where
  "do_subtrans f s = (case f (SubTransSlru s) of
     Inl (e, x) \<Rightarrow> Inl (e, s\<lparr>SubTransSlru := x\<rparr>) | Inr x \<Rightarrow> Inr (s\<lparr>SubTransSlru := x\<rparr>))"

definition on_commit_ts :: "(SlruShared \<Rightarrow> (SlruShared, 'a) vres) \<Rightarrow> Shmem \<Rightarrow> (Shmem, 'a) vres" where
  "on_commit_ts f s = (case f (CommitTsSlru s) of
     Inl (e, x) \<Rightarrow> Inl (e, s\<lparr>CommitTsSlru := x\<rparr>) | Inr (r, x) \<Rightarrow> Inr (r, s\<lparr>CommitTsSlru := x\<rparr>))"

definition AdvanceOldestClogXid :: "TransactionId \<Rightarrow> Shmem \<Rightarrow> Shmem" where
  "AdvanceOldestClogXid oldest_datfrozenxid s =
     (if TransactionIdPrecedes (oldestClogXid (ShmemVariableCache s)) oldest_datfrozenxid
      then s\<lparr>ShmemVariableCache := (ShmemVariableCache s)\<lparr>oldestClogXid := oldest_datfrozenxid\<rparr>\<rparr> else s)"

subsection \<open>Changing a loaded page\<close>

text \<open>
  What the clients of the cache do between reading a page and releasing the lock: change the
  bytes of the slot, and the LSNs that belong to it, and mark it dirty.
\<close>

definition stored :: "nat \<Rightarrow> page \<Rightarrow> SlruShared \<Rightarrow> SlruShared \<Rightarrow> bool" where
  "stored i b s s' \<longleftrightarrow> num_slots s' = num_slots s \<and> lsn_groups_per_page s' = lsn_groups_per_page s \<and>
     flushed s' = flushed s \<and> page_status s' = page_status s \<and> page_number s' = page_number s \<and>
     files s' = files s \<and> page_buffer s' = (page_buffer s)(i := b) \<and> (\<forall>j. j \<noteq> i \<longrightarrow> page_dirty s' j = page_dirty s j \<and>
       (lsns_flushed s j \<longrightarrow> lsns_flushed s' j))"

lemma stored_trans: "stored i b s s' \<Longrightarrow> stored i b' s' s'' \<Longrightarrow> stored i b' s s''"
  by (simp add: stored_def)

lemma stored_refl: "stored i (page_buffer s i) s s"
  by (simp add: stored_def)

lemma lsns_flushed_dirty [simp]: "lsns_flushed (s\<lparr>page_dirty := d\<rparr>) j = lsns_flushed s j"
  by (simp add: lsns_flushed_def)

lemma stored_dirty: "stored i b s s' \<Longrightarrow> stored i b s (s'\<lparr>page_dirty := (page_dirty s')(i := d)\<rparr>)"
  by (simp add: stored_def)

lemma stored_page_of:
  assumes "unique_pages s" "i < num_slots s" "loaded s i" "stored i b s s'"
  shows "page_of s' = (page_of s)(page_number s i := Some b)"
proof (rule ext)
  fix p
  have l: "loaded s' = loaded s" using assms(4) by (simp add: loaded_def stored_def fun_eq_iff)
  have d: "disk_page s' = disk_page s" using assms(4) by (simp add: disk_page_def segment_pages_def stored_def fun_eq_iff)
  have u: "unique_pages s'" using assms(1,4) by (simp add: unique_pages_def stored_def)
  note st = assms(4)[unfolded stored_def]
  show "page_of s' p = ((page_of s)(page_number s i := Some b)) p"
  proof (cases "\<exists>j < num_slots s. loaded s j \<and> page_number s j = p")
    case True
    then obtain j where j: "j < num_slots s" "loaded s j" "page_number s j = p" by blast
    have "p = page_number s i \<Longrightarrow> j = i" using assms(1,2,3) j by (auto simp: unique_pages_def loaded_def)
    then show ?thesis using page_of_slot[OF assms(1) j(1,2)] page_of_slot[OF u, of j] j st l by auto
  next
    case False
    then have "page_of s p = disk_page s p" "page_of s' p = disk_page s' p" "p \<noteq> page_number s i"
      using assms(2,3) l st by (auto intro!: page_of_disk)
    then show ?thesis using d by simp
  qed
qed

lemma stored_ok:
  assumes "slru_ok s" "i < num_slots s" "loaded s i" "stored i b s s'" "length b = BLCKSZ" "page_dirty s' i"
  shows "slru_ok s'"
proof -
  have l: "loaded s' = loaded s" using assms(4) by (simp add: loaded_def stored_def fun_eq_iff)
  have d: "disk_page s' = disk_page s" using assms(4) by (simp add: disk_page_def segment_pages_def stored_def fun_eq_iff)
  note st = assms(4)[unfolded stored_def]
  have "slot_ok s' j" if "j < num_slots s" for j
    using slru_okD(3)[OF assms(1) that] assms(3,5,6) st by (cases "j = i") (auto simp: slot_ok_def l d)
  then show ?thesis using assms(1) st by (simp add: slru_ok_def unique_pages_def disk_ok_def d)
qed

end
