(* ===== verification/Clog.thy ===== *)
theory Clog
  imports Xid_Shmem
begin

section \<open>The commit log (clog.c)\<close>

text \<open>
  Two status bits per transaction in the pages of the \<^verbatim>\<open>pg_xact\<close> cache: reading and setting
  them, setting a whole transaction tree page by page, the group update, and the start-up,
  extension, truncation and replay routines. Locks are not part of the state; the routines
  whose effect depends on what other processes do take it from \<open>lock_results\<close> and \<open>joining\<close>.
\<close>

definition CLOG_XACTS_PER_BYTE :: nat where "CLOG_XACTS_PER_BYTE = 4"
definition CLOG_BITS_PER_XACT :: nat where "CLOG_BITS_PER_XACT = 2"
definition CLOG_XACTS_PER_PAGE :: nat where "CLOG_XACTS_PER_PAGE = BLCKSZ * CLOG_XACTS_PER_BYTE"
definition CLOG_XACT_BITMASK :: "8 word" where "CLOG_XACT_BITMASK = push_bit CLOG_BITS_PER_XACT 1 - 1"
definition CLOG_XACTS_PER_LSN_GROUP :: nat where "CLOG_XACTS_PER_LSN_GROUP = 32"
definition CLOG_LSNS_PER_PAGE :: nat where "CLOG_LSNS_PER_PAGE = CLOG_XACTS_PER_PAGE div CLOG_XACTS_PER_LSN_GROUP"
definition THRESHOLD_SUBTRANS_CLOG_OPT :: nat where "THRESHOLD_SUBTRANS_CLOG_OPT = 5"

definition TransactionIdToPage :: "TransactionId \<Rightarrow> nat" where
  "TransactionIdToPage xid = unat xid div CLOG_XACTS_PER_PAGE"

definition TransactionIdToPgIndex :: "TransactionId \<Rightarrow> nat" where
  "TransactionIdToPgIndex xid = unat xid mod CLOG_XACTS_PER_PAGE"

definition TransactionIdToByte :: "TransactionId \<Rightarrow> nat" where
  "TransactionIdToByte xid = TransactionIdToPgIndex xid div CLOG_XACTS_PER_BYTE"

definition TransactionIdToBIndex :: "TransactionId \<Rightarrow> nat" where
  "TransactionIdToBIndex xid = unat xid mod CLOG_XACTS_PER_BYTE"

definition GetLSNIndex :: "nat \<Rightarrow> TransactionId \<Rightarrow> nat" where
  "GetLSNIndex slotno xid =
     slotno * CLOG_LSNS_PER_PAGE + unat xid mod CLOG_XACTS_PER_PAGE div CLOG_XACTS_PER_LSN_GROUP"

text \<open>The values of \<^verbatim>\<open>TRANSACTION_STATUS_*\<close> (clog.h) and the status a pair of bits stands for.\<close>

fun status_code :: "XidStatus \<Rightarrow> 8 word" where
  "status_code TRANSACTION_STATUS_IN_PROGRESS = 0"
| "status_code TRANSACTION_STATUS_COMMITTED = 1"
| "status_code TRANSACTION_STATUS_ABORTED = 2"
| "status_code TRANSACTION_STATUS_SUB_COMMITTED = 3"

definition status_of :: "8 word \<Rightarrow> XidStatus" where
  "status_of w = (if w = 0 then TRANSACTION_STATUS_IN_PROGRESS else if w = 1 then TRANSACTION_STATUS_COMMITTED
     else if w = 2 then TRANSACTION_STATUS_ABORTED else TRANSACTION_STATUS_SUB_COMMITTED)"

definition CLOGPagePrecedes :: "nat \<Rightarrow> nat \<Rightarrow> bool" where
  "CLOGPagePrecedes page1 page2 =
     (let xid1 = (of_nat page1 :: TransactionId) * of_nat CLOG_XACTS_PER_PAGE + (FirstNormalTransactionId + 1);
          xid2 = (of_nat page2 :: TransactionId) * of_nat CLOG_XACTS_PER_PAGE + (FirstNormalTransactionId + 1) in
      TransactionIdPrecedes xid1 xid2 \<and> TransactionIdPrecedes xid1 (xid2 + of_nat CLOG_XACTS_PER_PAGE - 1))"

definition XactCtl :: "bool \<Rightarrow> bool \<Rightarrow> SlruCtl" where
  "XactCtl in_recovery retry =
     \<lparr>PagePrecedes = CLOGPagePrecedes, syncs = True, InRecovery = in_recovery, data_sync_retry = retry\<rparr>"

definition CLOGShmemBuffers :: "nat \<Rightarrow> nat" where
  "CLOGShmemBuffers NBuffers = min 128 (max 4 (NBuffers div 512))"

definition CLOGShmemInit :: "nat \<Rightarrow> Shmem \<Rightarrow> Shmem" where
  "CLOGShmemInit NBuffers s =
     s\<lparr>XactSlru := SimpleLruInit (CLOGShmemBuffers NBuffers) CLOG_LSNS_PER_PAGE (XactSlru s)\<rparr>"

subsection \<open>Reading and setting the status bits\<close>

definition TransactionIdSetStatusBit :: "SlruCtl \<Rightarrow> TransactionId \<Rightarrow> XidStatus \<Rightarrow> XLogRecPtr \<Rightarrow> nat \<Rightarrow> SlruShared stmt" where
  "TransactionIdSetStatusBit ctl xid status lsn slotno s =
     (let byteno = TransactionIdToByte xid;
          bshift = TransactionIdToBIndex xid * CLOG_BITS_PER_XACT;
          byteptr = page_buffer s slotno ! byteno;
          curval = and (drop_bit bshift byteptr) CLOG_XACT_BITMASK in
      if InRecovery ctl \<and> status = TRANSACTION_STATUS_SUB_COMMITTED \<and>
         curval = status_code TRANSACTION_STATUS_COMMITTED
      then Inr s
      else if \<not> (curval = 0 \<or>
                 curval = status_code TRANSACTION_STATUS_SUB_COMMITTED \<and> status \<noteq> TRANSACTION_STATUS_IN_PROGRESS \<or>
                 curval = status_code status)
      then Inl (AssertFail ''state change from 0 or subcommitted'', s)
      else
        let byteval = and byteptr (not (push_bit bshift (push_bit CLOG_BITS_PER_XACT 1 - 1)));
            byteval = or byteval (push_bit bshift (status_code status));
            s1 = s\<lparr>page_buffer := (page_buffer s)(slotno := (page_buffer s slotno)[byteno := byteval])\<rparr> in
        if lsn \<noteq> 0
        then
          let lsnindex = GetLSNIndex slotno xid in
          if group_lsn s1 lsnindex < lsn then Inr (s1\<lparr>group_lsn := (group_lsn s1)(lsnindex := lsn)\<rparr>) else Inr s1
        else Inr s1)"

definition TransactionIdGetStatus :: "SlruCtl \<Rightarrow> TransactionId \<Rightarrow> Shmem \<Rightarrow> (Shmem, XidStatus \<times> XLogRecPtr) vres" where
  "TransactionIdGetStatus ctl xid s =
     (let pageno = TransactionIdToPage xid;
          byteno = TransactionIdToByte xid;
          bshift = TransactionIdToBIndex xid * CLOG_BITS_PER_XACT in
      case on_xact (SimpleLruReadPage_ReadOnly ctl pageno) s of
        Inl e \<Rightarrow> Inl e
      | Inr (slotno, s1) \<Rightarrow>
          Inr ((status_of (and (drop_bit bshift (page_buffer (XactSlru s1) slotno ! byteno)) CLOG_XACT_BITMASK),
                group_lsn (XactSlru s1) (GetLSNIndex slotno xid)), s1))"

subsection \<open>Setting the status of the entries on a page\<close>

text \<open>A loop over subtransactions: the assertion on the page, then the bits.\<close>

fun set_sub_bits :: "SlruCtl \<Rightarrow> TransactionId list \<Rightarrow> XidStatus \<Rightarrow> XLogRecPtr \<Rightarrow> nat \<Rightarrow> SlruShared stmt" where
  "set_sub_bits ctl [] status lsn slotno s = Inr s"
| "set_sub_bits ctl (x # xs) status lsn slotno s =
     (if page_number s slotno \<noteq> TransactionIdToPage x then Inl (AssertFail ''subxid on the page'', s)
      else (case TransactionIdSetStatusBit ctl x status lsn slotno s of
              Inl e \<Rightarrow> Inl e | Inr s' \<Rightarrow> set_sub_bits ctl xs status lsn slotno s'))"

definition TransactionIdSetPageStatusInternal ::
    "SlruCtl \<Rightarrow> TransactionId \<Rightarrow> TransactionId list \<Rightarrow> XidStatus \<Rightarrow> XLogRecPtr \<Rightarrow> nat \<Rightarrow> SlruShared stmt" where
  "TransactionIdSetPageStatusInternal ctl xid subs status lsn pageno s =
     (if \<not> (status = TRANSACTION_STATUS_COMMITTED \<or> status = TRANSACTION_STATUS_ABORTED \<or>
            status = TRANSACTION_STATUS_SUB_COMMITTED \<and> \<not> TransactionIdIsValid xid)
      then Inl (AssertFail ''status'', s)
      else (case SimpleLruReadPage ctl pageno (lsn = 0) s of
        Inl e \<Rightarrow> Inl e
      | Inr (slotno, s1) \<Rightarrow>
          seq [when_do (\<lambda>s. TransactionIdIsValid xid)
                 (seq [when_do (\<lambda>s. status = TRANSACTION_STATUS_COMMITTED)
                         (set_sub_bits ctl subs TRANSACTION_STATUS_SUB_COMMITTED lsn slotno),
                       TransactionIdSetStatusBit ctl xid status lsn slotno]),
               set_sub_bits ctl subs status lsn slotno,
               upd (\<lambda>s. s\<lparr>page_dirty := (page_dirty s)(slotno := True)\<rparr>)] s1))"

subsection \<open>Group update\<close>

text \<open>
  \<open>group_join\<close> is the compare-and-exchange loop: an attempt fails when other processes pushed
  themselves onto the list since it was read, and the process gives up when the head of the list
  waits for another page. The result is \<open>None\<close> for giving up and otherwise tells whether the list
  was empty, which makes the process the leader.
\<close>

fun group_join :: "nat \<Rightarrow> nat list list \<Rightarrow> Shmem \<Rightarrow> bool option \<times> Shmem" where
  "group_join me [] s =
     (if clogGroup s \<noteq> [] \<and> clogGroupMemberPage (allProcs s (hd (clogGroup s))) \<noteq> clogGroupMemberPage (allProcs s me)
      then (None, s\<lparr>allProcs := (allProcs s)(me := (allProcs s me)\<lparr>clogGroupMember := False\<rparr>), joining := []\<rparr>)
      else (Some (clogGroup s = []), s\<lparr>clogGroup := me # clogGroup s, joining := []\<rparr>))"
| "group_join me (js # jss) s =
     (if clogGroup s \<noteq> [] \<and> clogGroupMemberPage (allProcs s (hd (clogGroup s))) \<noteq> clogGroupMemberPage (allProcs s me)
      then (None, s\<lparr>allProcs := (allProcs s)(me := (allProcs s me)\<lparr>clogGroupMember := False\<rparr>), joining := js # jss\<rparr>)
      else if js = [] then (Some (clogGroup s = []), s\<lparr>clogGroup := me # clogGroup s, joining := jss\<rparr>)
      else group_join me jss (s\<lparr>clogGroup := rev js @ clogGroup s\<rparr>))"

fun group_walk :: "SlruCtl \<Rightarrow> nat list \<Rightarrow> Shmem stmt" where
  "group_walk ctl [] s = Inr s"
| "group_walk ctl (p # ps) s =
     (let proc = allProcs s p in
      if length (subxids proc) > THRESHOLD_SUBTRANS_CLOG_OPT then Inl (AssertFail ''too many subxids'', s)
      else (case do_xact (TransactionIdSetPageStatusInternal ctl (clogGroupMemberXid proc) (subxids proc)
                   (clogGroupMemberXidStatus proc) (clogGroupMemberLsn proc) (clogGroupMemberPage proc)) s of
              Inl e \<Rightarrow> Inl e | Inr s' \<Rightarrow> group_walk ctl ps s'))"

definition group_wake :: "nat list \<Rightarrow> Shmem \<Rightarrow> Shmem" where
  "group_wake ps s = foldl (\<lambda>s p. s\<lparr>allProcs := (allProcs s)(p := (allProcs s p)\<lparr>clogGroupMember := False\<rparr>)\<rparr>) s ps"

text \<open>
  The leader's part; more processes may arrive until it has the lock. A process that is not the
  leader sleeps until the leader has done this part for the list the process is on.
\<close>

definition group_lead :: "SlruCtl \<Rightarrow> Shmem stmt" where
  "group_lead ctl s =
     (let late = (case joining s of [] \<Rightarrow> [] | js # jss \<Rightarrow> js);
          members = rev late @ clogGroup s in
      case group_walk ctl members (s\<lparr>clogGroup := [], joining := tl (joining s)\<rparr>) of
        Inl e \<Rightarrow> Inl e | Inr s1 \<Rightarrow> Inr (group_wake members s1))"

definition TransactionGroupUpdateXidStatus ::
    "SlruCtl \<Rightarrow> TransactionId \<Rightarrow> XidStatus \<Rightarrow> XLogRecPtr \<Rightarrow> nat \<Rightarrow> Shmem \<Rightarrow> (Shmem, bool) vres" where
  "TransactionGroupUpdateXidStatus ctl xid status lsn pageno s =
     (if \<not> TransactionIdIsValid xid then Inl (AssertFail ''xid'', s)
      else
        let me = MyProc s;
            s1 = s\<lparr>allProcs := (allProcs s)(me := (allProcs s me)\<lparr>clogGroupMember := True, clogGroupMemberXid := xid,
                     clogGroupMemberXidStatus := status, clogGroupMemberPage := pageno, clogGroupMemberLsn := lsn\<rparr>)\<rparr> in
        case group_join me (joining s1) s1 of
          (None, s2) \<Rightarrow> Inr (False, s2)
        | (Some leader, s2) \<Rightarrow> (case group_lead ctl s2 of Inl e \<Rightarrow> Inl e | Inr s3 \<Rightarrow> Inr (True, s3)))"

definition LWLockConditionalAcquire :: "Shmem \<Rightarrow> bool \<times> Shmem" where
  "LWLockConditionalAcquire s =
     (case lock_results s of [] \<Rightarrow> (True, s) | r # rs \<Rightarrow> (r, s\<lparr>lock_results := rs\<rparr>))"

definition TransactionIdSetPageStatus ::
    "SlruCtl \<Rightarrow> TransactionId \<Rightarrow> TransactionId list \<Rightarrow> XidStatus \<Rightarrow> XLogRecPtr \<Rightarrow> nat \<Rightarrow> bool \<Rightarrow> Shmem stmt" where
  "TransactionIdSetPageStatus ctl xid subs status lsn pageno all_xact_same_page s =
     (let proc = allProcs s (MyProc s); alone = do_xact (TransactionIdSetPageStatusInternal ctl xid subs status lsn pageno) in
      if all_xact_same_page \<and> xid = proc_xid proc \<and> length subs \<le> THRESHOLD_SUBTRANS_CLOG_OPT \<and>
         length subs = length (subxids proc) \<and> (subs = [] \<or> subs = subxids proc)
      then
        let (got, s1) = LWLockConditionalAcquire s in
        if got then alone s1
        else (case TransactionGroupUpdateXidStatus ctl xid status lsn pageno s1 of
                Inl e \<Rightarrow> Inl e
              | Inr (updated, s2) \<Rightarrow> if updated then Inr s2 else alone s2)
      else alone s)"

subsection \<open>Setting the status of a transaction tree\<close>

text \<open>
  The loop over the pages of the subtransactions; \<open>pageno\<close> is the page of the next chunk.
\<close>

function status_pages_loop ::
    "SlruCtl \<Rightarrow> nat \<Rightarrow> TransactionId list \<Rightarrow> XidStatus \<Rightarrow> XLogRecPtr \<Rightarrow> Shmem stmt" where
  "status_pages_loop ctl pageno subs status lsn s =
     (if subs = [] then Inr s
      else
        let on_page = takeWhile (\<lambda>x. TransactionIdToPage x = pageno) subs;
            rest = dropWhile (\<lambda>x. TransactionIdToPage x = pageno) subs in
        case TransactionIdSetPageStatus ctl InvalidTransactionId on_page status lsn pageno False s of
          Inl e \<Rightarrow> Inl e
        | Inr s' \<Rightarrow>
            status_pages_loop ctl (if rest = [] then pageno else TransactionIdToPage (hd rest)) rest status lsn s')"
  by pat_completeness auto
termination
proof (relation "measures [\<lambda>(ctl, pageno, subs, status, lsn, s). length subs,
    \<lambda>(ctl, pageno, subs, status, lsn, s). if subs \<noteq> [] \<and> TransactionIdToPage (hd subs) = pageno then 0 else 1]", goal_cases)
  case (2 ctl pageno subs status lsn s on_page rest s')
  then show ?case using length_dropWhile_le[of "\<lambda>x. TransactionIdToPage x = pageno" subs] by (cases subs) (auto simp: less_Suc_eq_le length_dropWhile_le)
qed simp

declare status_pages_loop.simps [simp del]

definition set_status_by_pages :: "SlruCtl \<Rightarrow> TransactionId list \<Rightarrow> XidStatus \<Rightarrow> XLogRecPtr \<Rightarrow> Shmem stmt" where
  "set_status_by_pages ctl subs status lsn s =
     (if subs = [] then Inl (AssertFail ''nsubxids > 0'', s)
      else status_pages_loop ctl (TransactionIdToPage (hd subs)) subs status lsn s)"

definition TransactionIdSetTreeStatus ::
    "SlruCtl \<Rightarrow> TransactionId \<Rightarrow> TransactionId list \<Rightarrow> XidStatus \<Rightarrow> XLogRecPtr \<Rightarrow> Shmem stmt" where
  "TransactionIdSetTreeStatus ctl xid subs status lsn s =
     (let pageno = TransactionIdToPage xid;
          first = takeWhile (\<lambda>x. TransactionIdToPage x = pageno) subs;
          others = dropWhile (\<lambda>x. TransactionIdToPage x = pageno) subs in
      if \<not> (status = TRANSACTION_STATUS_COMMITTED \<or> status = TRANSACTION_STATUS_ABORTED)
      then Inl (AssertFail ''status'', s)
      else if length first = length subs
      then TransactionIdSetPageStatus ctl xid subs status lsn pageno True s
      else
        seq [when_do (\<lambda>s. status = TRANSACTION_STATUS_COMMITTED)
               (set_status_by_pages ctl others TRANSACTION_STATUS_SUB_COMMITTED lsn),
             TransactionIdSetPageStatus ctl xid first status lsn pageno False,
             set_status_by_pages ctl others status lsn] s)"

subsection \<open>Start-up, extension, truncation and replay\<close>

definition WriteZeroPageXlogRec :: "nat \<Rightarrow> Shmem \<Rightarrow> Shmem" where
  "WriteZeroPageXlogRec pageno s = XLogInsert_record (CLOG_ZEROPAGE pageno) s"

definition WriteTruncateXlogRec :: "nat \<Rightarrow> TransactionId \<Rightarrow> Oid \<Rightarrow> Shmem \<Rightarrow> Shmem" where
  "WriteTruncateXlogRec pageno oldestXact oldestXactDb s =
     (let s1 = XLogInsert_record (CLOG_TRUNCATE pageno oldestXact oldestXactDb) s in
      s1\<lparr>XactSlru := XLogFlush_to (xlog_end s1) (XactSlru s1)\<rparr>)"

definition ZeroCLOGPage :: "SlruCtl \<Rightarrow> nat \<Rightarrow> bool \<Rightarrow> Shmem \<Rightarrow> (Shmem, nat) vres" where
  "ZeroCLOGPage ctl pageno writeXlog s =
     (case on_xact (SimpleLruZeroPage ctl pageno) s of
        Inl e \<Rightarrow> Inl e
      | Inr (slotno, s1) \<Rightarrow> Inr (slotno, if writeXlog then WriteZeroPageXlogRec pageno s1 else s1))"

definition zero_and_write :: "SlruCtl \<Rightarrow> nat \<Rightarrow> Shmem stmt" where
  "zero_and_write ctl pageno =
     let_do (ZeroCLOGPage ctl pageno False)
       (\<lambda>slotno. seq [do_xact (SimpleLruWritePage ctl slotno),
                      assert_that ''page written'' (\<lambda>s. \<not> page_dirty (XactSlru s) slotno)])"

definition BootStrapCLOG :: "SlruCtl \<Rightarrow> Shmem stmt" where
  "BootStrapCLOG ctl = zero_and_write ctl 0"

definition StartupCLOG :: "Shmem \<Rightarrow> Shmem" where
  "StartupCLOG s = (let xid = XidFromFullTransactionId (nextXid (ShmemVariableCache s)) in
     s\<lparr>XactSlru := (XactSlru s)\<lparr>latest_page_number := TransactionIdToPage xid\<rparr>\<rparr>)"

definition TrimCLOG :: "SlruCtl \<Rightarrow> Shmem stmt" where
  "TrimCLOG ctl s =
     (let xid = XidFromFullTransactionId (nextXid (ShmemVariableCache s)); pageno = TransactionIdToPage xid in
      if TransactionIdToPgIndex xid \<noteq> 0 then
        let byteno = TransactionIdToByte xid;
            bshift = TransactionIdToBIndex xid * CLOG_BITS_PER_XACT in
        let_do (on_xact (SimpleLruReadPage ctl pageno False))
          (\<lambda>slotno. upd (\<lambda>s.
             let x = XactSlru s; buf = page_buffer x slotno;
                 trimmed = take byteno buf @ [and (buf ! byteno) (push_bit bshift 1 - 1)] @ replicate (BLCKSZ - byteno - 1) 0 in
             s\<lparr>XactSlru := x\<lparr>page_buffer := (page_buffer x)(slotno := trimmed),
                            page_dirty := (page_dirty x)(slotno := True)\<rparr>\<rparr>)) s
      else Inr s)"

definition CheckPointCLOG :: "SlruCtl \<Rightarrow> Shmem stmt" where
  "CheckPointCLOG ctl = do_xact (SimpleLruWriteAll ctl True)"

definition ExtendCLOG :: "SlruCtl \<Rightarrow> TransactionId \<Rightarrow> Shmem stmt" where
  "ExtendCLOG ctl newestXact s =
     (if TransactionIdToPgIndex newestXact \<noteq> 0 \<and> newestXact \<noteq> FirstNormalTransactionId then Inr s
      else let_do (ZeroCLOGPage ctl (TransactionIdToPage newestXact) True) (\<lambda>slotno. upd id) s)"

definition TruncateCLOG :: "SlruCtl \<Rightarrow> TransactionId \<Rightarrow> Oid \<Rightarrow> Shmem stmt" where
  "TruncateCLOG ctl oldestXact oldestxid_datoid s =
     (let cutoffPage = TransactionIdToPage oldestXact in
      if \<not> fst (SlruScanDirectory (SlruScanDirCbReportPresence ctl cutoffPage) (map fst (files (XactSlru s))) (XactSlru s))
      then Inr s
      else seq [upd (AdvanceOldestClogXid oldestXact),
                upd (WriteTruncateXlogRec cutoffPage oldestXact oldestxid_datoid),
                do_xact (SimpleLruTruncate ctl cutoffPage)] s)"

fun clog_redo :: "SlruCtl \<Rightarrow> xlog_record \<Rightarrow> Shmem stmt" where
  "clog_redo ctl (CLOG_ZEROPAGE pageno) s = zero_and_write ctl pageno s"
| "clog_redo ctl (CLOG_TRUNCATE pageno oldestXact oldestXactDb) s =
     seq [upd (AdvanceOldestClogXid oldestXact), do_xact (SimpleLruTruncate ctl pageno)] s"
| "clog_redo ctl _ s = Inl (PANIC ''clog_redo: unknown op code'', s)"

end
