(* ===== verification/Clog_Bits.thy ===== *)
theory Clog_Bits
  imports Clog
begin

section \<open>The commit log as a map\<close>

text \<open>
  What the pages of \<^verbatim>\<open>pg_xact\<close> say about each transaction id, and that writing the two bits of one
  id changes the map at that id only. Steps of the cache that keep the pages keep the map.
\<close>

subsection \<open>Two bits of a byte\<close>

lemma bitmask [simp]: "CLOG_XACT_BITMASK = mask 2"
  by (simp add: CLOG_XACT_BITMASK_def CLOG_BITS_PER_XACT_def mask_eq_exp_minus_1)

definition get_bits :: "nat \<Rightarrow> 8 word \<Rightarrow> 8 word" where
  "get_bits k w = and (drop_bit (k * 2) w) (mask 2)"

definition set_bits :: "nat \<Rightarrow> 8 word \<Rightarrow> 8 word \<Rightarrow> 8 word" where
  "set_bits k v w = or (and w (not (push_bit (k * 2) (mask 2)))) (push_bit (k * 2) v)"

lemma get_set_bits:
  assumes "k < 4" "j < 4" "take_bit 2 v = v"
  shows "get_bits j (set_bits k v w) = (if j = k then v else get_bits j w)"
proof (rule bit_eqI)
  fix n assume "possible_bit TYPE(8 word) n"
  have v: "bit v n \<longleftrightarrow> n < 2 \<and> bit v n" for n by (metis assms(3) bit_take_bit_iff)
  have "j * 2 + n < 8" if "n < 2" using that assms(2) by linarith
  then show "bit (get_bits j (set_bits k v w)) n = bit (if j = k then v else get_bits j w) n"
    using assms(1,2) v[of n] v[of "j * 2 + n - k * 2"]
    by (auto simp: get_bits_def set_bits_def bit_simps)
qed

lemma take_bit_code [simp]: "take_bit 2 (status_code st) = status_code st"
  by (cases st) simp_all

lemma status_of_code [simp]: "status_of (status_code st) = st"
  by (cases st) (simp_all add: status_of_def)

lemma status_code_of:
  assumes "take_bit 2 w = w"
  shows "status_code (status_of w) = w"
proof -
  have "unat (take_bit 2 w) < 4" by (simp add: take_bit_eq_mod unat_mod)
  then have "unat w < 4" by (simp only: assms)
  then have "unat w = 0 \<or> unat w = 1 \<or> unat w = 2 \<or> unat w = 3" by linarith
  then have "w = 0 \<or> w = 1 \<or> w = 2 \<or> w = 3" by (simp add: word_unat_eq_iff)
  then show ?thesis by (auto simp: status_of_def)
qed

lemma take_bit_get [simp]: "take_bit 2 (get_bits k w) = get_bits k w"
  by (simp add: get_bits_def flip: take_bit_eq_mask)


subsection \<open>A page\<close>

definition page_bits :: "page \<Rightarrow> TransactionId \<Rightarrow> XidStatus" where
  "page_bits b xid = status_of (get_bits (TransactionIdToBIndex xid) (b ! TransactionIdToByte xid))"

definition write_bits :: "TransactionId \<Rightarrow> XidStatus \<Rightarrow> page \<Rightarrow> page" where
  "write_bits xid st b =
     b[TransactionIdToByte xid := set_bits (TransactionIdToBIndex xid) (status_code st) (b ! TransactionIdToByte xid)]"

lemmas clog_consts = CLOG_XACTS_PER_PAGE_def CLOG_XACTS_PER_BYTE_def BLCKSZ_def CLOG_LSNS_PER_PAGE_def
  CLOG_XACTS_PER_LSN_GROUP_def

lemma byte_in_page [simp]: "TransactionIdToByte xid < BLCKSZ"
  by (simp add: TransactionIdToByte_def TransactionIdToPgIndex_def clog_consts less_mult_imp_div_less)

lemma bindex_less [simp]: "TransactionIdToBIndex xid < 4"
  by (simp add: TransactionIdToBIndex_def clog_consts)

lemma entry_unique:
  assumes "TransactionIdToPage x = TransactionIdToPage y" "TransactionIdToByte x = TransactionIdToByte y"
    "TransactionIdToBIndex x = TransactionIdToBIndex y"
  shows "x = y"
proof -
  have pos: "unat z = TransactionIdToPage z * 32768 + TransactionIdToByte z * 4 + TransactionIdToBIndex z" for z
  proof -
    have "unat z = unat z div 32768 * 32768 + unat z mod 32768" by simp
    moreover have "unat z mod 32768 = unat z mod 32768 div 4 * 4 + unat z mod 32768 mod 4" by simp
    moreover have "unat z mod 32768 mod 4 = unat z mod 4" by (simp add: mod_mod_cancel)
    ultimately have "unat z = unat z div 32768 * 32768 + unat z mod 32768 div 4 * 4 + unat z mod 4" by linarith
    then show ?thesis
      by (simp add: TransactionIdToPage_def TransactionIdToByte_def TransactionIdToPgIndex_def TransactionIdToBIndex_def clog_consts)
  qed
  have "unat x = unat y" unfolding pos using assms by simp
  then show ?thesis by (rule unat_eqD)
qed

lemma write_bits_length [simp]: "length (write_bits xid st b) = length b"
  by (simp add: write_bits_def)

lemma page_write_bits:
  assumes "length b = BLCKSZ" "TransactionIdToPage x = TransactionIdToPage y"
  shows "page_bits (write_bits x st b) y = (if y = x then st else page_bits b y)"
proof (cases "TransactionIdToByte y = TransactionIdToByte x")
  case True
  then have "TransactionIdToBIndex y = TransactionIdToBIndex x \<Longrightarrow> y = x" using entry_unique assms(2) by metis
  then show ?thesis using True assms(1) by (auto simp: page_bits_def write_bits_def get_set_bits)
next
  case False
  then have "y \<noteq> x" by auto
  then show ?thesis using False by (simp add: page_bits_def write_bits_def)
qed

lemma page_bits_zero: "page_bits zero_page xid = TRANSACTION_STATUS_IN_PROGRESS"
  by (simp add: page_bits_def zero_page_def get_bits_def status_of_def)


subsection \<open>The map\<close>

definition xact_view :: "SlruShared \<Rightarrow> clog" where
  "xact_view s xid = (case page_of s (TransactionIdToPage xid) of
     None \<Rightarrow> TRANSACTION_STATUS_IN_PROGRESS | Some b \<Rightarrow> page_bits b xid)"

lemma xact_view_grown: "grown (page_of s (TransactionIdToPage xid)) (page_of s' (TransactionIdToPage xid)) \<Longrightarrow> xact_view s' xid = xact_view s xid"
  by (auto simp: grown_def xact_view_def page_bits_zero)

lemma xact_view_keeps: "keeps_pages s s' \<Longrightarrow> xact_view s' = xact_view s"
  by (rule ext) (simp add: keeps_pages_def xact_view_grown)

lemma xact_view_stored:
  assumes "unique_pages s" "i < num_slots s" "loaded s i" "stored i (write_bits xid st (page_buffer s i)) s s'"
    "length (page_buffer s i) = BLCKSZ" "page_number s i = TransactionIdToPage xid"
  shows "xact_view s' = (xact_view s)(xid := st)"
proof (rule ext)
  fix y
  show "xact_view s' y = ((xact_view s)(xid := st)) y"
    using stored_page_of[OF assms(1-4)] page_of_slot[OF assms(1-3)] page_write_bits[OF assms(5), of xid y st] assms(6)
    by (auto simp: xact_view_def)
qed

text \<open>One call of the bit setter on a slot that holds the page of the id.\<close>

definition holds :: "SlruShared \<Rightarrow> nat \<Rightarrow> nat \<Rightarrow> bool" where
  "holds s i p \<longleftrightarrow> i < num_slots s \<and> loaded s i \<and> page_number s i = p \<and> lsn_groups_per_page s = CLOG_LSNS_PER_PAGE \<and>
     unique_pages s \<and> length (page_buffer s i) = BLCKSZ"

definition may_become :: "XidStatus \<Rightarrow> XidStatus \<Rightarrow> bool" where
  "may_become cur st \<longleftrightarrow> cur = TRANSACTION_STATUS_IN_PROGRESS \<or> cur = TRANSACTION_STATUS_SUB_COMMITTED \<or> cur = st"

definition lsn_of :: "SlruShared \<Rightarrow> nat \<Rightarrow> TransactionId \<Rightarrow> XLogRecPtr" where
  "lsn_of s i xid = group_lsn s (GetLSNIndex i xid)"

lemma holds_stored: "stored i b s s' \<Longrightarrow> length b = BLCKSZ \<Longrightarrow> holds s i p \<Longrightarrow> holds s' i p"
  by (simp add: stored_def holds_def loaded_def unique_pages_def)

lemma holds_view: "holds s i (TransactionIdToPage xid) \<Longrightarrow> xact_view s xid = page_bits (page_buffer s i) xid"
  using page_of_slot[of s i] by (auto simp: holds_def xact_view_def)

lemma group_index_other:
  assumes "j \<noteq> i" "k < CLOG_LSNS_PER_PAGE"
  shows "j * CLOG_LSNS_PER_PAGE + k \<noteq> GetLSNIndex i xid"
proof
  assume eq: "j * CLOG_LSNS_PER_PAGE + k = GetLSNIndex i xid"
  have r: "unat xid mod CLOG_XACTS_PER_PAGE div CLOG_XACTS_PER_LSN_GROUP < CLOG_LSNS_PER_PAGE"
    by (simp add: clog_consts less_mult_imp_div_less)
  have "(j * CLOG_LSNS_PER_PAGE + k) div CLOG_LSNS_PER_PAGE = j" using assms(2) by simp
  moreover have "GetLSNIndex i xid div CLOG_LSNS_PER_PAGE = i" using r by (simp add: GetLSNIndex_def)
  ultimately show False using eq assms(1) by simp
qed

lemma SetStatusBit_eq:
  "TransactionIdSetStatusBit ctl xid st lsn i s =
     (let curval = get_bits (TransactionIdToBIndex xid) (page_buffer s i ! TransactionIdToByte xid);
          s1 = s\<lparr>page_buffer := (page_buffer s)(i := write_bits xid st (page_buffer s i))\<rparr> in
      if InRecovery ctl \<and> st = TRANSACTION_STATUS_SUB_COMMITTED \<and> curval = status_code TRANSACTION_STATUS_COMMITTED
      then Inr s
      else if \<not> (curval = status_code TRANSACTION_STATUS_IN_PROGRESS \<or>
          curval = status_code TRANSACTION_STATUS_SUB_COMMITTED \<and> st \<noteq> TRANSACTION_STATUS_IN_PROGRESS \<or> curval = status_code st)
      then Inl (AssertFail ''state change from 0 or subcommitted'', s)
      else if lsn \<noteq> 0 \<and> group_lsn s (GetLSNIndex i xid) < lsn
      then Inr (s1\<lparr>group_lsn := (group_lsn s)(GetLSNIndex i xid := lsn)\<rparr>) else Inr s1)"
  by (cases st) (simp_all add: TransactionIdSetStatusBit_def Let_def get_bits_def set_bits_def write_bits_def
      CLOG_BITS_PER_XACT_def mask_eq_exp_minus_1)

lemma SetStatusBit_ok:
  assumes "\<not> InRecovery ctl" "holds s i (TransactionIdToPage xid)" "may_become (xact_view s xid) st"
    "st \<noteq> TRANSACTION_STATUS_IN_PROGRESS"
  obtains s' where "TransactionIdSetStatusBit ctl xid st lsn i s = Inr s'"
    "stored i (write_bits xid st (page_buffer s i)) s s'" "xact_view s' = (xact_view s)(xid := st)"
    "lsn \<le> lsn_of s' i xid" "\<forall>k. group_lsn s k \<le> group_lsn s' k"
proof -
  let ?cur = "get_bits (TransactionIdToBIndex xid) (page_buffer s i ! TransactionIdToByte xid)"
  have b: "length (page_buffer s i) = BLCKSZ" "lsn_groups_per_page s = CLOG_LSNS_PER_PAGE" using assms(2) by (simp_all add: holds_def)
  have cur: "?cur = status_code (xact_view s xid)"
    using holds_view[OF assms(2)] status_code_of[OF take_bit_get] by (simp add: page_bits_def)
  let ?s1 = "s\<lparr>page_buffer := (page_buffer s)(i := write_bits xid st (page_buffer s i))\<rparr>"
  let ?s = "if lsn \<noteq> 0 \<and> group_lsn s (GetLSNIndex i xid) < lsn then ?s1\<lparr>group_lsn := (group_lsn s)(GetLSNIndex i xid := lsn)\<rparr> else ?s1"
  have run: "TransactionIdSetStatusBit ctl xid st lsn i s = Inr ?s"
    using assms(1,3,4) by (auto simp: SetStatusBit_eq cur may_become_def Let_def)
  have st: "stored i (write_bits xid st (page_buffer s i)) s ?s"
    using group_index_other b(2) by (auto simp: stored_def lsns_flushed_def)
  show thesis
  proof (rule that[OF run st])
    show "xact_view ?s = (xact_view s)(xid := st)"
      using assms(2) b st by (intro xact_view_stored) (auto simp: holds_def)
  qed (auto simp: lsn_of_def)
qed

end
