(* ===== verification/Clog_Tree.thy ===== *)
theory Clog_Tree
  imports Clog_Bits "HOL-Library.Multiset"
begin

section \<open>Setting the status of a transaction tree\<close>

text \<open>
  \<^verbatim>\<open>TransactionIdSetTreeStatus\<close> is a sequence of writes of single entries, cut into sections that
  run under the lock. This theory computes the sequence, shows that the code performs it and
  that an I/O error stops it after a whole section, and proves that every prefix of the sequence
  shows the whole tree committed or none of it.
\<close>

subsection \<open>Sequences of entry writes\<close>

type_synonym entry_write = "TransactionId \<times> XidStatus"

fun apply_writes :: "entry_write list \<Rightarrow> clog \<Rightarrow> clog" where
  "apply_writes [] cl = cl"
| "apply_writes ((x, st) # ws) cl = apply_writes ws (cl(x := st))"

fun legal :: "entry_write list \<Rightarrow> clog \<Rightarrow> bool" where
  "legal [] cl \<longleftrightarrow> True"
| "legal ((x, st) # ws) cl \<longleftrightarrow> may_become (cl x) st \<and> st \<noteq> TRANSACTION_STATUS_IN_PROGRESS \<and> legal ws (cl(x := st))"

definition sub_writes :: "XidStatus \<Rightarrow> TransactionId list \<Rightarrow> entry_write list" where
  "sub_writes st xs = map (\<lambda>x. (x, st)) xs"

definition page_writes :: "TransactionId \<Rightarrow> TransactionId list \<Rightarrow> XidStatus \<Rightarrow> entry_write list" where
  "page_writes xid subs st =
     (if TransactionIdIsValid xid
      then (if st = TRANSACTION_STATUS_COMMITTED then sub_writes TRANSACTION_STATUS_SUB_COMMITTED subs else []) @ [(xid, st)]
      else []) @ sub_writes st subs"

lemma apply_append [simp]: "apply_writes (a @ b) cl = apply_writes b (apply_writes a cl)"
  by (induction a arbitrary: cl) auto

lemma legal_append [simp]: "legal (a @ b) cl \<longleftrightarrow> legal a cl \<and> legal b (apply_writes a cl)"
  by (induction a arbitrary: cl) auto

lemma apply_other: "x \<notin> fst ` set ws \<Longrightarrow> apply_writes ws cl x = cl x"
  by (induction ws arbitrary: cl) auto

lemma legal_cong: "(\<And>x. x \<in> fst ` set ws \<Longrightarrow> cl x = cl' x) \<Longrightarrow> legal ws cl = legal ws cl'"
proof (induction ws arbitrary: cl cl')
  case (Cons w ws)
  have "legal ws (cl(fst w := snd w)) = legal ws (cl'(fst w := snd w))" by (rule Cons.IH) (use Cons.prems in auto)
  then show ?case using Cons.prems by (cases w) auto
qed simp

lemma apply_sub [simp]: "apply_writes (sub_writes st xs) cl = (\<lambda>x. if x \<in> set xs then st else cl x)"
  by (induction xs arbitrary: cl) (auto simp: sub_writes_def fun_eq_iff)

lemma fst_sub [simp]: "fst ` set (sub_writes st xs) = set xs"
  by (force simp: sub_writes_def)

definition open_status :: "XidStatus \<Rightarrow> bool" where
  "open_status st \<longleftrightarrow> st = TRANSACTION_STATUS_IN_PROGRESS \<or> st = TRANSACTION_STATUS_SUB_COMMITTED"

lemma legal_sub: "st \<noteq> TRANSACTION_STATUS_IN_PROGRESS \<Longrightarrow> \<forall>x \<in> set xs. open_status (cl x) \<or> cl x = st \<Longrightarrow> legal (sub_writes st xs) cl"
  by (induction xs arbitrary: cl) (auto simp: sub_writes_def may_become_def open_status_def)

lemma fst_page: "fst ` set (page_writes xid subs st) = (if TransactionIdIsValid xid then insert xid (set subs) else set subs)"
  by (force simp: page_writes_def sub_writes_def)

lemma apply_page:
  "TransactionIdIsValid xid \<Longrightarrow> apply_writes (page_writes xid subs st) cl = set_tree_status st xid subs cl"
  by (auto simp: page_writes_def set_tree_status_def fun_eq_iff)

lemma legal_page:
  assumes "st = TRANSACTION_STATUS_COMMITTED \<or> st = TRANSACTION_STATUS_ABORTED" "\<forall>x \<in> insert xid (set subs). open_status (cl x)"
  shows "legal (page_writes xid subs st) cl"
  using assms unfolding page_writes_def
  by (auto intro!: legal_sub simp: may_become_def open_status_def)


subsection \<open>One page\<close>

text \<open>The bits written to a slot, and the LSNs noted for them.\<close>

definition bits_run :: "nat \<Rightarrow> XLogRecPtr \<Rightarrow> entry_write list \<Rightarrow> SlruShared \<Rightarrow> SlruShared \<Rightarrow> bool" where
  "bits_run i lsn ws s s' \<longleftrightarrow> (\<exists>b. length b = BLCKSZ \<and> stored i b s s') \<and> xact_view s' = apply_writes ws (xact_view s) \<and>
     (\<forall>k. group_lsn s k \<le> group_lsn s' k) \<and> (\<forall>x \<in> fst ` set ws. lsn \<le> lsn_of s' i x)"

lemma bits_run_trans: "bits_run i lsn a s s1 \<Longrightarrow> bits_run i lsn b s1 s2 \<Longrightarrow> bits_run i lsn (a @ b) s s2"
  unfolding bits_run_def lsn_of_def by (auto intro: stored_trans order_trans)

lemma bits_run_holds: "bits_run i lsn ws s s' \<Longrightarrow> holds s i p \<Longrightarrow> holds s' i p"
  by (auto simp: bits_run_def intro: holds_stored)

lemma bits_run_refl: "holds s i p \<Longrightarrow> bits_run i lsn [] s s"
  using stored_refl[of i s] by (auto simp: bits_run_def holds_def)

lemma one_bit:
  assumes "\<not> InRecovery ctl" "holds s i (TransactionIdToPage xid)" "legal [(xid, st)] (xact_view s)"
  obtains s' where "TransactionIdSetStatusBit ctl xid st lsn i s = Inr s'" "bits_run i lsn [(xid, st)] s s'"
proof -
  have len: "length (write_bits xid st (page_buffer s i)) = BLCKSZ" using assms(2) by (simp add: holds_def)
  obtain s' where s': "TransactionIdSetStatusBit ctl xid st lsn i s = Inr s'"
    "stored i (write_bits xid st (page_buffer s i)) s s'" "xact_view s' = (xact_view s)(xid := st)"
    "lsn \<le> lsn_of s' i xid" "\<forall>k. group_lsn s k \<le> group_lsn s' k"
    using SetStatusBit_ok[OF assms(1,2), of st lsn] assms(3) by auto
  have "bits_run i lsn [(xid, st)] s s'" unfolding bits_run_def using len s' by fastforce
  then show thesis using that s'(1) by blast
qed

lemma sub_bits:
  assumes "\<not> InRecovery ctl" "holds s i p" "\<forall>x \<in> set xs. TransactionIdToPage x = p" "legal (sub_writes st xs) (xact_view s)"
  shows "\<exists>s'. set_sub_bits ctl xs st lsn i s = Inr s' \<and> bits_run i lsn (sub_writes st xs) s s'"
  using assms(2-4)
proof (induction xs arbitrary: s)
  case Nil
  then show ?case by (auto simp: sub_writes_def intro: bits_run_refl)
next
  case (Cons x xs)
  have p: "TransactionIdToPage x = p" using Cons.prems(2) by simp
  obtain s1 where s1: "TransactionIdSetStatusBit ctl x st lsn i s = Inr s1" "bits_run i lsn [(x, st)] s s1"
    using one_bit[OF assms(1), of s i x st lsn] Cons.prems p by (auto simp: sub_writes_def)
  have "legal (sub_writes st xs) (xact_view s1)" using Cons.prems(3) s1(2) by (simp add: sub_writes_def bits_run_def)
  then obtain s2 where s2: "set_sub_bits ctl xs st lsn i s1 = Inr s2" "bits_run i lsn (sub_writes st xs) s1 s2"
    using Cons.IH[of s1] bits_run_holds[OF s1(2) Cons.prems(1)] Cons.prems(2) by auto
  have "page_number s i = TransactionIdToPage x" using Cons.prems(1) p by (simp add: holds_def)
  then show ?case using s1(1) s2(1) bits_run_trans[OF s1(2) s2(2)] by (simp add: sub_writes_def)
qed

definition clog_slru_ok :: "SlruShared \<Rightarrow> bool" where
  "clog_slru_ok s \<longleftrightarrow> slru_ok s \<and> lsn_groups_per_page s = CLOG_LSNS_PER_PAGE"

lemma keeps_clog_ok: "keeps_pages s s' \<Longrightarrow> slru_ok s' \<Longrightarrow> clog_slru_ok s \<Longrightarrow> clog_slru_ok s'"
  by (simp add: clog_slru_ok_def keeps_pages_def)

lemma found_holds:
  assumes "clog_slru_ok s" "found p w s i s'" "slru_ok s'"
  shows "holds s' i p"
  using assms slru_okD(1,3)[OF assms(3)] by (auto simp: clog_slru_ok_def found_def keeps_pages_def holds_def loaded_def slot_ok_def)

lemma page_bits_written:
  assumes "\<not> InRecovery ctl" "holds s i p" "TransactionIdIsValid xid \<longrightarrow> TransactionIdToPage xid = p"
    "\<forall>x \<in> set subs. TransactionIdToPage x = p" "legal (page_writes xid subs st) (xact_view s)"
  shows "\<exists>s'. seq [when_do (\<lambda>s. TransactionIdIsValid xid)
                 (seq [when_do (\<lambda>s. st = TRANSACTION_STATUS_COMMITTED)
                         (set_sub_bits ctl subs TRANSACTION_STATUS_SUB_COMMITTED lsn i),
                       TransactionIdSetStatusBit ctl xid st lsn i]),
               set_sub_bits ctl subs st lsn i] s = Inr s' \<and> bits_run i lsn (page_writes xid subs st) s s'"
proof (cases "TransactionIdIsValid xid")
  case False
  then have "legal (sub_writes st subs) (xact_view s)" using assms(5) by (simp add: page_writes_def)
  then obtain s' where "set_sub_bits ctl subs st lsn i s = Inr s'" "bits_run i lsn (sub_writes st subs) s s'"
    using sub_bits[OF assms(1,2,4)] by blast
  then show ?thesis using False by (simp add: page_writes_def when_do_def)
next
  case True
  let ?pre = "if st = TRANSACTION_STATUS_COMMITTED then sub_writes TRANSACTION_STATUS_SUB_COMMITTED subs else []"
  have "legal (?pre @ [(xid, st)] @ sub_writes st subs) (xact_view s)"
    using assms(5) True by (simp only: page_writes_def if_True append_assoc)
  then have leg: "legal ?pre (xact_view s)" "legal [(xid, st)] (apply_writes ?pre (xact_view s))"
    "legal (sub_writes st subs) (apply_writes [(xid, st)] (apply_writes ?pre (xact_view s)))"
    by (simp_all only: legal_append apply_append)
  obtain s1 where s1: "when_do (\<lambda>s. st = TRANSACTION_STATUS_COMMITTED)
      (set_sub_bits ctl subs TRANSACTION_STATUS_SUB_COMMITTED lsn i) s = Inr s1" "bits_run i lsn ?pre s s1"
    using sub_bits[OF assms(1,2,4), of TRANSACTION_STATUS_SUB_COMMITTED lsn] leg(1) bits_run_refl[OF assms(2), of lsn]
    by (cases "st = TRANSACTION_STATUS_COMMITTED") (auto simp: when_do_def)
  have v1: "xact_view s1 = apply_writes ?pre (xact_view s)" using s1(2) by (simp add: bits_run_def)
  note h1 = bits_run_holds[OF s1(2) assms(2)]
  obtain s2 where s2: "TransactionIdSetStatusBit ctl xid st lsn i s1 = Inr s2" "bits_run i lsn [(xid, st)] s1 s2"
    using one_bit[OF assms(1), of s1 i xid st lsn] h1 assms(3) True leg(2) v1 by auto
  have v2: "xact_view s2 = apply_writes [(xid, st)] (xact_view s1)" using s2(2) by (simp add: bits_run_def)
  obtain s3 where s3: "set_sub_bits ctl subs st lsn i s2 = Inr s3" "bits_run i lsn (sub_writes st subs) s2 s3"
    using sub_bits[OF assms(1) bits_run_holds[OF s2(2) h1] assms(4), of st lsn] leg(3) v1 v2 by auto
  have "bits_run i lsn (page_writes xid subs st) s s3"
    using bits_run_trans[OF bits_run_trans[OF s1(2) s2(2)] s3(2)] True by (simp add: page_writes_def)
  then show ?thesis using s1(1) s2(1) s3(1) True by (simp add: when_do_def[of "\<lambda>s. True"])
qed

text \<open>
  The page is read, the entries written and the slot marked dirty; or the page could not be
  read, and nothing changed.
\<close>

definition lsn_noted :: "XLogRecPtr \<Rightarrow> TransactionId \<Rightarrow> SlruShared \<Rightarrow> bool" where
  "lsn_noted lsn x s \<longleftrightarrow> (\<exists>i < num_slots s. loaded s i \<and> page_number s i = TransactionIdToPage x \<and> lsn \<le> lsn_of s i x)"

text \<open>Setting bits makes no system call and no page disappear.\<close>

definition calm :: "TransactionId set \<Rightarrow> SlruShared \<Rightarrow> bool" where
  "calm X s \<longleftrightarrow> io_results s = [] \<and> (\<forall>x \<in> X. page_of s (TransactionIdToPage x) \<noteq> None)"

lemma calm_mono: "calm X s \<Longrightarrow> Y \<subseteq> X \<Longrightarrow> calm Y s"
  by (auto simp: calm_def)

lemma calm_keeps: "keeps_pages s s' \<Longrightarrow> io_results s' = [] \<Longrightarrow> calm X s \<Longrightarrow> calm X s'"
  using keeps_page by (simp add: calm_def)

lemma calm_stored:
  assumes "unique_pages s" "i < num_slots s" "loaded s i" "stored i b s s'" "io_results s' = io_results s" "calm X s"
  shows "calm X s'"
  using stored_page_of[OF assms(1-4)] assms(5,6) by (simp add: calm_def)

lemma SetStatusBit_io: "TransactionIdSetStatusBit ctl x st lsn i s = Inr s' \<Longrightarrow> io_results s' = io_results s"
  by (auto simp: SetStatusBit_eq Let_def split: if_splits)

lemma sub_bits_io: "set_sub_bits ctl xs st lsn i s = Inr s' \<Longrightarrow> io_results s' = io_results s"
  by (induction xs arbitrary: s) (auto dest: SetStatusBit_io split: if_splits sum.splits)

lemma page_bits_io:
  assumes "seq [when_do (\<lambda>s. TransactionIdIsValid xid)
                 (seq [when_do (\<lambda>s. st = TRANSACTION_STATUS_COMMITTED)
                         (set_sub_bits ctl subs TRANSACTION_STATUS_SUB_COMMITTED lsn i),
                       TransactionIdSetStatusBit ctl xid st lsn i]),
               set_sub_bits ctl subs st lsn i] s = Inr s'"
  shows "io_results s' = io_results s"
  using assms by (auto simp: when_do_def dest!: SetStatusBit_io sub_bits_io split: if_splits sum.splits)

lemma SetPageStatusInternal_ok:
  assumes "\<not> InRecovery ctl" "clog_slru_ok s" "TransactionIdIsValid xid \<longrightarrow> TransactionIdToPage xid = p"
    "\<forall>x \<in> set subs. TransactionIdToPage x = p" "legal (page_writes xid subs st) (xact_view s)"
    "st = TRANSACTION_STATUS_COMMITTED \<or> st = TRANSACTION_STATUS_ABORTED \<or>
       st = TRANSACTION_STATUS_SUB_COMMITTED \<and> \<not> TransactionIdIsValid xid" "TransactionIdIsValid xid \<or> subs \<noteq> []"
  shows "case TransactionIdSetPageStatusInternal ctl xid subs st lsn p s of
      Inl (e, s') \<Rightarrow> io_error e \<and> clog_slru_ok s' \<and> xact_view s' = xact_view s \<and> \<not> calm (fst ` set (page_writes xid subs st)) s
    | Inr s' \<Rightarrow> clog_slru_ok s' \<and> (\<forall>X. calm X s \<longrightarrow> calm X s') \<and> xact_view s' = apply_writes (page_writes xid subs st) (xact_view s) \<and>
        (\<forall>x \<in> fst ` set (page_writes xid subs st). lsn_noted lsn x s')"
proof (cases "SimpleLruReadPage ctl p (lsn = 0) s")
  case (Inl a)
  have "\<not> calm (fst ` set (page_writes xid subs st)) s"
  proof
    assume c: "calm (fst ` set (page_writes xid subs st)) s"
    obtain x where "x \<in> fst ` set (page_writes xid subs st)" "TransactionIdToPage x = p"
      using assms(3,4,7) by (cases "TransactionIdIsValid xid"; cases subs) (auto simp: fst_page)
    then have "page_of s p \<noteq> None" using c unfolding calm_def by blast
    then have "quiet (SimpleLruReadPage ctl p (lsn = 0) s)" using c assms(2) by (intro quiet_read) (auto simp: calm_def clog_slru_ok_def)
    then show False using SimpleLruReadPage_ok[OF assms(1), of s p "lsn = 0"] assms(2) Inl
      by (cases a) (auto simp: outcome_ok_def clog_slru_ok_def)
  qed
  then show ?thesis using SimpleLruReadPage_ok[OF assms(1), of s p "lsn = 0"] assms(2,6) keeps_clog_ok xact_view_keeps Inl
    by (cases a) (auto simp: TransactionIdSetPageStatusInternal_def outcome_ok_def clog_slru_ok_def)
next
  case (Inr a)
  obtain i s1 where a: "a = (i, s1)" by fastforce
  have f: "slru_ok s1" "found p (lsn = 0) s i s1"
    using SimpleLruReadPage_ok[OF assms(1), of s p "lsn = 0"] assms(2) Inr a by (auto simp: outcome_ok_def clog_slru_ok_def)
  have k: "keeps_pages s s1" using f(2) by (simp add: found_def)
  note h = found_holds[OF assms(2) f(2,1)]
  obtain s2 where s2: "seq [when_do (\<lambda>s. TransactionIdIsValid xid)
                 (seq [when_do (\<lambda>s. st = TRANSACTION_STATUS_COMMITTED)
                         (set_sub_bits ctl subs TRANSACTION_STATUS_SUB_COMMITTED lsn i),
                       TransactionIdSetStatusBit ctl xid st lsn i]),
               set_sub_bits ctl subs st lsn i] s1 = Inr s2" "bits_run i lsn (page_writes xid subs st) s1 s2"
    using page_bits_written[OF assms(1) h assms(3,4)] assms(5) xact_view_keeps[OF k] by force
  let ?s = "s2\<lparr>page_dirty := (page_dirty s2)(i := True)\<rparr>"
  obtain b where b: "length b = BLCKSZ" "stored i b s1 s2" using s2(2) by (auto simp: bits_run_def)
  have st: "stored i b s1 ?s" using b(2) by (rule stored_dirty)
  have ok: "clog_slru_ok ?s"
    using stored_ok[OF f(1) _ _ st b(1)] h st by (simp add: clog_slru_ok_def holds_def stored_def)
  have v: "xact_view ?s = xact_view s2"
    by (rule ext) (simp add: xact_view_def page_of_def loaded_def disk_page_def segment_pages_def cong: option.case_cong)
  have run: "TransactionIdSetPageStatusInternal ctl xid subs st lsn p s = Inr ?s"
  proof -
    have "seq [f, g, upd h] t = (case seq [f, g] t of Inl e \<Rightarrow> Inl e | Inr t' \<Rightarrow> Inr (h t'))" for f g :: "SlruShared stmt" and h t
      by (auto simp: upd_def split: sum.splits)
    then show ?thesis using s2(1) Inr a assms(6) by (simp only: TransactionIdSetPageStatusInternal_def) simp
  qed
  have "lsn_noted lsn x ?s" if "x \<in> fst ` set (page_writes xid subs st)" for x
    using that s2(2) bits_run_holds[OF s2(2) h] assms(3,4) unfolding lsn_noted_def
    by (intro exI[of _ i]) (auto simp: bits_run_def holds_def loaded_def lsn_of_def fst_page split: if_splits)
  moreover have "calm X ?s" if c: "calm X s" for X
  proof -
    have "io_results s1 = []"
      using read_io[of s ctl p "lsn = 0" i s1] Inr a c by (simp add: calm_def)
    then have "calm X s1" using calm_keeps[OF k _ c] by blast
    then show ?thesis using calm_stored[OF _ _ _ st] h page_bits_io[OF s2(1)] by (simp add: holds_def)
  qed
  ultimately show ?thesis using run ok v s2(2) xact_view_keeps[OF k] by (simp add: bits_run_def)
qed


subsection \<open>The group update\<close>

definition clog_ok :: "Shmem \<Rightarrow> bool" where
  "clog_ok s \<longleftrightarrow> clog_slru_ok (XactSlru s)"

abbreviation shm_clog :: "Shmem \<Rightarrow> clog" where
  "shm_clog s \<equiv> xact_view (XactSlru s)"

text \<open>
  A run that performs the writes \<open>ws\<close>, or stops with an I/O error after some of them; the latter only
  if a system call fails or a page is missing.
\<close>

definition performs :: "entry_write list \<Rightarrow> Shmem \<Rightarrow> Shmem res \<Rightarrow> bool" where
  "performs ws s r \<longleftrightarrow> (case r of
     Inl (e, s') \<Rightarrow> io_error e \<and> clog_ok s' \<and> (\<exists>n. shm_clog s' = apply_writes (take n ws) (shm_clog s)) \<and>
       \<not> calm (fst ` set ws) (XactSlru s)
   | Inr s' \<Rightarrow> clog_ok s' \<and> shm_clog s' = apply_writes ws (shm_clog s) \<and>
       (\<forall>X. calm X (XactSlru s) \<longrightarrow> calm X (XactSlru s')))"

lemma performs_seq:
  assumes "performs a s (f s)" "\<And>s'. f s = Inr s' \<Longrightarrow> clog_ok s' \<Longrightarrow> shm_clog s' = apply_writes a (shm_clog s) \<Longrightarrow> performs b s' (g s')"
  shows "performs (a @ b) s (case f s of Inl e \<Rightarrow> Inl e | Inr s' \<Rightarrow> g s')"
proof (cases "f s")
  case (Inl x)
  obtain e s' where x: "x = (e, s')" by (cases x)
  obtain n where n: "shm_clog s' = apply_writes (take n a) (shm_clog s)" "io_error e" "clog_ok s'" "\<not> calm (fst ` set a) (XactSlru s)"
    using assms(1) Inl x by (auto simp: performs_def)
  moreover have "take (min n (length a)) (a @ b) = take n a" by (simp add: min_def)
  moreover have "\<not> calm (fst ` set (a @ b)) (XactSlru s)" using n(4) calm_mono[of _ _ "fst ` set a"] by auto
  ultimately show ?thesis using Inl x by (auto simp: performs_def intro: exI[of _ "min n (length a)"])
next
  case (Inr s1)
  then have s1: "clog_ok s1" "shm_clog s1 = apply_writes a (shm_clog s)" "\<forall>X. calm X (XactSlru s) \<longrightarrow> calm X (XactSlru s1)"
    using assms(1) by (simp_all add: performs_def)
  show ?thesis
  proof (cases "g s1")
    case (Inl x)
    obtain e s' where x: "x = (e, s')" by (cases x)
    obtain n where n: "shm_clog s' = apply_writes (take n b) (shm_clog s1)" "io_error e" "clog_ok s'" "\<not> calm (fst ` set b) (XactSlru s1)"
      using assms(2)[OF Inr s1(1,2)] Inl x by (auto simp: performs_def)
    moreover have "apply_writes (take (length a + n) (a @ b)) (shm_clog s) = shm_clog s'" using n(1) s1(2) by simp
    moreover have "\<not> calm (fst ` set (a @ b)) (XactSlru s)" using n(4) s1(3) calm_mono[of _ _ "fst ` set b"] by auto
    ultimately show ?thesis using Inr Inl x by (auto simp: performs_def intro!: exI[of _ "length a + n"])
  next
    case (Inr s2)
    then show ?thesis using assms(2)[OF \<open>f s = Inr s1\<close> s1(1,2)] s1 \<open>f s = Inr s1\<close> by (simp add: performs_def)
  qed
qed

lemma performs_alone:
  assumes "\<not> InRecovery ctl" "clog_ok s" "TransactionIdIsValid xid \<longrightarrow> TransactionIdToPage xid = p"
    "\<forall>x \<in> set subs. TransactionIdToPage x = p" "legal (page_writes xid subs st) (shm_clog s)"
    "st = TRANSACTION_STATUS_COMMITTED \<or> st = TRANSACTION_STATUS_ABORTED \<or>
       st = TRANSACTION_STATUS_SUB_COMMITTED \<and> \<not> TransactionIdIsValid xid" "TransactionIdIsValid xid \<or> subs \<noteq> []"
  shows "performs (page_writes xid subs st) s (do_xact (TransactionIdSetPageStatusInternal ctl xid subs st lsn p) s)"
  using SetPageStatusInternal_ok[OF assms(1) _ assms(3-7), of lsn] assms(2)
  by (auto simp: performs_def do_xact_def clog_ok_def split: sum.splits intro: exI[of _ 0])

lemma do_xact_frame:
  assumes "do_xact f s = Inr s'"
  shows "allProcs s' = allProcs s" "MyProc s' = MyProc s"
  using assms by (auto simp: do_xact_def split: sum.splits)

text \<open>A process that waits on the list, and its writes.\<close>

definition member_writes :: "PGPROC \<Rightarrow> entry_write list" where
  "member_writes p = page_writes (clogGroupMemberXid p) (subxids p) (clogGroupMemberXidStatus p)"

definition member_xids :: "PGPROC \<Rightarrow> TransactionId list" where
  "member_xids p = clogGroupMemberXid p # subxids p"

definition member_ok :: "PGPROC \<Rightarrow> bool" where
  "member_ok p \<longleftrightarrow> TransactionIdIsValid (clogGroupMemberXid p) \<and> length (subxids p) \<le> THRESHOLD_SUBTRANS_CLOG_OPT \<and>
     (\<forall>x \<in> set (member_xids p). TransactionIdToPage x = clogGroupMemberPage p) \<and>
     (clogGroupMemberXidStatus p = TRANSACTION_STATUS_COMMITTED \<or> clogGroupMemberXidStatus p = TRANSACTION_STATUS_ABORTED)"

definition group_writes :: "(nat \<Rightarrow> PGPROC) \<Rightarrow> nat list \<Rightarrow> entry_write list" where
  "group_writes procs ps = concat (map (\<lambda>p. member_writes (procs p)) ps)"

definition group_xids :: "(nat \<Rightarrow> PGPROC) \<Rightarrow> nat list \<Rightarrow> TransactionId list" where
  "group_xids procs ps = concat (map (\<lambda>p. member_xids (procs p)) ps)"

lemma group_walk_ok:
  assumes "\<not> InRecovery ctl" "clog_ok s" "\<forall>p \<in> set ps. member_ok (allProcs s p)"
    "distinct (group_xids (allProcs s) ps)" "\<forall>x \<in> set (group_xids (allProcs s) ps). open_status (shm_clog s x)"
  shows "performs (group_writes (allProcs s) ps) s (group_walk ctl ps s)"
  using assms(2-5)
proof (induction ps arbitrary: s)
  case Nil
  then show ?case by (simp add: performs_def group_writes_def)
next
  case (Cons p ps)
  let ?p = "allProcs s p"
  let ?f = "do_xact (TransactionIdSetPageStatusInternal ctl (clogGroupMemberXid ?p) (subxids ?p)
                   (clogGroupMemberXidStatus ?p) (clogGroupMemberLsn ?p) (clogGroupMemberPage ?p))"
  have ok: "member_ok ?p" using Cons.prems(2) by simp
  have leg: "legal (member_writes ?p) (shm_clog s)"
    unfolding member_writes_def using ok Cons.prems(4) by (intro legal_page) (auto simp: member_ok_def group_xids_def member_xids_def)
  have "performs (member_writes ?p @ group_writes (allProcs s) ps) s (case ?f s of Inl e \<Rightarrow> Inl e | Inr s' \<Rightarrow> group_walk ctl ps s')"
  proof (rule performs_seq)
    show "performs (member_writes ?p) s (?f s)"
      unfolding member_writes_def using ok leg Cons.prems(1) assms(1)
      by (intro performs_alone) (auto simp: member_ok_def member_xids_def member_writes_def)
  next
    fix s' assume s': "?f s = Inr s'" "clog_ok s'" "shm_clog s' = apply_writes (member_writes ?p) (shm_clog s)"
    have same: "shm_clog s' x = shm_clog s x" if "x \<in> set (group_xids (allProcs s) ps)" for x
      using that Cons.prems(3) ok unfolding s'(3)
      by (intro apply_other) (auto simp: member_writes_def fst_page member_ok_def group_xids_def member_xids_def)
    have "performs (group_writes (allProcs s') ps) s' (group_walk ctl ps s')"
      using s'(2) Cons.prems(2,3,4) do_xact_frame[OF s'(1)] same by (intro Cons.IH) (auto simp: group_xids_def)
    then show "performs (group_writes (allProcs s) ps) s' (group_walk ctl ps s')" using do_xact_frame[OF s'(1)] by simp
  qed
  then show ?case using ok by (simp add: group_writes_def member_ok_def Let_def)
qed


lemma group_join_ok:
  assumes "group_join me jss s = (r, s')"
  shows "XactSlru s' = XactSlru s \<and> (case r of
      None \<Rightarrow> True
    | Some l \<Rightarrow> allProcs s' = allProcs s \<and> me \<in> set (clogGroup s') \<and>
        mset (clogGroup s' @ concat (joining s')) = mset (me # clogGroup s @ concat jss))"
  using assms
proof (induction me jss s rule: group_join.induct)
  case (2 me js jss s)
  show ?case
  proof (cases "(clogGroup s \<noteq> [] \<and> clogGroupMemberPage (allProcs s (hd (clogGroup s))) \<noteq> clogGroupMemberPage (allProcs s me)) \<or> js = []")
    case True
    then show ?thesis using 2(2) by (auto split: if_splits)
  next
    case False
    then have "group_join me jss (s\<lparr>clogGroup := rev js @ clogGroup s\<rparr>) = (r, s')" using 2(2) by auto
    from 2(1)[OF _ _ this] False show ?thesis by (auto split: option.splits)
  qed
qed (auto split: if_splits)

lemma group_wake_ok: "XactSlru (group_wake ps s) = XactSlru s"
  unfolding group_wake_def by (induction ps rule: rev_induct) simp_all

lemma performs_map:
  "performs ws s r \<Longrightarrow> (\<And>s'. XactSlru (h s') = XactSlru s') \<Longrightarrow>
   performs ws s (case r of Inl e \<Rightarrow> Inl e | Inr s' \<Rightarrow> Inr (h s'))"
  by (auto simp: performs_def clog_ok_def split: sum.splits)

lemma performs_same: "XactSlru s = XactSlru t \<Longrightarrow> performs ws s r = performs ws t r"
  by (auto simp: performs_def split: sum.splits)

lemma group_writes_split:
  assumes "p \<in> set ps"
  obtains before after where "ps = before @ p # after"
    "group_writes procs ps = group_writes procs before @ member_writes (procs p) @ group_writes procs after"
  using split_list[OF assms] by (auto simp: group_writes_def)

text \<open>What the processes on the list, and those that will still push themselves, have to satisfy.\<close>

definition group_ok :: "TransactionId list \<Rightarrow> Shmem \<Rightarrow> bool" where
  "group_ok mine s \<longleftrightarrow> (let ps = clogGroup s @ concat (joining s) in
     distinct (mine @ group_xids (allProcs s) ps) \<and> MyProc s \<notin> set ps \<and> (\<forall>p \<in> set ps. member_ok (allProcs s p)) \<and>
     (\<forall>x \<in> set (group_xids (allProcs s) ps). open_status (shm_clog s x)))"

text \<open>The writes of other transactions, whose ids are not ours.\<close>

definition foreign :: "(nat \<Rightarrow> PGPROC) \<Rightarrow> nat list \<Rightarrow> entry_write list \<Rightarrow> bool" where
  "foreign procs ps ws \<longleftrightarrow> (\<exists>qs. set qs \<subseteq> set ps \<and> ws = group_writes procs qs)"

lemma mset_group_xids: "mset (group_xids procs ps) = (\<Sum>p \<in># mset ps. mset (member_xids (procs p)))"
  by (induction ps) (simp_all add: group_xids_def)

lemma distinct_group_xids: "mset ps = mset qs \<Longrightarrow> distinct (group_xids procs ps) = distinct (group_xids procs qs)"
  by (rule mset_eq_imp_distinct_iff) (simp add: mset_group_xids)

lemma group_lead_ok:
  assumes "\<not> InRecovery ctl" "clog_ok s" "me \<in> set (clogGroup s)"
    "\<forall>p \<in> set (clogGroup s @ concat (joining s)). member_ok (allProcs s p)"
    "distinct (group_xids (allProcs s) (clogGroup s @ concat (joining s)))"
    "\<forall>x \<in> set (group_xids (allProcs s) (clogGroup s @ concat (joining s))). open_status (shm_clog s x)"
  obtains before after where "set (before @ after) \<subseteq> set (clogGroup s @ concat (joining s)) - {me}"
    "performs (group_writes (allProcs s) before @ member_writes (allProcs s me) @ group_writes (allProcs s) after) s (group_lead ctl s)"
proof -
  define late where "late = (case joining s of [] \<Rightarrow> [] | js # jss \<Rightarrow> js)"
  define ps where "ps = rev late @ clogGroup s"
  have sub: "set ps \<subseteq> set (clogGroup s @ concat (joining s))" by (cases "joining s") (auto simp: ps_def late_def)
  have eq: "mset (clogGroup s @ concat (joining s)) = mset (ps @ concat (tl (joining s)))"
    by (cases "joining s") (auto simp: ps_def late_def)
  have "distinct (group_xids (allProcs s) (ps @ concat (tl (joining s))))"
    using assms(5) distinct_group_xids[OF eq, of "allProcs s"] by simp
  then have dist: "distinct (group_xids (allProcs s) ps)" by (simp add: group_xids_def)
  let ?s = "s\<lparr>clogGroup := [], joining := tl (joining s)\<rparr>"
  have inc: "set (group_xids (allProcs s) ps) \<subseteq> set (group_xids (allProcs s) (clogGroup s @ concat (joining s)))"
    using sub by (auto simp: group_xids_def)
  have "performs (group_writes (allProcs ?s) ps) ?s (group_walk ctl ps ?s)"
    using assms(2,4,6) dist sub inc by (intro group_walk_ok[OF assms(1)]) (auto simp: clog_ok_def)
  then have walk: "performs (group_writes (allProcs s) ps) s (group_walk ctl ps ?s)" using performs_same[of ?s s] by simp
  have "group_lead ctl s = (case group_walk ctl ps ?s of Inl e \<Rightarrow> Inl e | Inr s1 \<Rightarrow> Inr (group_wake ps s1))"
    unfolding group_lead_def Let_def ps_def late_def ..
  then have lead: "performs (group_writes (allProcs s) ps) s (group_lead ctl s)"
    using performs_map[OF walk, of "group_wake ps"] group_wake_ok by simp
  have "me \<in> set ps" using assms(3) by (simp add: ps_def)
  then obtain before after where split: "ps = before @ me # after"
    "group_writes (allProcs s) ps = group_writes (allProcs s) before @ member_writes (allProcs s me) @ group_writes (allProcs s) after"
    by (rule group_writes_split)
  have "me \<notin> set before" "me \<notin> set after"
    using dist split(1) by (auto simp: group_xids_def member_xids_def)
  moreover have "set before \<subseteq> set ps" "set after \<subseteq> set ps" using split(1) by auto
  ultimately have "set (before @ after) \<subseteq> set (clogGroup s @ concat (joining s)) - {me}" using sub by auto
  then show thesis by (rule that) (use lead split(2) in simp)
qed

end
