(* ===== verification/Clog_Inv.thy ===== *)
theory Clog_Inv
  imports Clog_Tree
begin

section \<open>The commit log implements the status map\<close>

text \<open>
  \<^verbatim>\<open>TransactionIdSetTreeStatus\<close> performs the writes of the tree, with those of other members of a
  commit group before or after them; every prefix of the writes is atomic to a reader; the
  remaining routines of \<^verbatim>\<open>clog.c\<close> keep the map or change it as documented.
\<close>

subsection \<open>One page, alone or as a member of a group\<close>

lemma group_writes_cong: "(\<And>p. p \<in> set ps \<Longrightarrow> procs p = procs' p) \<Longrightarrow> group_writes procs ps = group_writes procs' ps"
  unfolding group_writes_def by (metis (mono_tags, lifting) map_cong)

lemma group_xids_cong: "(\<And>p. p \<in> set ps \<Longrightarrow> procs p = procs' p) \<Longrightarrow> group_xids procs ps = group_xids procs' ps"
  unfolding group_xids_def by (metis (mono_tags, lifting) map_cong)

abbreviation queue :: "Shmem \<Rightarrow> nat list" where
  "queue s \<equiv> clogGroup s @ concat (joining s)"

text \<open>A transaction whose entries are all on one page.\<close>

definition one_page :: "TransactionId \<Rightarrow> TransactionId list \<Rightarrow> XidStatus \<Rightarrow> nat \<Rightarrow> Shmem \<Rightarrow> bool" where
  "one_page xid subs st p s \<longleftrightarrow> TransactionIdIsValid xid \<and> (\<forall>x \<in> set (xid # subs). TransactionIdToPage x = p) \<and>
     (st = TRANSACTION_STATUS_COMMITTED \<or> st = TRANSACTION_STATUS_ABORTED) \<and>
     (\<forall>x \<in> set (xid # subs). open_status (shm_clog s x))"

lemma GroupUpdate_ok:
  assumes "\<not> InRecovery ctl" "clog_ok s" "group_ok (xid # subs) s" "subxids (allProcs s (MyProc s)) = subs"
    "length subs \<le> THRESHOLD_SUBTRANS_CLOG_OPT" "one_page xid subs st p s"
  obtains (gave_up) s2 where "TransactionGroupUpdateXidStatus ctl xid st lsn p s = Inr (False, s2)" "XactSlru s2 = XactSlru s"
  | (joined) before after r where "TransactionGroupUpdateXidStatus ctl xid st lsn p s = (case r of Inl e \<Rightarrow> Inl e | Inr s \<Rightarrow> Inr (True, s))"
      "set (before @ after) \<subseteq> set (queue s)"
      "performs (group_writes (allProcs s) before @ page_writes xid subs st @ group_writes (allProcs s) after) s r"
proof -
  define me where "me = MyProc s"
  define s1 where "s1 = s\<lparr>allProcs := (allProcs s)(me := (allProcs s me)\<lparr>clogGroupMember := True, clogGroupMemberXid := xid,
                     clogGroupMemberXidStatus := st, clogGroupMemberPage := p, clogGroupMemberLsn := lsn\<rparr>)\<rparr>"
  have valid: "TransactionIdIsValid xid" using assms(6) by (simp add: one_page_def)
  obtain r s2 where j: "group_join me (joining s1) s1 = (r, s2)" by (cases "group_join me (joining s1) s1")
  note jo = group_join_ok[OF j]
  have run: "TransactionGroupUpdateXidStatus ctl xid st lsn p s = (case r of None \<Rightarrow> Inr (False, s2)
      | Some l \<Rightarrow> (case group_lead ctl s2 of Inl e \<Rightarrow> Inl e | Inr s3 \<Rightarrow> Inr (True, s3)))"
    using valid j by (simp add: TransactionGroupUpdateXidStatus_def Let_def me_def s1_def)
  show thesis
  proof (cases r)
    case None
    then show ?thesis using run jo gave_up[of s2] by (simp add: s1_def)
  next
    case (Some l)
    have x2: "XactSlru s2 = XactSlru s" "allProcs s2 = allProcs s1" "me \<in> set (clogGroup s2)"
      "mset (queue s2) = mset (me # queue s)"
      using jo Some by (auto simp: s1_def)
    have q2: "set (queue s2) = insert me (set (queue s))" using mset_eq_setD[OF x2(4)] by simp
    have g: "distinct ((xid # subs) @ group_xids (allProcs s) (queue s))" "me \<notin> set (queue s)"
      "\<forall>q \<in> set (queue s). member_ok (allProcs s q)"
      "\<forall>x \<in> set (group_xids (allProcs s) (queue s)). open_status (shm_clog s x)"
      using assms(3) by (simp_all add: group_ok_def me_def Let_def)
    have procs: "allProcs s2 q = allProcs s q" if "q \<noteq> me" for q using that x2(2) by (simp add: s1_def)
    have mine: "member_writes (allProcs s2 me) = page_writes xid subs st" "member_xids (allProcs s2 me) = xid # subs"
      "member_ok (allProcs s2 me)"
      using x2(2) assms(4,5,6) by (auto simp: s1_def me_def member_writes_def member_xids_def member_ok_def one_page_def)
    have gx: "group_xids (allProcs s2) (me # queue s) = (xid # subs) @ group_xids (allProcs s) (queue s)"
      using group_xids_cong[of "queue s" "allProcs s2" "allProcs s"] procs g(2) mine(2)
      by (metis (no_types, lifting) concat.simps(2) group_xids_def list.simps(9))
    have gd: "distinct (group_xids (allProcs s2) (queue s2))" using distinct_group_xids[OF x2(4)] gx g(1) by simp
    have gs: "set (group_xids (allProcs s2) (queue s2)) = set ((xid # subs) @ group_xids (allProcs s) (queue s))"
    proof -
      have "mset (group_xids (allProcs s2) (queue s2)) = mset (group_xids (allProcs s2) (me # queue s))"
        by (simp only: mset_group_xids x2(4))
      from mset_eq_setD[OF this] show ?thesis by (simp only: gx)
    qed
    have ok: "\<forall>q \<in> set (queue s2). member_ok (allProcs s2 q)" using q2 g(2,3) procs mine(3) by (metis insertE)
    have op: "\<forall>x \<in> set (group_xids (allProcs s2) (queue s2)). open_status (shm_clog s2 x)"
      using gs g(4) assms(6) x2(1) by (auto simp: one_page_def)
    have "clog_ok s2" using assms(2) x2(1) by (simp add: clog_ok_def)
    then obtain before after where ba: "set (before @ after) \<subseteq> set (queue s2) - {me}"
      "performs (group_writes (allProcs s2) before @ member_writes (allProcs s2 me) @ group_writes (allProcs s2) after) s2 (group_lead ctl s2)"
      by (rule group_lead_ok[OF assms(1) _ x2(3) ok gd op])
    have sub: "set (before @ after) \<subseteq> set (queue s)" using ba(1) q2 by blast
    have "group_writes (allProcs s2) before = group_writes (allProcs s) before" "group_writes (allProcs s2) after = group_writes (allProcs s) after"
      using ba(1) procs by (auto intro!: group_writes_cong)
    then have "performs (group_writes (allProcs s) before @ page_writes xid subs st @ group_writes (allProcs s) after) s (group_lead ctl s2)"
      using ba(2) mine(1) performs_same[OF x2(1)] by simp
    then show ?thesis using joined[of "group_lead ctl s2" before after] run Some sub by simp
  qed
qed

lemma legal_one_page: "one_page xid subs st p s \<Longrightarrow> legal (page_writes xid subs st) (shm_clog s)"
  by (rule legal_page) (auto simp: one_page_def)

lemma alone_one_page:
  assumes "\<not> InRecovery ctl" "clog_ok s'" "one_page xid subs st p s" "XactSlru s' = XactSlru s"
  shows "performs (page_writes xid subs st) s (do_xact (TransactionIdSetPageStatusInternal ctl xid subs st lsn p) s')"
proof -
  have "one_page xid subs st p s'" using assms(3,4) by (simp add: one_page_def)
  then have "performs (page_writes xid subs st) s' (do_xact (TransactionIdSetPageStatusInternal ctl xid subs st lsn p) s')"
    using assms(1,2) legal_one_page by (intro performs_alone) (auto simp: one_page_def)
  then show ?thesis using performs_same[OF assms(4)] by simp
qed

lemma SetPageStatus_group_ok:
  assumes "\<not> InRecovery ctl" "clog_ok s" "group_ok (xid # subs) s" "one_page xid subs st p s"
  obtains before after where "set (before @ after) \<subseteq> set (queue s)"
    "performs (group_writes (allProcs s) before @ page_writes xid subs st @ group_writes (allProcs s) after) s
      (TransactionIdSetPageStatus ctl xid subs st lsn p True s)"
proof -
  let ?me = "allProcs s (MyProc s)"
  have al: "performs (page_writes xid subs st) s (do_xact (TransactionIdSetPageStatusInternal ctl xid subs st lsn p) s')"
    if "XactSlru s' = XactSlru s" for s'
    using that assms by (intro alone_one_page) (auto simp: clog_ok_def)
  have gw: "group_writes procs [] = []" for procs by (simp add: group_writes_def)
  obtain got s1 where l: "LWLockConditionalAcquire s = (got, s1)" by fastforce
  then have s1: "XactSlru s1 = XactSlru s" "allProcs s1 = allProcs s" "MyProc s1 = MyProc s" "queue s1 = queue s"
    "clogGroup s1 = clogGroup s" "joining s1 = joining s"
    by (auto simp: LWLockConditionalAcquire_def split: list.splits)
  show thesis
  proof (cases "xid = proc_xid ?me \<and> length subs \<le> THRESHOLD_SUBTRANS_CLOG_OPT \<and> length subs = length (subxids ?me) \<and>
      (subs = [] \<or> subs = subxids ?me) \<and> \<not> got")
    case False
    have "TransactionIdSetPageStatus ctl xid subs st lsn p True s = do_xact (TransactionIdSetPageStatusInternal ctl xid subs st lsn p) s \<or>
        TransactionIdSetPageStatus ctl xid subs st lsn p True s = do_xact (TransactionIdSetPageStatusInternal ctl xid subs st lsn p) s1"
      using False l by (auto simp: TransactionIdSetPageStatus_def Let_def)
    then show ?thesis using that[of "[]" "[]"] al[of s] al[of s1] s1(1) gw by auto
  next
    case True
    then have g: "subxids (allProcs s1 (MyProc s1)) = subs" "group_ok (xid # subs) s1" "clog_ok s1" "one_page xid subs st p s1"
      using assms(2-4) s1 by (auto simp: group_ok_def clog_ok_def one_page_def)
    have run: "TransactionIdSetPageStatus ctl xid subs st lsn p True s = (case TransactionGroupUpdateXidStatus ctl xid st lsn p s1 of
        Inl e \<Rightarrow> Inl e | Inr (updated, s2) \<Rightarrow> if updated then Inr s2 else do_xact (TransactionIdSetPageStatusInternal ctl xid subs st lsn p) s2)"
      using True l by (auto simp: TransactionIdSetPageStatus_def Let_def split: sum.splits)
    show ?thesis
    proof (rule GroupUpdate_ok[OF assms(1) g(3,2,1) _ g(4), where lsn = lsn])
      show "length subs \<le> THRESHOLD_SUBTRANS_CLOG_OPT" using True by simp
    next
      fix s2 assume "TransactionGroupUpdateXidStatus ctl xid st lsn p s1 = Inr (False, s2)" "XactSlru s2 = XactSlru s1"
      then show ?thesis using that[of "[]" "[]"] al[of s2] run s1(1) gw by auto
    next
      fix before after r
      assume a: "TransactionGroupUpdateXidStatus ctl xid st lsn p s1 = (case r of Inl e \<Rightarrow> Inl e | Inr s \<Rightarrow> Inr (True, s))"
        "set (before @ after) \<subseteq> set (queue s1)"
        "performs (group_writes (allProcs s1) before @ page_writes xid subs st @ group_writes (allProcs s1) after) s1 r"
      have "TransactionIdSetPageStatus ctl xid subs st lsn p True s = r" using run a(1) by (cases r) auto
      then show ?thesis using that[of before after] a(2,3) s1 performs_same[OF s1(1)] by simp
    qed
  qed
qed

lemma SetPageStatus_alone:
  "TransactionIdSetPageStatus ctl xid subs st lsn p False s = do_xact (TransactionIdSetPageStatusInternal ctl xid subs st lsn p) s"
  by (simp add: TransactionIdSetPageStatus_def Let_def)


subsection \<open>All pages of a tree\<close>

lemma page_writes_sub: "page_writes InvalidTransactionId xs st = sub_writes st xs"
  by (simp add: page_writes_def TransactionIdIsValid_def)

lemma mem_sub [simp]: "(x, st') \<in> set (sub_writes st xs) \<longleftrightarrow> st' = st \<and> x \<in> set xs"
  by (auto simp: sub_writes_def)

lemma sub_writes_append: "sub_writes st (xs @ ys) = sub_writes st xs @ sub_writes st ys"
  by (simp add: sub_writes_def)

lemma status_pages_loop_ok:
  assumes "\<not> InRecovery ctl" "clog_ok s" "st \<noteq> TRANSACTION_STATUS_IN_PROGRESS" "\<forall>x \<in> set subs. open_status (shm_clog s x) \<or> shm_clog s x = st"
    "subs \<noteq> [] \<longrightarrow> TransactionIdToPage (hd subs) = pageno"
  shows "performs (sub_writes st subs) s (status_pages_loop ctl pageno subs st lsn s)"
  using assms
proof (induction ctl pageno subs st lsn s rule: status_pages_loop.induct)
  case (1 ctl pageno subs st lsn s)
  show ?case
  proof (cases "subs = []")
    case True
    then show ?thesis using 1(3) by (simp add: status_pages_loop.simps performs_def sub_writes_def)
  next
    case False
    let ?on = "takeWhile (\<lambda>x. TransactionIdToPage x = pageno) subs" and ?rest = "dropWhile (\<lambda>x. TransactionIdToPage x = pageno) subs"
    let ?f = "TransactionIdSetPageStatus ctl InvalidTransactionId ?on st lsn pageno False"
    let ?g = "status_pages_loop ctl (if ?rest = [] then pageno else TransactionIdToPage (hd ?rest)) ?rest st lsn"
    have on: "x \<in> set subs" "TransactionIdToPage x = pageno" if "x \<in> set ?on" for x
      using that by (auto dest: set_takeWhileD)
    have ne: "?on \<noteq> []" using 1(6) False by (cases subs) auto
    have "performs (sub_writes st ?on @ sub_writes st ?rest) s (case ?f s of Inl e \<Rightarrow> Inl e | Inr s' \<Rightarrow> ?g s')"
    proof (rule performs_seq)
      have "legal (sub_writes st ?on) (shm_clog s)" by (rule legal_sub[OF 1(4)]) (use 1(5) on(1) in blast)
      then show "performs (sub_writes st ?on) s (?f s)"
        unfolding SetPageStatus_alone page_writes_sub[symmetric] using 1(2,3,4) on(2) ne
        by (intro performs_alone) (auto simp: TransactionIdIsValid_def XidStatus.exhaust intro: XidStatus.exhaust[of st])
    next
      fix s' assume s': "?f s = Inr s'" "clog_ok s'" "shm_clog s' = apply_writes (sub_writes st ?on) (shm_clog s)"
      have "\<forall>x \<in> set ?rest. open_status (shm_clog s' x) \<or> shm_clog s' x = st"
        using 1(5) by (auto simp: s'(3) dest: set_dropWhileD)
      then show "performs (sub_writes st ?rest) s' (?g s')" by (rule 1(1)[OF False refl refl s'(1) 1(2) s'(2) 1(4)]) simp
    qed
    moreover have "sub_writes st ?on @ sub_writes st ?rest = sub_writes st subs"
      by (simp only: sub_writes_append[symmetric] takeWhile_dropWhile_id)
    moreover have "status_pages_loop ctl pageno subs st lsn s = (case ?f s of Inl e \<Rightarrow> Inl e | Inr s' \<Rightarrow> ?g s')"
      by (subst status_pages_loop.simps) (simp only: False if_False Let_def)
    ultimately show ?thesis by (simp only:)
  qed
qed

lemma by_pages_ok:
  assumes "\<not> InRecovery ctl" "clog_ok s" "subs \<noteq> []" "st \<noteq> TRANSACTION_STATUS_IN_PROGRESS"
    "\<forall>x \<in> set subs. open_status (shm_clog s x) \<or> shm_clog s x = st"
  shows "performs (sub_writes st subs) s (set_status_by_pages ctl subs st lsn s)"
  using status_pages_loop_ok[OF assms(1,2,4,5), of "TransactionIdToPage (hd subs)" lsn] assms(3) by (simp add: set_status_by_pages_def)

definition tree_writes :: "TransactionId \<Rightarrow> TransactionId list \<Rightarrow> XidStatus \<Rightarrow> entry_write list" where
  "tree_writes xid subs st =
     (let first = takeWhile (\<lambda>x. TransactionIdToPage x = TransactionIdToPage xid) subs;
          others = dropWhile (\<lambda>x. TransactionIdToPage x = TransactionIdToPage xid) subs in
      (if st = TRANSACTION_STATUS_COMMITTED then sub_writes TRANSACTION_STATUS_SUB_COMMITTED others else []) @
      page_writes xid first st @ sub_writes st others)"

definition tree_ok :: "TransactionId \<Rightarrow> TransactionId list \<Rightarrow> XidStatus \<Rightarrow> Shmem \<Rightarrow> bool" where
  "tree_ok xid subs st s \<longleftrightarrow> TransactionIdIsValid xid \<and> (st = TRANSACTION_STATUS_COMMITTED \<or> st = TRANSACTION_STATUS_ABORTED) \<and>
     (\<forall>x \<in> set (xid # subs). open_status (shm_clog s x))"

lemma take_drop_set: "set (takeWhile P xs) \<union> set (dropWhile P xs) = set xs"
  by (metis set_append takeWhile_dropWhile_id)

lemma fst_tree:
  assumes "TransactionIdIsValid xid"
  shows "fst ` set (tree_writes xid subs st) = set (xid # subs)"
proof -
  let ?P = "\<lambda>x. TransactionIdToPage x = TransactionIdToPage xid"
  have "fst ` set (tree_writes xid subs st) = insert xid (set (takeWhile ?P subs) \<union> set (dropWhile ?P subs))"
    using assms by (cases "st = TRANSACTION_STATUS_COMMITTED") (auto simp: tree_writes_def Let_def image_Un fst_page)
  then show ?thesis by (simp only: take_drop_set list.set)
qed

lemma apply_tree:
  assumes "TransactionIdIsValid xid"
  shows "apply_writes (tree_writes xid subs st) cl = set_tree_status st xid subs cl"
proof
  fix x
  let ?P = "\<lambda>x. TransactionIdToPage x = TransactionIdToPage xid"
  have "x \<in> set subs \<longleftrightarrow> x \<in> set (takeWhile ?P subs) \<or> x \<in> set (dropWhile ?P subs)"
    using take_drop_set[of ?P subs] by blast
  then show "apply_writes (tree_writes xid subs st) cl x = set_tree_status st xid subs cl x"
    using assms by (simp add: tree_writes_def Let_def apply_page set_tree_status_def)
qed

lemma SetTreeStatus_many_pages:
  assumes "\<not> InRecovery ctl" "clog_ok s" "tree_ok xid subs st s"
    "length (takeWhile (\<lambda>x. TransactionIdToPage x = TransactionIdToPage xid) subs) \<noteq> length subs"
  shows "performs (tree_writes xid subs st) s (TransactionIdSetTreeStatus ctl xid subs st lsn s)"
proof -
  let ?P = "\<lambda>x. TransactionIdToPage x = TransactionIdToPage xid"
  let ?first = "takeWhile ?P subs" and ?others = "dropWhile ?P subs"
  let ?f = "when_do (\<lambda>s. st = TRANSACTION_STATUS_COMMITTED) (set_status_by_pages ctl ?others TRANSACTION_STATUS_SUB_COMMITTED lsn)"
  let ?g = "TransactionIdSetPageStatus ctl xid ?first st lsn (TransactionIdToPage xid) False"
  let ?h = "set_status_by_pages ctl ?others st lsn"
  let ?pre = "if st = TRANSACTION_STATUS_COMMITTED then sub_writes TRANSACTION_STATUS_SUB_COMMITTED ?others else []"
  have ne: "?others \<noteq> []" using assms(4) by (metis append_Nil2 takeWhile_dropWhile_id)
  have ft: "?P x" "x \<in> set subs" if "x \<in> set ?first" for x using that by (auto dest: set_takeWhileD)
  note ok = assms(3)[unfolded tree_ok_def]
  have op: "open_status (shm_clog s x)" if "x \<in> set ?others" for x using ok that by (auto dest: set_dropWhileD)
  have "performs (?pre @ page_writes xid ?first st @ sub_writes st ?others) s
      (case ?f s of Inl e \<Rightarrow> Inl e | Inr s1 \<Rightarrow> (case ?g s1 of Inl e \<Rightarrow> Inl e | Inr s2 \<Rightarrow> ?h s2))"
  proof (rule performs_seq)
    show "performs ?pre s (?f s)"
    proof (cases "st = TRANSACTION_STATUS_COMMITTED")
      case True
      then show ?thesis using by_pages_ok[OF assms(1,2) ne, of TRANSACTION_STATUS_SUB_COMMITTED lsn] op by (simp add: when_do_def)
    next
      case False
      then show ?thesis using assms(2) by (simp add: when_do_def performs_def)
    qed
  next
    fix s1 assume s1: "?f s = Inr s1" "clog_ok s1" "shm_clog s1 = apply_writes ?pre (shm_clog s)"
    have op1: "open_status (shm_clog s1 x)" if "x \<in> set (xid # subs)" for x
      using ok that s1(3) by (auto simp: open_status_def split: if_splits)
    have "\<forall>x \<in> set (xid # ?first). ?P x \<and> open_status (shm_clog s1 x)"
    proof
      fix x assume "x \<in> set (xid # ?first)"
      then have "x = xid \<or> x \<in> set ?first" by simp
      then show "?P x \<and> open_status (shm_clog s1 x)" using ft[of x] op1[of x] by (elim disjE) simp_all
    qed
    then have one: "one_page xid ?first st (TransactionIdToPage xid) s1"
      unfolding one_page_def using ok by blast
    show "performs (page_writes xid ?first st @ sub_writes st ?others) s1 (case ?g s1 of Inl e \<Rightarrow> Inl e | Inr s2 \<Rightarrow> ?h s2)"
    proof (rule performs_seq)
      show "performs (page_writes xid ?first st) s1 (?g s1)"
        unfolding SetPageStatus_alone using alone_one_page[OF assms(1) s1(2) one refl] .
    next
      fix s2 assume s2: "?g s1 = Inr s2" "clog_ok s2" "shm_clog s2 = apply_writes (page_writes xid ?first st) (shm_clog s1)"
      have "\<forall>x \<in> set ?others. open_status (shm_clog s2 x) \<or> shm_clog s2 x = st"
        using op1 ok by (auto simp: s2(3) apply_page set_tree_status_def dest: set_dropWhileD)
      then show "performs (sub_writes st ?others) s2 (?h s2)"
        using ok by (intro by_pages_ok[OF assms(1) s2(2) ne]) auto
    qed
  qed
  moreover have "TransactionIdSetTreeStatus ctl xid subs st lsn s =
      (case ?f s of Inl e \<Rightarrow> Inl e | Inr s1 \<Rightarrow> (case ?g s1 of Inl e \<Rightarrow> Inl e | Inr s2 \<Rightarrow> ?h s2))"
    using assms(4) ok by (auto simp: TransactionIdSetTreeStatus_def Let_def split: sum.splits)
  ultimately show ?thesis by (simp add: tree_writes_def Let_def)
qed

lemma SetTreeStatus_ok:
  assumes "\<not> InRecovery ctl" "clog_ok s" "group_ok (xid # subs) s" "tree_ok xid subs st s"
  obtains before after where "set (before @ after) \<subseteq> set (queue s)"
    "performs (group_writes (allProcs s) before @ tree_writes xid subs st @ group_writes (allProcs s) after) s
      (TransactionIdSetTreeStatus ctl xid subs st lsn s)"
proof (cases "length (takeWhile (\<lambda>x. TransactionIdToPage x = TransactionIdToPage xid) subs) = length subs")
  case False
  then show thesis using SetTreeStatus_many_pages[OF assms(1,2,4) False] that[of "[]" "[]"] by (simp add: group_writes_def)
next
  case True
  let ?P = "\<lambda>x. TransactionIdToPage x = TransactionIdToPage xid"
  have d: "dropWhile ?P subs = []" using True by (metis append_eq_conv_conj append_Nil2 dropWhile_eq_drop drop_all order_refl)
  then have t: "takeWhile ?P subs = subs" by (metis append_Nil2 takeWhile_dropWhile_id)
  have w: "tree_writes xid subs st = page_writes xid subs st" by (simp add: tree_writes_def Let_def d t sub_writes_def)
  have "?P x" if "x \<in> set subs" for x
    using set_takeWhileD[of x ?P subs] that by (simp only: t)
  then have "one_page xid subs st (TransactionIdToPage xid) s" using assms(4) by (simp add: one_page_def tree_ok_def)
  from assms(1-3) this obtain before after where ba: "set (before @ after) \<subseteq> set (queue s)"
    "performs (group_writes (allProcs s) before @ page_writes xid subs st @ group_writes (allProcs s) after) s
      (TransactionIdSetPageStatus ctl xid subs st lsn (TransactionIdToPage xid) True s)"
    by (rule SetPageStatus_group_ok)
  have "TransactionIdSetTreeStatus ctl xid subs st lsn s = TransactionIdSetPageStatus ctl xid subs st lsn (TransactionIdToPage xid) True s"
    using True assms(4) by (auto simp: TransactionIdSetTreeStatus_def Let_def tree_ok_def)
  then show thesis using that[OF ba(1)] ba(2) w by simp
qed

end
