(* ===== verification/Clog_Atomic.thy ===== *)
theory Clog_Atomic
  imports Clog_Inv
begin

section \<open>What readers of the commit log see\<close>

text \<open>
  A reader asks \<^verbatim>\<open>TransactionIdDidCommit\<close>, which follows \<^verbatim>\<open>pg_subtrans\<close> from a sub-committed id. At
  every point of the sequence of writes of a commit it gives one answer for all ids of the
  transaction. Reading back after setting, the reported LSN, and the effect on the map follow.
\<close>

subsection \<open>Every prefix of a commit\<close>

lemma apply_cong: "cl x = cl' x \<Longrightarrow> apply_writes ws cl x = apply_writes ws cl' x"
proof (induction ws arbitrary: cl cl')
  case (Cons w ws)
  obtain y st where w: "w = (y, st)" by (cases w)
  have "apply_writes ws (cl(y := st)) x = apply_writes ws (cl'(y := st)) x" by (rule Cons.IH) (simp add: Cons.prems)
  then show ?case by (simp add: w)
qed simp

lemma apply_in: "apply_writes ws cl x = cl x \<or> (x, apply_writes ws cl x) \<in> set ws"
proof (induction ws arbitrary: cl)
  case (Cons w ws)
  obtain y st where w: "w = (y, st)" by (cases w)
  define cl1 where "cl1 = cl(y := st)"
  have "cl1 x = (if x = y then st else cl x)" by (simp add: cl1_def)
  moreover have "apply_writes (w # ws) cl = apply_writes ws cl1" by (simp add: w cl1_def)
  ultimately show ?case using Cons.IH[of cl1] w by (auto split: if_splits)
qed simp

lemma apply_mem: "x \<in> fst ` set ws \<Longrightarrow> (x, apply_writes ws cl x) \<in> set ws"
proof (induction ws arbitrary: cl)
  case (Cons w ws)
  show ?case
  proof (cases "x \<in> fst ` set ws")
    case True
    then show ?thesis using Cons.IH by (cases w) auto
  next
    case False
    then show ?thesis using Cons.prems apply_other[OF False] by (cases w) auto
  qed
qed simp

definition commit_point :: "TransactionId \<Rightarrow> TransactionId list \<Rightarrow> clog \<Rightarrow> bool" where
  "commit_point xid subs cl \<longleftrightarrow>
     (if cl xid = TRANSACTION_STATUS_COMMITTED
      then \<forall>x \<in> set subs. cl x = TRANSACTION_STATUS_COMMITTED \<or> cl x = TRANSACTION_STATUS_SUB_COMMITTED
      else cl xid = TRANSACTION_STATUS_IN_PROGRESS \<and> (\<forall>x \<in> set subs. open_status (cl x)))"

lemma commit_prefix_split:
  assumes "xid \<notin> set subs" "cl xid = TRANSACTION_STATUS_IN_PROGRESS" "\<forall>x \<in> set subs. open_status (cl x)"
    "set A \<subseteq> set subs \<times> {TRANSACTION_STATUS_SUB_COMMITTED}" "set subs \<subseteq> fst ` set A"
    "set B \<subseteq> set subs \<times> {TRANSACTION_STATUS_COMMITTED}"
  shows "commit_point xid subs (apply_writes (take n (A @ [(xid, TRANSACTION_STATUS_COMMITTED)] @ B)) cl)"
proof (cases "n \<le> length A")
  case True
  let ?cl = "apply_writes (take n A) cl"
  have s: "set (take n A) \<subseteq> set A" by (rule set_take_subset)
  have "xid \<notin> fst ` set (take n A)" using s assms(1,4) by auto
  then have "?cl xid = TRANSACTION_STATUS_IN_PROGRESS" using assms(2) by (simp add: apply_other)
  moreover have "open_status (?cl x)" if "x \<in> set subs" for x
    using apply_in[of "take n A" cl x] s assms(3,4) that by (auto simp: open_status_def)
  ultimately show ?thesis using True by (simp add: commit_point_def)
next
  case False
  then obtain k where k: "n = Suc (length A + k)" by (metis add_Suc_right less_iff_Suc_add not_le)
  let ?cl1 = "(apply_writes A cl)(xid := TRANSACTION_STATUS_COMMITTED)" and ?B = "take k B"
  have s: "set ?B \<subseteq> set B" by (rule set_take_subset)
  have "xid \<notin> fst ` set ?B" using s assms(1,6) by auto
  then have "apply_writes ?B ?cl1 xid = TRANSACTION_STATUS_COMMITTED" by (simp add: apply_other)
  moreover have "apply_writes ?B ?cl1 x = TRANSACTION_STATUS_COMMITTED \<or> apply_writes ?B ?cl1 x = TRANSACTION_STATUS_SUB_COMMITTED"
    if x: "x \<in> set subs" for x
  proof -
    have "(x, apply_writes A cl x) \<in> set A" using assms(5) x by (intro apply_mem) auto
    then have "?cl1 x = TRANSACTION_STATUS_SUB_COMMITTED" using assms(1,4) x by auto
    then show ?thesis using apply_in[of ?B ?cl1 x] s assms(6) by auto
  qed
  ultimately show ?thesis using k by (simp add: commit_point_def)
qed

lemma commit_prefix:
  assumes "TransactionIdIsValid xid" "xid \<notin> set subs" "cl xid = TRANSACTION_STATUS_IN_PROGRESS" "\<forall>x \<in> set subs. open_status (cl x)"
  shows "commit_point xid subs (apply_writes (take n (tree_writes xid subs TRANSACTION_STATUS_COMMITTED)) cl)"
proof -
  let ?P = "\<lambda>x. TransactionIdToPage x = TransactionIdToPage xid"
  let ?f = "takeWhile ?P subs" and ?o = "dropWhile ?P subs"
  let ?A = "sub_writes TRANSACTION_STATUS_SUB_COMMITTED ?o @ sub_writes TRANSACTION_STATUS_SUB_COMMITTED ?f"
  let ?B = "sub_writes TRANSACTION_STATUS_COMMITTED ?f @ sub_writes TRANSACTION_STATUS_COMMITTED ?o"
  have u: "set subs = set ?f \<union> set ?o" by (simp add: take_drop_set)
  have w: "tree_writes xid subs TRANSACTION_STATUS_COMMITTED = ?A @ [(xid, TRANSACTION_STATUS_COMMITTED)] @ ?B"
    using assms(1) by (simp add: tree_writes_def page_writes_def Let_def)
  show ?thesis unfolding w
  proof (rule commit_prefix_split[OF assms(2-4)])
    show "set ?A \<subseteq> set subs \<times> {TRANSACTION_STATUS_SUB_COMMITTED}" "set ?B \<subseteq> set subs \<times> {TRANSACTION_STATUS_COMMITTED}"
      unfolding u by auto
    show "set subs \<subseteq> fst ` set ?A" unfolding u by (simp add: image_Un)
  qed
qed

text \<open>Writes of other transactions around it do not show on these ids.\<close>

lemma apply_around:
  assumes "X \<inter> fst ` set a = {}" "X \<inter> fst ` set c = {}"
  shows "\<exists>m. \<forall>x \<in> X. apply_writes (take n (a @ b @ c)) cl x = apply_writes (take m b) cl x"
proof (intro exI ballI)
  fix x assume x: "x \<in> X"
  let ?a = "take n a" and ?b = "take (n - length a) b" and ?c = "take (n - length a - length b) c"
  have "fst ` set ?c \<subseteq> fst ` set c" "fst ` set ?a \<subseteq> fst ` set a" by (intro image_mono set_take_subset)+
  then have "x \<notin> fst ` set ?c" "x \<notin> fst ` set ?a" using x assms by blast+
  then have "apply_writes (?a @ ?b @ ?c) cl x = apply_writes ?b (apply_writes ?a cl) x" "apply_writes ?a cl x = cl x"
    by (simp_all add: apply_other)
  moreover have "take n (a @ b @ c) = ?a @ ?b @ ?c" by simp
  ultimately show "apply_writes (take n (a @ b @ c)) cl x = apply_writes ?b cl x"
    using apply_cong[of "apply_writes ?a cl" x cl ?b] by (simp only:)
qed

lemma fst_group: "fst ` set (group_writes procs ps) \<subseteq> set (group_xids procs ps)"
proof (induction ps)
  case (Cons p ps)
  have "fst ` set (member_writes (procs p)) \<subseteq> set (member_xids (procs p))"
    by (simp add: member_writes_def member_xids_def fst_page subset_insertI)
  moreover have "group_writes procs (p # ps) = member_writes (procs p) @ group_writes procs ps"
    "group_xids procs (p # ps) = member_xids (procs p) @ group_xids procs ps"
    by (simp_all add: group_writes_def group_xids_def)
  ultimately show ?case using Cons.IH by (simp only: set_append image_Un) blast
qed (simp add: group_writes_def)

lemma foreign_disjoint:
  assumes "group_ok mine s" "set ps \<subseteq> set (queue s)"
  shows "set mine \<inter> fst ` set (group_writes (allProcs s) ps) = {}"
proof -
  have "set (group_xids (allProcs s) ps) \<subseteq> set (group_xids (allProcs s) (queue s))" using assms(2) by (auto simp: group_xids_def)
  then show ?thesis using fst_group[of "allProcs s" ps] assms(1) by (auto simp: group_ok_def Let_def)
qed


subsection \<open>The reader\<close>

text \<open>Each subtransaction's parent comes before it in the list.\<close>

definition linked :: "subtrans \<Rightarrow> TransactionId \<Rightarrow> TransactionId list \<Rightarrow> bool" where
  "linked subt xid subs \<longleftrightarrow> (\<forall>i < length subs. \<exists>j \<le> i. subt (subs ! i) = Some ((xid # subs) ! j))"

definition readable :: "TransactionId \<Rightarrow> TransactionId \<Rightarrow> TransactionId list \<Rightarrow> fetch_cache \<Rightarrow> bool" where
  "readable xmin xid subs c \<longleftrightarrow> (\<forall>x \<in> set (xid # subs). TransactionIdIsNormal x \<and> x \<noteq> cachedFetchXid c) \<and>
     (\<forall>x \<in> set subs. \<not> TransactionIdPrecedes x xmin)"

lemma DidCommit_at:
  assumes "commit_point xid subs cl" "linked subt xid subs" "readable xmin xid subs c" "i \<le> length subs"
  shows "\<exists>c'. TransactionIdDidCommit cl subt xmin ((xid # subs) ! i) c = Some (cl xid = TRANSACTION_STATUS_COMMITTED, c')"
  using assms(4)
proof (induction i rule: less_induct)
  case (less i)
  let ?x = "(xid # subs) ! i"
  have mem: "?x \<in> set (xid # subs)" using less.prems by (metis le_imp_less_Suc length_Cons nth_mem)
  then have x: "TransactionIdIsNormal ?x" "?x \<noteq> cachedFetchXid c" using assms(3) unfolding readable_def by blast+
  have final: "\<exists>c'. TransactionIdDidCommit cl subt xmin ?x c = Some (cl ?x = TRANSACTION_STATUS_COMMITTED, c')"
    if "cl ?x \<noteq> TRANSACTION_STATUS_SUB_COMMITTED"
    using x that by (subst TransactionIdDidCommit.simps) (auto simp: TransactionLogFetch_def Let_def)
  show ?case
  proof (cases i)
    case 0
    then show ?thesis using final assms(1) by (auto simp: commit_point_def split: if_splits)
  next
    case (Suc k)
    have k: "k < length subs" using less.prems Suc by simp
    then have sub: "?x \<in> set subs" using Suc by simp
    obtain j where j: "j \<le> k" "subt ?x = Some ((xid # subs) ! j)" using assms(2) k Suc by (auto simp: linked_def)
    show ?thesis
    proof (cases "cl ?x = TRANSACTION_STATUS_SUB_COMMITTED")
      case False
      then have "(cl ?x = TRANSACTION_STATUS_COMMITTED) = (cl xid = TRANSACTION_STATUS_COMMITTED)"
        using assms(1) sub by (auto simp: commit_point_def open_status_def split: if_splits)
      then show ?thesis using final False by simp
    next
      case True
      have jm: "(xid # subs) ! j \<in> set (xid # subs)" using j(1) k by (intro nth_mem) simp
      then have v: "TransactionIdIsValid ((xid # subs) ! j)"
        using assms(3) by (auto simp: readable_def xid_consts)
      have "TransactionIdDidCommit cl subt xmin ?x c = TransactionIdDidCommit cl subt xmin ((xid # subs) ! j) c"
        using x True v j(2) assms(3) sub
        by (subst TransactionIdDidCommit.simps) (simp add: TransactionLogFetch_def Let_def readable_def)
      then show ?thesis using less.IH[of j] j(1) k Suc by simp
    qed
  qed
qed

lemma commit_point_cong:
  "(\<And>x. x \<in> set (xid # subs) \<Longrightarrow> cl x = cl' x) \<Longrightarrow> commit_point xid subs cl = commit_point xid subs cl'"
  by (simp add: commit_point_def)

lemma commit_readers:
  assumes "\<not> InRecovery ctl" "clog_ok s" "group_ok (xid # subs) s" "tree_ok xid subs TRANSACTION_STATUS_COMMITTED s"
    "shm_clog s xid = TRANSACTION_STATUS_IN_PROGRESS" "linked subt xid subs" "readable xmin xid subs c"
  shows "\<exists>ws. performs ws s (TransactionIdSetTreeStatus ctl xid subs TRANSACTION_STATUS_COMMITTED lsn s) \<and>
    (\<forall>n. let cl = apply_writes (take n ws) (shm_clog s) in \<forall>x \<in> set (xid # subs).
       \<exists>c'. TransactionIdDidCommit cl subt xmin x c = Some (cl xid = TRANSACTION_STATUS_COMMITTED, c'))"
proof -
  from assms(1-4) obtain before after where ba: "set (before @ after) \<subseteq> set (queue s)"
    "performs (group_writes (allProcs s) before @ tree_writes xid subs TRANSACTION_STATUS_COMMITTED @ group_writes (allProcs s) after) s
      (TransactionIdSetTreeStatus ctl xid subs TRANSACTION_STATUS_COMMITTED lsn s)" (is "performs ?ws s _")
    by (rule SetTreeStatus_ok)
  have dis: "set (xid # subs) \<inter> fst ` set (group_writes (allProcs s) before) = {}"
    "set (xid # subs) \<inter> fst ` set (group_writes (allProcs s) after) = {}"
    using ba(1) by (intro foreign_disjoint[OF assms(3)]; simp)+
  have xs: "xid \<notin> set subs" using assms(3) by (auto simp: group_ok_def Let_def)
  have "\<exists>c'. TransactionIdDidCommit (apply_writes (take n ?ws) (shm_clog s)) subt xmin x c =
      Some (apply_writes (take n ?ws) (shm_clog s) xid = TRANSACTION_STATUS_COMMITTED, c')" if x: "x \<in> set (xid # subs)" for n x
  proof -
    obtain m where m: "\<forall>x \<in> set (xid # subs). apply_writes (take n ?ws) (shm_clog s) x =
        apply_writes (take m (tree_writes xid subs TRANSACTION_STATUS_COMMITTED)) (shm_clog s) x"
      using apply_around[OF dis] by blast
    have "commit_point xid subs (apply_writes (take m (tree_writes xid subs TRANSACTION_STATUS_COMMITTED)) (shm_clog s))"
      using assms(4,5) xs by (intro commit_prefix) (auto simp: tree_ok_def)
    then have cp: "commit_point xid subs (apply_writes (take n ?ws) (shm_clog s))" using commit_point_cong m by metis
    obtain i where i: "i \<le> length subs" "x = (xid # subs) ! i" using x by (metis in_set_conv_nth length_Cons less_Suc_eq_le)
    show ?thesis unfolding i(2) by (rule DidCommit_at[OF cp assms(6,7) i(1)])
  qed
  then show ?thesis using ba(2) unfolding Let_def by blast
qed


subsection \<open>The map\<close>

text \<open>
  Setting the status of a tree implements \<^const>\<open>set_tree_status\<close> on the map: on the ids of the tree exactly,
  and elsewhere up to the transactions that were updated with it as a group.
\<close>

lemma SetTreeStatus_map:
  assumes "\<not> InRecovery ctl" "clog_ok s" "group_ok (xid # subs) s" "tree_ok xid subs st s"
    "TransactionIdSetTreeStatus ctl xid subs st lsn s = Inr s'"
  shows "clog_ok s'" "x \<notin> set (group_xids (allProcs s) (queue s)) \<Longrightarrow> shm_clog s' x = set_tree_status st xid subs (shm_clog s) x"
    "calm X (XactSlru s) \<Longrightarrow> calm X (XactSlru s')"
proof -
  from assms(1-4) obtain before after where ba: "set (before @ after) \<subseteq> set (queue s)"
    "performs (group_writes (allProcs s) before @ tree_writes xid subs st @ group_writes (allProcs s) after) s
      (TransactionIdSetTreeStatus ctl xid subs st lsn s)"
    by (rule SetTreeStatus_ok)
  then have p: "clog_ok s'" "shm_clog s' = apply_writes (group_writes (allProcs s) after)
      (apply_writes (tree_writes xid subs st) (apply_writes (group_writes (allProcs s) before) (shm_clog s)))"
    "\<forall>X. calm X (XactSlru s) \<longrightarrow> calm X (XactSlru s')"
    using assms(5) by (simp_all add: performs_def)
  show "clog_ok s'" by (rule p(1))
  show "calm X (XactSlru s) \<Longrightarrow> calm X (XactSlru s')" using p(3) by blast
  have v: "TransactionIdIsValid xid" using assms(4) by (simp add: tree_ok_def)
  assume x: "x \<notin> set (group_xids (allProcs s) (queue s))"
  have "set (group_xids (allProcs s) before) \<subseteq> set (group_xids (allProcs s) (queue s))"
    "set (group_xids (allProcs s) after) \<subseteq> set (group_xids (allProcs s) (queue s))"
    using ba(1) by (auto simp: group_xids_def)
  then have nb: "x \<notin> fst ` set (group_writes (allProcs s) before)" and na: "x \<notin> fst ` set (group_writes (allProcs s) after)"
    using x fst_group[of "allProcs s" before] fst_group[of "allProcs s" after] by blast+
  have "shm_clog s' x = set_tree_status st xid subs (apply_writes (group_writes (allProcs s) before) (shm_clog s)) x"
    by (simp only: p(2) apply_other[OF na] apply_tree[OF v])
  also have "\<dots> = set_tree_status st xid subs (shm_clog s) x" by (simp add: set_tree_status_def apply_other[OF nb])
  finally show "shm_clog s' x = set_tree_status st xid subs (shm_clog s) x" .
qed

text \<open>With a healthy disk the status is recorded.\<close>

lemma SetTreeStatus_returns:
  assumes "\<not> InRecovery ctl" "clog_ok s" "group_ok (xid # subs) s" "tree_ok xid subs st s"
    "calm (set (xid # subs) \<union> set (group_xids (allProcs s) (queue s))) (XactSlru s)"
  shows "\<exists>s'. TransactionIdSetTreeStatus ctl xid subs st lsn s = Inr s'"
proof -
  from assms(1-4) obtain before after where ba: "set (before @ after) \<subseteq> set (queue s)"
    "performs (group_writes (allProcs s) before @ tree_writes xid subs st @ group_writes (allProcs s) after) s
      (TransactionIdSetTreeStatus ctl xid subs st lsn s)" (is "performs ?ws s _")
    by (rule SetTreeStatus_ok)
  have v: "TransactionIdIsValid xid" using assms(4) by (simp add: tree_ok_def)
  have "set (group_xids (allProcs s) before) \<subseteq> set (group_xids (allProcs s) (queue s))"
    "set (group_xids (allProcs s) after) \<subseteq> set (group_xids (allProcs s) (queue s))"
    using ba(1) by (auto simp: group_xids_def)
  then have "fst ` set ?ws \<subseteq> set (xid # subs) \<union> set (group_xids (allProcs s) (queue s))"
    using fst_group[of "allProcs s" before] fst_group[of "allProcs s" after] fst_tree[OF v, of subs st]
    by (simp only: set_append image_Un) blast
  then have "calm (fst ` set ?ws) (XactSlru s)" using calm_mono assms(5) by blast
  then show ?thesis using ba(2) by (cases "TransactionIdSetTreeStatus ctl xid subs st lsn s") (auto simp: performs_def)
qed

lemma GetStatus_ok:
  assumes "\<not> InRecovery ctl" "clog_ok s"
  shows "case TransactionIdGetStatus ctl xid s of
      Inl (e, s') \<Rightarrow> io_error e \<and> clog_ok s' \<and> shm_clog s' = shm_clog s \<and> \<not> calm {xid} (XactSlru s)
    | Inr ((st, l), s') \<Rightarrow> st = shm_clog s xid \<and> clog_ok s' \<and> shm_clog s' = shm_clog s"
proof -
  let ?r = "SimpleLruReadPage_ReadOnly ctl (TransactionIdToPage xid) (XactSlru s)"
  have ok: "slru_ok (XactSlru s)" using assms(2) by (simp add: clog_ok_def clog_slru_ok_def)
  note o = SimpleLruReadPage_ReadOnly_ok[OF assms(1) ok, of "TransactionIdToPage xid"]
  have q: "calm {xid} (XactSlru s) \<Longrightarrow> quiet ?r" using ok by (intro quiet_read_only) (auto simp: calm_def)
  show ?thesis
  proof (cases ?r)
    case (Inl a)
    obtain e x where a: "a = (e, x)" by (cases a)
    then have k: "io_error e" "slru_ok x" "keeps_pages (XactSlru s) x" using o Inl by (auto simp: outcome_ok_def)
    have "\<not> calm {xid} (XactSlru s)" using q Inl a k(1) by auto
    then show ?thesis using Inl a k assms(2) keeps_clog_ok[OF k(3,2)] xact_view_keeps[OF k(3)]
      by (simp add: TransactionIdGetStatus_def on_xact_def Let_def clog_ok_def)
  next
    case (Inr a)
    obtain i x where a: "a = (i, x)" by (cases a)
    then have k: "slru_ok x" "found (TransactionIdToPage xid) True (XactSlru s) i x" using o Inr by (auto simp: outcome_ok_def)
    have kp: "keeps_pages (XactSlru s) x" using k(2) by (simp add: found_def)
    have "xact_view x xid = page_bits (page_buffer x i) xid" using found_page[OF k] by (simp add: xact_view_def)
    then show ?thesis using Inr a k assms(2) keeps_clog_ok[OF kp k(1)] xact_view_keeps[OF kp]
      by (simp add: TransactionIdGetStatus_def on_xact_def Let_def clog_ok_def page_bits_def get_bits_def CLOG_BITS_PER_XACT_def)
  qed
qed

text \<open>The LSN of an asynchronous commit is not forgotten while the page stays in the cache.\<close>

lemma GetStatus_lsn:
  assumes "clog_ok s" "lsn_noted lsn xid (XactSlru s)"
  shows "\<exists>l s'. TransactionIdGetStatus ctl xid s = Inr ((shm_clog s xid, l), s') \<and> lsn \<le> l"
proof -
  let ?s = "XactSlru s" and ?p = "TransactionIdToPage xid"
  obtain i where i: "i < num_slots ?s" "loaded ?s i" "page_number ?s i = ?p" "lsn \<le> lsn_of ?s i xid"
    using assms(2) by (auto simp: lsn_noted_def)
  have u: "unique_pages ?s" using assms(1) by (simp add: clog_ok_def clog_slru_ok_def slru_ok_def)
  let ?P = "\<lambda>j. page_number ?s j = ?p \<and> page_status ?s j \<noteq> SLRU_PAGE_EMPTY \<and> page_status ?s j \<noteq> SLRU_PAGE_READ_IN_PROGRESS"
  have Pi: "?P i" using i by (auto simp: loaded_def)
  have one: "j = i" if "j < num_slots ?s" "?P j" for j
    by (rule u[unfolded unique_pages_def, rule_format]) (use that i(1) Pi in simp_all)
  have "find ?P [0..<num_slots ?s] = Some i"
  proof (cases "find ?P [0..<num_slots ?s]")
    case None
    then show ?thesis using Pi i(1) by (auto simp: find_None_iff)
  next
    case (Some j)
    then have "j < num_slots ?s \<and> ?P j" by (auto simp: find_Some_iff)
    then show ?thesis using one Some by blast
  qed
  then have "SimpleLruReadPage_ReadOnly ctl ?p ?s = Inr (i, SlruRecentlyUsed i ?s)" by (simp add: SimpleLruReadPage_ReadOnly_def)
  moreover have "xact_view ?s xid = page_bits (page_buffer ?s i) xid" using page_of_slot[OF u i(1,2)] i(3) by (simp add: xact_view_def)
  moreover have "page_buffer (SlruRecentlyUsed i ?s) = page_buffer ?s" "group_lsn (SlruRecentlyUsed i ?s) = group_lsn ?s"
    by (simp_all add: SlruRecentlyUsed_def Let_def)
  ultimately show ?thesis using i(4)
    by (simp add: TransactionIdGetStatus_def on_xact_def Let_def page_bits_def get_bits_def CLOG_BITS_PER_XACT_def lsn_of_def)
qed

end
