(* ===== verification/Clog_Maint.thy ===== *)
theory Clog_Maint
  imports Clog_Atomic
begin

section \<open>Maintenance of the commit log\<close>

text \<open>
  The order of pages under wraparound, and what extension, trimming, checkpoints, truncation and
  replay do to the status map.
\<close>

subsection \<open>Page numbers under wraparound\<close>

lemma sint_neg: "sint w < 0 \<longleftrightarrow> 2 ^ 31 \<le> unat w" for w :: "32 word"
proof (cases "unat w < 2 ^ 31")
  case True
  then have "sint w = uint w" by (rule sint_small)
  then show ?thesis using True by simp
next
  case False
  have "\<not> uint w < 2 ^ 31"
  proof
    assume "uint w < 2 ^ 31"
    then have "nat (uint w) < nat (2 ^ 31)" by (intro nat_mono_iff[THEN iffD2]) simp_all
    then show False using False by simp
  qed
  moreover have "uint w < 2 ^ LENGTH(32)" by (rule uint_lt2p)
  ultimately have b: "uint w < 2 ^ 32" "2 ^ 31 \<le> uint w" by simp_all
  then have "uint w div 2 ^ 31 = 1" by (intro int_div_pos_eq[where r = "uint w - 2 ^ 31"]) simp_all
  then have "bit (uint w) 31" by (simp add: bit_iff_odd)
  then have "signed_take_bit 31 (uint w) < 0" by (simp add: signed_take_bit_negative_iff)
  then show ?thesis using False by (simp add: sint_uint)
qed

lemma unat_of_nat_32: "unat (of_nat n :: 32 word) = n mod 2 ^ 32"
  by (simp add: unat_of_nat)

lemma power_32: "K dvd 2 ^ 31 \<Longrightarrow> K dvd 2 ^ 32" for K :: nat
  by (erule dvd_trans) (rule le_imp_power_dvd, simp)

lemma unat_add_small: "unat a + n < 2 ^ 32 \<Longrightarrow> unat (a + of_nat n) = unat a + n" for a :: "32 word"
  by (simp add: unat_word_ariths unat_of_nat)

lemma unat_less_32: "unat a < 2 ^ 32" for a :: "32 word"
  using unsigned_less[of a, where 'a = nat] by simp

lemma unat_sub_small:
  fixes a :: "32 word"
  assumes "n \<le> unat a"
  shows "unat (a - of_nat n) = unat a - n"
proof -
  have "(of_nat (unat a - n) :: 32 word) = of_nat (unat a) - of_nat n" using assms by (rule of_nat_diff)
  also have "\<dots> = a - of_nat n" by simp
  finally have "unat (a - of_nat n) = (unat a - n) mod 2 ^ 32" using unat_of_nat_32[of "unat a - n"] by simp
  also have "\<dots> = unat a - n" using unat_less_32[of a] by (intro mod_less) linarith
  finally show ?thesis .
qed

lemma half_convex:
  fixes d :: "32 word"
  assumes "sint d < 0" "sint (d + of_nat m) < 0" "m < 2 ^ 31" "r \<le> m"
  shows "sint (d + of_nat r) < 0"
proof -
  have d: "2 ^ 31 \<le> unat d" "unat d < 2 ^ 32" using assms(1) unsigned_less[of d] by (simp_all add: sint_neg)
  have "unat d + m < 2 ^ 32"
  proof (rule ccontr)
    assume *: "\<not> unat d + m < 2 ^ 32"
    have "unat (d + of_nat m) = (unat d + m) mod 2 ^ 32" by (simp add: unat_word_ariths unat_of_nat mod_simps)
    also have "\<dots> = unat d + m - 2 ^ 32" using * d(2) assms(3) by (subst le_mod_geq) simp_all
    finally have "unat (d + of_nat m) < 2 ^ 31" using d(2) assms(3) by simp
    then show False using assms(2) by (simp add: sint_neg)
  qed
  then have "unat (d + of_nat r) = unat d + r" using assms(4) by (intro unat_add_small) simp
  then show ?thesis using d(1) by (simp add: sint_neg)
qed

text \<open>The page order of both clients, with \<open>K\<close> transaction ids per page.\<close>

definition page_prec :: "nat \<Rightarrow> nat \<Rightarrow> nat \<Rightarrow> bool" where
  "page_prec K p q \<longleftrightarrow> (let d = (of_nat p - of_nat q) * of_nat K :: 32 word in
     sint d < 0 \<and> sint (d - of_nat (K - 1)) < 0)"

lemma page_prec_convex:
  assumes "page_prec K a c" "page_prec K (a + m) c" "r \<le> m" "m * K < 2 ^ 31"
  shows "page_prec K (a + r) c"
proof -
  let ?d = "(of_nat a - of_nat c) * of_nat K :: 32 word"
  have e: "(of_nat (a + n) - of_nat c) * of_nat K = ?d + of_nat (n * K)" for n by (simp add: algebra_simps)
  have f: "?d + of_nat (n * K) - of_nat (K - 1) = (?d - of_nat (K - 1)) + of_nat (n * K)" for n by simp
  have rk: "r * K \<le> m * K" using assms(3) by simp
  show ?thesis
    using assms(1,2) half_convex[of ?d "m * K" "r * K"] half_convex[of "?d - of_nat (K - 1)" "m * K" "r * K"] rk assms(4)
    unfolding page_prec_def Let_def e f by blast
qed

lemma multiple_normal:
  assumes "K dvd 2 ^ 32" "e < K - 3"
  shows "TransactionIdIsNormal (of_nat p * of_nat K + 3 + of_nat e)"
proof -
  have "(p * K + 3 + e) mod 2 ^ 32 mod K = (3 + e) mod K"
    using assms(1) by (simp add: mod_mod_cancel add.assoc)
  moreover have "(3 + e) mod K = 3 + e" using assms(2) by simp
  ultimately have "3 \<le> (p * K + 3 + e) mod 2 ^ 32" by (metis le_add1 mod_less_eq_dividend order_trans)
  then have "3 \<le> unat (of_nat (p * K + 3 + e) :: 32 word)" by (simp only: unat_of_nat_32)
  moreover have "(of_nat (p * K + 3 + e) :: 32 word) = of_nat p * of_nat K + 3 + of_nat e" by simp
  ultimately show ?thesis by (simp only: TransactionIdIsNormal_def FirstNormalTransactionId_def word_le_nat_alt) simp
qed

text \<open>A page that precedes the page of \<open>old\<close> holds only ids that precede \<open>old\<close>.\<close>

lemma page_prec_xids:
  fixes x old :: "32 word"
  assumes K: "K dvd 2 ^ 31" "0 < K" and p: "page_prec K (unat x div K) (unat old div K)"
  shows "sint (x - old) < 0"
proof -
  let ?d = "(of_nat (unat x div K) - of_nat (unat old div K)) * of_nat K :: 32 word"
  let ?a = "unat x mod K" and ?b = "unat old mod K"
  have split: "(y :: 32 word) = of_nat (unat y div K) * of_nat K + of_nat (unat y mod K)" for y
  proof -
    have "(of_nat (unat y div K * K + unat y mod K) :: 32 word) = of_nat (unat y)" by (simp only: div_mult_mod_eq)
    also have "\<dots> = y" by simp
    finally show ?thesis by (simp only: of_nat_add of_nat_mult)
  qed
  have diff: "x - old = ?d + of_nat ?a - of_nat ?b"
    by (subst split[of x], subst split[of old]) (simp add: algebra_simps)
  have lt: "?a < K" "?b < K" using K(2) by simp_all
  have big: "2 ^ 31 \<le> unat ?d" "2 ^ 31 \<le> unat (?d - of_nat (K - 1))" using p by (simp_all add: page_prec_def Let_def sint_neg)
  have dvd: "K dvd unat ?d"
  proof -
    let ?q = "of_nat (unat x div K) - of_nat (unat old div K) :: 32 word"
    have "?d = of_nat (unat ?q * K)" by simp
    then have "unat ?d = (unat ?q * K) mod 2 ^ 32" using unat_of_nat_32[of "unat ?q * K"] by simp
    then show ?thesis using dvd_mod[OF dvd_triv_right power_32[OF K(1)], of "unat ?q"] by simp
  qed
  have up: "unat ?d + K \<le> 2 ^ 32"
  proof -
    obtain j where j: "unat ?d = K * j" using dvd by (elim dvdE)
    obtain m where m: "2 ^ 32 = K * m" using power_32[OF K(1)] by (elim dvdE)
    have "K * j < K * m" using unat_less_32[of ?d] j m by simp
    then have "j + 1 \<le> m" by simp
    then have "K * (j + 1) \<le> K * m" by (rule mult_le_mono2)
    then show ?thesis using j m by simp
  qed
  have low: "2 ^ 31 + (K - 1) \<le> unat ?d"
  proof -
    have "K \<le> 2 ^ 31" using K(1) by (simp add: dvd_imp_le)
    then have k: "K - 1 \<le> unat ?d" using big(1) by simp
    have "unat (?d - of_nat (K - 1)) = unat ?d - (K - 1)"
      using k by (rule unat_sub_small)
    then show ?thesis using big(2) k by simp
  qed
  have "unat (?d + of_nat ?a) = unat ?d + ?a" using up lt(1) by (intro unat_add_small) simp
  then have "unat (?d + of_nat ?a - of_nat ?b) = unat ?d + ?a - ?b"
    using low lt(2) unat_sub_small[of ?b "?d + of_nat ?a"] by simp
  then show ?thesis using low lt unfolding diff sint_neg by simp
qed


lemma clog_prec: "CLOGPagePrecedes p q = page_prec CLOG_XACTS_PER_PAGE p q"
proof -
  let ?K = CLOG_XACTS_PER_PAGE
  let ?x1 = "of_nat p * of_nat ?K + (FirstNormalTransactionId + 1) :: 32 word"
  let ?x2 = "of_nat q * of_nat ?K + (FirstNormalTransactionId + 1) :: 32 word"
  have K: "?K dvd 2 ^ 32" "1 < ?K - 3" by (simp_all add: clog_consts)
  have n: "TransactionIdIsNormal ?x1" "TransactionIdIsNormal ?x2" "TransactionIdIsNormal (?x2 + of_nat ?K - 1)"
    using multiple_normal[OF K, of p] multiple_normal[OF K, of q] multiple_normal[OF K(1), of 0 "q + 1"]
    by (simp_all add: FirstNormalTransactionId_def algebra_simps clog_consts)
  have d: "?x1 - ?x2 = (of_nat p - of_nat q) * of_nat ?K"
    "?x1 - (?x2 + of_nat ?K - 1) = (of_nat p - of_nat q) * of_nat ?K - of_nat (?K - 1)"
    by (simp_all add: algebra_simps clog_consts)
  show ?thesis unfolding CLOGPagePrecedes_def page_prec_def Let_def TransactionIdPrecedes_def using n d by simp
qed

interpretation clog_pages: page_order CLOGPagePrecedes
proof
  fix seg c r
  let ?a = "seg * SLRU_PAGES_PER_SEGMENT"
  assume a: "CLOGPagePrecedes ?a c" "CLOGPagePrecedes (?a + SLRU_PAGES_PER_SEGMENT - 1) c" "r < SLRU_PAGES_PER_SEGMENT"
  have e: "?a + SLRU_PAGES_PER_SEGMENT - 1 = ?a + (SLRU_PAGES_PER_SEGMENT - 1)" by (simp add: SLRU_PAGES_PER_SEGMENT_def)
  have "(SLRU_PAGES_PER_SEGMENT - 1) * CLOG_XACTS_PER_PAGE < 2 ^ 31" by (simp add: clog_consts SLRU_PAGES_PER_SEGMENT_def)
  then show "CLOGPagePrecedes (?a + r) c"
    using a page_prec_convex[of CLOG_XACTS_PER_PAGE ?a c "SLRU_PAGES_PER_SEGMENT - 1" r] unfolding clog_prec e by simp
qed

lemma clog_page_old:
  assumes "CLOGPagePrecedes (TransactionIdToPage x) (TransactionIdToPage old)" "TransactionIdIsNormal x" "TransactionIdIsNormal old"
  shows "TransactionIdPrecedes x old"
  using page_prec_xids[of CLOG_XACTS_PER_PAGE x old] assms
  by (simp add: clog_prec TransactionIdToPage_def TransactionIdPrecedes_def clog_consts)


subsection \<open>Extension\<close>

definition clear_page :: "nat \<Rightarrow> clog \<Rightarrow> clog" where
  "clear_page p cl = (\<lambda>x. if TransactionIdToPage x = p then TRANSACTION_STATUS_IN_PROGRESS else cl x)"

lemma zeroed_view:
  assumes "zeroed p s i s'"
  shows "xact_view s' = clear_page p (xact_view s)"
proof
  fix x
  show "xact_view s' x = clear_page p (xact_view s) x"
    using assms xact_view_grown[of s x s'] by (auto simp: zeroed_def clear_page_def xact_view_def page_bits_zero)
qed

lemma ZeroCLOGPage_ok:
  assumes "clog_ok s"
  shows "case ZeroCLOGPage ctl p w s of
      Inl (e, s') \<Rightarrow> io_error e \<and> clog_ok s' \<and> shm_clog s' = shm_clog s \<and> io_results (XactSlru s) \<noteq> []
    | Inr (i, s') \<Rightarrow> clog_ok s' \<and> shm_clog s' = clear_page p (shm_clog s) \<and> page_of (XactSlru s') p = Some zero_page \<and>
        zeroed p (XactSlru s) i (XactSlru s') \<and> xlog s' = (if w then xlog s @ [CLOG_ZEROPAGE p] else xlog s)"
proof -
  have ok: "slru_ok (XactSlru s)" using assms by (simp add: clog_ok_def clog_slru_ok_def)
  note o = SimpleLruZeroPage_ok[OF ok, of p ctl]
  have q: "io_results (XactSlru s) = [] \<Longrightarrow> quiet (SimpleLruZeroPage ctl p (XactSlru s))" by (rule quiet_zero)
  show ?thesis
  proof (cases "SimpleLruZeroPage ctl p (XactSlru s)")
    case (Inl a)
    obtain e x where a: "a = (e, x)" by (cases a)
    then have k: "io_error e" "slru_ok x" "keeps_pages (XactSlru s) x" using o Inl by (auto simp: outcome_ok_def)
    have "io_results (XactSlru s) \<noteq> []" using q Inl a k(1) by auto
    then show ?thesis using Inl a k(1) assms keeps_clog_ok[OF k(3,2)] xact_view_keeps[OF k(3)]
      by (simp add: ZeroCLOGPage_def on_xact_def clog_ok_def)
  next
    case (Inr a)
    obtain i x where a: "a = (i, x)" by (cases a)
    then have k: "slru_ok x" "zeroed p (XactSlru s) i x" using o Inr by (auto simp: outcome_ok_def)
    then have "clog_slru_ok x" using assms by (simp add: clog_ok_def clog_slru_ok_def zeroed_def)
    then show ?thesis using Inr a k zeroed_view[OF k(2)]
      by (simp add: ZeroCLOGPage_def on_xact_def clog_ok_def WriteZeroPageXlogRec_def XLogInsert_record_def zeroed_def)
  qed
qed

definition first_of_page :: "TransactionId \<Rightarrow> bool" where
  "first_of_page x \<longleftrightarrow> TransactionIdToPgIndex x = 0 \<or> x = FirstNormalTransactionId"

lemma ExtendCLOG_ok:
  assumes "clog_ok s"
  shows "case ExtendCLOG ctl x s of
      Inl (e, s') \<Rightarrow> io_error e \<and> clog_ok s' \<and> shm_clog s' = shm_clog s \<and> io_results (XactSlru s) \<noteq> []
    | Inr s' \<Rightarrow> clog_ok s' \<and> (if first_of_page x
        then shm_clog s' = clear_page (TransactionIdToPage x) (shm_clog s) \<and> page_of (XactSlru s') (TransactionIdToPage x) \<noteq> None \<and>
          xlog s' = xlog s @ [CLOG_ZEROPAGE (TransactionIdToPage x)]
        else s' = s)"
proof (cases "first_of_page x")
  case False
  then show ?thesis using assms by (simp add: ExtendCLOG_def first_of_page_def)
next
  case True
  then show ?thesis using ZeroCLOGPage_ok[OF assms, where ctl = ctl and p = "TransactionIdToPage x" and w = True]
    by (cases "ZeroCLOGPage ctl (TransactionIdToPage x) True s") (auto simp: ExtendCLOG_def first_of_page_def let_do_def upd_def)
qed

text \<open>Bootstrap and replay write the zeroed page out.\<close>

lemma zero_and_write_ok:
  assumes "clog_ok s"
  shows "case zero_and_write ctl p s of
      Inl (e, s') \<Rightarrow> io_error e \<and> clog_ok s'
    | Inr s' \<Rightarrow> clog_ok s' \<and> shm_clog s' = clear_page p (shm_clog s)"
proof (cases "ZeroCLOGPage ctl p False s")
  case (Inl a)
  then show ?thesis using ZeroCLOGPage_ok[OF assms, where ctl = ctl and p = p and w = False] by (cases a) (simp add: zero_and_write_def let_do_def)
next
  case (Inr a)
  obtain i s1 where a: "a = (i, s1)" by (cases a)
  have s1: "clog_ok s1" "shm_clog s1 = clear_page p (shm_clog s)" "zeroed p (XactSlru s) i (XactSlru s1)"
    using ZeroCLOGPage_ok[OF assms, where ctl = ctl and p = p and w = False] Inr a by simp_all
  have ok1: "slru_ok (XactSlru s1)" "i < num_slots (XactSlru s1)" using s1(1,3) by (simp_all add: clog_ok_def clog_slru_ok_def zeroed_def)
  from ok1 show ?thesis
  proof (cases rule: SlruInternalWritePage_cases[where ctl = ctl and fdata = None])
    case (1 e x)
    then show ?thesis using Inr a s1(1) keeps_clog_ok[OF 1(4,3)]
      by (simp add: zero_and_write_def let_do_def do_xact_def SimpleLruWritePage_def clog_ok_def)
  next
    case (2 fdata' x)
    then show ?thesis using Inr a s1(1,2) keeps_clog_ok[OF 2(3,2)] xact_view_keeps[OF 2(3)]
      by (simp add: zero_and_write_def let_do_def do_xact_def SimpleLruWritePage_def clog_ok_def assert_that_def)
  qed
qed


subsection \<open>Truncation\<close>

lemma view_without: "xact_view s' x = xact_view s x" if "grown (page_of s (TransactionIdToPage x)) (page_of s' (TransactionIdToPage x))"
  using xact_view_grown[OF that] .

text \<open>
  Truncating at \<open>old\<close> keeps the status of every normal id that does not precede \<open>old\<close>.
\<close>

lemma do_truncate_ok:
  assumes "clog_ok s" "PagePrecedes ctl = CLOGPagePrecedes" "TransactionIdIsNormal old"
  shows "case do_xact (SimpleLruTruncate ctl (TransactionIdToPage old)) s of
      Inl (e, s') \<Rightarrow> io_error e \<and> clog_ok s' \<and> shm_clog s' = shm_clog s
    | Inr s' \<Rightarrow> clog_ok s' \<and>
        (\<forall>x. TransactionIdIsNormal x \<longrightarrow> \<not> TransactionIdPrecedes x old \<longrightarrow> shm_clog s' x = shm_clog s x)"
proof -
  have ok: "slru_ok (XactSlru s)" using assms(1) by (simp add: clog_ok_def clog_slru_ok_def)
  have po: "page_order (PagePrecedes ctl)" using clog_pages.page_order_axioms assms(2) by simp
  note t = SimpleLruTruncate_ok[OF ok po, of "TransactionIdToPage old"]
  show ?thesis
  proof (cases "SimpleLruTruncate ctl (TransactionIdToPage old) (XactSlru s)")
    case (Inl a)
    obtain e x where a: "a = (e, x)" by (cases a)
    then have k: "io_error e" "slru_ok x" "keeps_pages (XactSlru s) x" using t Inl by simp_all
    then show ?thesis using Inl a assms(1) keeps_clog_ok[OF k(3,2)] xact_view_keeps[OF k(3)] by (simp add: do_xact_def clog_ok_def)
  next
    case (Inr y)
    have "xact_view y x = shm_clog s x" if "TransactionIdIsNormal x" "\<not> TransactionIdPrecedes x old" for x
    proof -
      have "\<not> CLOGPagePrecedes (TransactionIdToPage x) (TransactionIdToPage old)" using clog_page_old that assms(3) by blast
      moreover have "\<forall>p. grown (page_of (XactSlru s) p) (page_of y p) \<or> page_of y p = None \<and> CLOGPagePrecedes p (TransactionIdToPage old)"
        using t Inr assms(2) by simp
      ultimately have "grown (page_of (XactSlru s) (TransactionIdToPage x)) (page_of y (TransactionIdToPage x))" by blast
      then show ?thesis by (rule view_without)
    qed
    then show ?thesis using t Inr assms(1) by (simp add: do_xact_def clog_ok_def clog_slru_ok_def)
  qed
qed

lemma advance_same [simp]: "XactSlru (AdvanceOldestClogXid old s) = XactSlru s" "xlog (AdvanceOldestClogXid old s) = xlog s"
  by (simp_all add: AdvanceOldestClogXid_def)

lemma write_truncate_ok:
  assumes "clog_ok s"
  shows "clog_ok (WriteTruncateXlogRec p old db s)" "shm_clog (WriteTruncateXlogRec p old db s) = shm_clog s"
    "xlog_end s < flushed (XactSlru (WriteTruncateXlogRec p old db s))"
    "xlog (WriteTruncateXlogRec p old db s) = xlog s @ [CLOG_TRUNCATE p old db]"
proof -
  let ?x = "XactSlru s" and ?y = "XactSlru (WriteTruncateXlogRec p old db s)"
  have y: "?y = ?x\<lparr>flushed := max (flushed ?x) (xlog_end s + 1)\<rparr>"
    by (simp add: WriteTruncateXlogRec_def XLogInsert_record_def XLogFlush_to_def Let_def)
  have l: "loaded ?y = loaded ?x" "disk_page ?y = disk_page ?x" by (auto simp: y loaded_def disk_page_def segment_pages_def fun_eq_iff)
  have "lsns_flushed ?x i \<Longrightarrow> lsns_flushed ?y i" for i by (auto simp: lsns_flushed_def y le_max_iff_disj)
  then have "slot_ok ?x i \<Longrightarrow> slot_ok ?y i" for i by (simp add: slot_ok_def l) (simp add: y)
  then show "clog_ok (WriteTruncateXlogRec p old db s)" using assms
    by (simp add: clog_ok_def clog_slru_ok_def slru_ok_def unique_pages_def disk_ok_def l) (simp add: y)
  show "shm_clog (WriteTruncateXlogRec p old db s) = shm_clog s"
  proof -
    have "page_buffer ?y = page_buffer ?x" "num_slots ?y = num_slots ?x" "page_number ?y = page_number ?x" by (simp_all add: y)
    then have "page_of ?y = page_of ?x" by (simp add: page_of_def l fun_eq_iff cong: option.case_cong)
    then show ?thesis by (simp add: xact_view_def fun_eq_iff)
  qed
  show "xlog_end s < flushed ?y" by (simp add: y)
  show "xlog (WriteTruncateXlogRec p old db s) = xlog s @ [CLOG_TRUNCATE p old db]"
    by (simp add: WriteTruncateXlogRec_def XLogInsert_record_def Let_def)
qed

lemma TruncateCLOG_ok:
  assumes "clog_ok s" "PagePrecedes ctl = CLOGPagePrecedes" "TransactionIdIsNormal old"
  shows "case TruncateCLOG ctl old db s of
      Inl (e, s') \<Rightarrow> io_error e \<and> clog_ok s' \<and> shm_clog s' = shm_clog s
    | Inr s' \<Rightarrow> clog_ok s' \<and>
        (\<forall>x. TransactionIdIsNormal x \<longrightarrow> \<not> TransactionIdPrecedes x old \<longrightarrow> shm_clog s' x = shm_clog s x)"
proof (cases "fst (SlruScanDirectory (SlruScanDirCbReportPresence ctl (TransactionIdToPage old)) (map fst (files (XactSlru s))) (XactSlru s))")
  case False
  then show ?thesis using assms(1) by (simp add: TruncateCLOG_def Let_def clog_ok_def clog_slru_ok_def)
next
  case True
  let ?s = "WriteTruncateXlogRec (TransactionIdToPage old) old db (AdvanceOldestClogXid old s)"
  have "clog_ok (AdvanceOldestClogXid old s)" using assms(1) by (simp add: clog_ok_def)
  note w = write_truncate_ok[OF this, of "TransactionIdToPage old" old db]
  have "TruncateCLOG ctl old db s = do_xact (SimpleLruTruncate ctl (TransactionIdToPage old)) ?s"
    using True by (auto simp: TruncateCLOG_def Let_def upd_def split: sum.splits)
  then show ?thesis using do_truncate_ok[OF w(1) assms(2,3)] unfolding w(2) advance_same by simp
qed


subsection \<open>Trimming at the end of recovery\<close>

definition trim_page :: "TransactionId \<Rightarrow> page \<Rightarrow> page" where
  "trim_page xid b = take (TransactionIdToByte xid) b @
     [and (b ! TransactionIdToByte xid) (mask (TransactionIdToBIndex xid * 2))] @ replicate (BLCKSZ - TransactionIdToByte xid - 1) 0"

lemma get_bits_mask:
  assumes "k < 4" "j < 4"
  shows "get_bits k (and w (mask (j * 2))) = (if k < j then get_bits k w else 0)"
proof (rule bit_eqI)
  fix n assume "possible_bit TYPE(8 word) n"
  show "bit (get_bits k (and w (mask (j * 2)))) n = bit (if k < j then get_bits k w else 0) n"
    using assms by (auto simp: get_bits_def bit_simps)
qed

lemma index_split: "TransactionIdToPgIndex x = TransactionIdToByte x * 4 + TransactionIdToBIndex x"
proof -
  have "unat x mod 32768 mod 4 = unat x mod 4" by (simp add: mod_mod_cancel)
  then show ?thesis using div_mult_mod_eq[of "unat x mod 32768" 4]
    by (simp add: TransactionIdToPgIndex_def TransactionIdToByte_def TransactionIdToBIndex_def clog_consts)
qed

lemma trim_length: "length b = BLCKSZ \<Longrightarrow> length (trim_page xid b) = BLCKSZ"
  using byte_in_page[of xid] by (simp add: trim_page_def del: byte_in_page)

lemma trim_bits:
  assumes "length b = BLCKSZ"
  shows "page_bits (trim_page xid b) y =
    (if TransactionIdToPgIndex y < TransactionIdToPgIndex xid then page_bits b y else TRANSACTION_STATUS_IN_PROGRESS)"
proof -
  let ?n = "TransactionIdToByte xid" and ?m = "TransactionIdToByte y"
  have len: "?n < length b" "?m < BLCKSZ" using assms by simp_all
  have lt: "TransactionIdToBIndex y < 4" "TransactionIdToBIndex xid < 4" by simp_all
  consider (less) "?m < ?n" | (same) "?m = ?n" | (greater) "?n < ?m" by linarith
  then show ?thesis
  proof cases
    case less
    then have "TransactionIdToPgIndex y < TransactionIdToPgIndex xid" using lt unfolding index_split by linarith
    then show ?thesis using less len by (simp add: page_bits_def trim_page_def nth_append)
  next
    case same
    then have "trim_page xid b ! ?m = and (b ! ?n) (mask (TransactionIdToBIndex xid * 2))"
      using len by (simp add: trim_page_def nth_append)
    then show ?thesis using same get_bits_mask[OF lt] by (simp add: page_bits_def index_split status_of_def)
  next
    case greater
    then have "\<not> TransactionIdToPgIndex y < TransactionIdToPgIndex xid" using lt unfolding index_split by linarith
    moreover have "trim_page xid b ! ?m = 0" using greater len assms
      by (simp add: trim_page_def nth_append nth_Cons' del: byte_in_page)
    ultimately show ?thesis by (simp add: page_bits_def get_bits_def status_of_def)
  qed
qed

definition trimmed :: "TransactionId \<Rightarrow> clog \<Rightarrow> clog" where
  "trimmed xid cl = (\<lambda>y. if TransactionIdToPage y = TransactionIdToPage xid \<and> xid \<le> y then TRANSACTION_STATUS_IN_PROGRESS else cl y)"

lemma TrimCLOG_ok:
  assumes "\<not> InRecovery ctl" "clog_ok s" "xid = XidFromFullTransactionId (nextXid (ShmemVariableCache s))"
  shows "case TrimCLOG ctl s of
      Inl (e, s') \<Rightarrow> io_error e \<and> clog_ok s' \<and> shm_clog s' = shm_clog s \<and> \<not> calm {xid} (XactSlru s)
    | Inr s' \<Rightarrow> clog_ok s' \<and> shm_clog s' = (if TransactionIdToPgIndex xid = 0 then shm_clog s else trimmed xid (shm_clog s))"
proof (cases "TransactionIdToPgIndex xid = 0")
  case True
  then show ?thesis using assms by (simp add: TrimCLOG_def Let_def)
next
  case False
  let ?p = "TransactionIdToPage xid" and ?x = "XactSlru s"
  have ok: "slru_ok ?x" using assms(2) by (simp add: clog_ok_def clog_slru_ok_def)
  note o = SimpleLruReadPage_ok[OF assms(1) ok, of ?p False]
  have q: "calm {xid} ?x \<Longrightarrow> quiet (SimpleLruReadPage ctl ?p False ?x)" using ok by (intro quiet_read) (auto simp: calm_def)
  show ?thesis
  proof (cases "SimpleLruReadPage ctl ?p False ?x")
    case (Inl a)
    obtain e x where a: "a = (e, x)" by (cases a)
    then have k: "io_error e" "slru_ok x" "keeps_pages ?x x" using o Inl by (auto simp: outcome_ok_def)
    have "\<not> calm {xid} ?x" using q Inl a k(1) by auto
    then show ?thesis using Inl a k(1) False assms(2,3) keeps_clog_ok[OF k(3,2)] xact_view_keeps[OF k(3)]
      by (simp add: TrimCLOG_def Let_def let_do_def on_xact_def clog_ok_def)
  next
    case (Inr a)
    obtain i x where a: "a = (i, x)" by (cases a)
    then have k: "slru_ok x" "found ?p False ?x i x" using o Inr by (auto simp: outcome_ok_def)
    have kp: "keeps_pages ?x x" using k(2) by (simp add: found_def)
    have h: "holds x i ?p" using found_holds[OF _ k(2,1)] assms(2) by (simp add: clog_ok_def)
    let ?b = "trim_page xid (page_buffer x i)"
    let ?y = "x\<lparr>page_buffer := (page_buffer x)(i := ?b), page_dirty := (page_dirty x)(i := True)\<rparr>"
    have st: "stored i ?b x ?y" by (auto simp: stored_def lsns_flushed_def)
    have lb: "length ?b = BLCKSZ" using h by (intro trim_length) (simp add: holds_def)
    have run: "TrimCLOG ctl s = Inr (s\<lparr>XactSlru := ?y\<rparr>)"
      using Inr a False assms(3)
      by (simp add: TrimCLOG_def Let_def let_do_def on_xact_def upd_def trim_page_def CLOG_BITS_PER_XACT_def mask_eq_exp_minus_1)
    have oky: "clog_slru_ok ?y" using stored_ok[OF k(1) _ _ st lb] h by (simp add: clog_slru_ok_def holds_def)
    have "xact_view ?y v = trimmed xid (shm_clog s) v" for v
    proof (cases "TransactionIdToPage v = ?p")
      case True
      have "page_of ?y ?p = Some ?b" using stored_page_of[OF _ _ _ st] h by (simp add: holds_def)
      moreover have "page_of x ?p = Some (page_buffer x i)" using page_of_slot[of x i] h by (simp add: holds_def)
      ultimately have "xact_view ?y v = (if TransactionIdToPgIndex v < TransactionIdToPgIndex xid then xact_view x v else TRANSACTION_STATUS_IN_PROGRESS)"
        using True trim_bits[of "page_buffer x i" xid v] h by (simp add: xact_view_def holds_def)
      moreover have "TransactionIdToPgIndex v < TransactionIdToPgIndex xid \<longleftrightarrow> \<not> xid \<le> v"
      proof -
        have "unat v = TransactionIdToPage v * CLOG_XACTS_PER_PAGE + TransactionIdToPgIndex v"
          "unat xid = TransactionIdToPage xid * CLOG_XACTS_PER_PAGE + TransactionIdToPgIndex xid"
          by (simp_all add: TransactionIdToPage_def TransactionIdToPgIndex_def)
        then show ?thesis using True by (simp add: word_le_nat_alt not_le)
      qed
      ultimately show ?thesis using True xact_view_keeps[OF kp] by (simp add: trimmed_def)
    next
      case False
      then have "page_of ?y (TransactionIdToPage v) = page_of x (TransactionIdToPage v)"
        using stored_page_of[OF _ _ _ st] h by (simp add: holds_def)
      then show ?thesis using False xact_view_keeps[OF kp] by (simp add: trimmed_def xact_view_def fun_eq_iff)
    qed
    then show ?thesis using run oky False by (simp add: clog_ok_def fun_eq_iff)
  qed
qed

end
