(* ===== verification/Slru_Reach.thy ===== *)
theory Slru_Reach
  imports Clog_Maint
begin

section \<open>Reachable states of the page cache\<close>

text \<open>
  The cache as a state machine: its own operations, whatever their outcome, the stores of its
  clients into loaded pages, and any outcomes of the coming system calls.
\<close>

definition vstate :: "(SlruShared, 'a) vres \<Rightarrow> SlruShared" where
  "vstate r = (case r of Inl (e, s) \<Rightarrow> s | Inr (x, s) \<Rightarrow> s)"

definition rstate :: "SlruShared res \<Rightarrow> SlruShared" where
  "rstate r = (case r of Inl (e, s) \<Rightarrow> s | Inr s \<Rightarrow> s)"

inductive slru_step :: "SlruCtl \<Rightarrow> SlruShared \<Rightarrow> SlruShared \<Rightarrow> bool" for ctl where
  read_page: "slru_step ctl s (vstate (SimpleLruReadPage ctl p w s))"
| read_only: "slru_step ctl s (vstate (SimpleLruReadPage_ReadOnly ctl p s))"
| zero_page: "slru_step ctl s (vstate (SimpleLruZeroPage ctl p s))"
| write_page: "i < num_slots s \<Longrightarrow> slru_step ctl s (rstate (SimpleLruWritePage ctl i s))"
| write_all: "slru_step ctl s (rstate (SimpleLruWriteAll ctl True s))"
| truncate: "slru_step ctl s (rstate (SimpleLruTruncate ctl p s))"
| delete_seg: "slru_step ctl s (rstate (SlruDeleteSegment ctl seg s))"
| store: "i < num_slots s \<Longrightarrow> loaded s i \<Longrightarrow> length b = BLCKSZ \<Longrightarrow>
    slru_step ctl s (s\<lparr>page_buffer := (page_buffer s)(i := b), page_dirty := (page_dirty s)(i := True)\<rparr>)"
| system: "slru_step ctl s (s\<lparr>io_results := rs\<rparr>)"

inductive slru_reach :: "SlruCtl \<Rightarrow> SlruShared \<Rightarrow> SlruShared \<Rightarrow> bool" for ctl s0 where
  start: "slru_reach ctl s0 s0"
| step: "slru_reach ctl s0 s \<Longrightarrow> slru_step ctl s s' \<Longrightarrow> slru_reach ctl s0 s'"

lemma init_ok: "2 \<le> n \<Longrightarrow> disk_ok s \<Longrightarrow> slru_ok (SimpleLruInit n l s)"
  by (simp add: slru_ok_def SimpleLruInit_def unique_pages_def disk_ok_def slot_ok_def loaded_def disk_page_def segment_pages_def)

lemma outcome_state: "outcome_ok s Q r \<Longrightarrow> slru_ok (vstate r)"
  by (auto simp: outcome_ok_def vstate_def split: sum.splits)

text \<open>No operation fails an assertion or loops: it returns or reports an I/O error.\<close>

definition v_sound :: "(SlruShared, 'a) vres \<Rightarrow> bool" where
  "v_sound r \<longleftrightarrow> (case r of Inl (e, s) \<Rightarrow> io_error e | Inr x \<Rightarrow> True)"

definition r_sound :: "SlruShared res \<Rightarrow> bool" where
  "r_sound r \<longleftrightarrow> (case r of Inl (e, s) \<Rightarrow> io_error e | Inr x \<Rightarrow> True)"

lemma outcome_sound: "outcome_ok s Q r \<Longrightarrow> v_sound r"
  by (auto simp: outcome_ok_def v_sound_def split: sum.splits)

lemma write_page_ok:
  assumes "slru_ok s" "i < num_slots s"
  shows "slru_ok (rstate (SimpleLruWritePage ctl i s)) \<and> r_sound (SimpleLruWritePage ctl i s)"
  using assms
  by (cases rule: SlruInternalWritePage_cases[where ctl = ctl and fdata = None])
     (auto simp: SimpleLruWritePage_def rstate_def r_sound_def)

lemma write_all_ok:
  assumes "slru_ok s"
  shows "slru_ok (rstate (SimpleLruWriteAll ctl True s)) \<and> r_sound (SimpleLruWriteAll ctl True s)"
  using assms by (cases rule: SimpleLruWriteAll_ok[where ctl = ctl]) (auto simp: rstate_def r_sound_def)

lemma truncate_ok:
  assumes "slru_ok s" "page_order (PagePrecedes ctl)"
  shows "slru_ok (rstate (SimpleLruTruncate ctl p s)) \<and> r_sound (SimpleLruTruncate ctl p s)"
  using SimpleLruTruncate_ok[OF assms, of p] by (auto simp: rstate_def r_sound_def split: sum.splits)

lemma delete_ok:
  assumes "slru_ok s"
  shows "slru_ok (rstate (SlruDeleteSegment ctl seg s)) \<and> r_sound (SlruDeleteSegment ctl seg s)"
  using SlruDeleteSegment_ok[OF assms, where ctl = ctl and seg = seg] by (auto simp: rstate_def r_sound_def split: sum.splits)

lemma store_ok:
  assumes "slru_ok s" "i < num_slots s" "loaded s i" "length b = BLCKSZ"
  shows "slru_ok (s\<lparr>page_buffer := (page_buffer s)(i := b), page_dirty := (page_dirty s)(i := True)\<rparr>)"
  by (rule stored_ok[OF assms(1-3) _ assms(4)]) (auto simp: stored_def lsns_flushed_def)

lemma step_ok:
  assumes "\<not> InRecovery ctl" "page_order (PagePrecedes ctl)" "slru_step ctl s s'" "slru_ok s"
  shows "slru_ok s'"
  using assms(3,4)
proof cases
  case (read_page p w)
  then show ?thesis using outcome_state[OF SimpleLruReadPage_ok[OF assms(1,4)]] by simp
next
  case (read_only p)
  then show ?thesis using outcome_state[OF SimpleLruReadPage_ReadOnly_ok[OF assms(1,4)]] by simp
next
  case (zero_page p)
  then show ?thesis using outcome_state[OF SimpleLruZeroPage_ok[OF assms(4)]] by simp
next
  case (write_page i)
  then show ?thesis using write_page_ok[OF assms(4)] by simp
next
  case write_all
  then show ?thesis using write_all_ok[OF assms(4)] by simp
next
  case (truncate p)
  then show ?thesis using truncate_ok[OF assms(4,2)] by simp
next
  case (delete_seg seg)
  then show ?thesis using delete_ok[OF assms(4)] by simp
next
  case (store i b)
  then show ?thesis using store_ok[OF assms(4)] by simp
next
  case (system rs)
  then have "core s' = core s" by (simp add: core_def)
  then show ?thesis using core_ok(1)[of s' s] assms(4) by simp
qed

lemma reach_ok:
  assumes "\<not> InRecovery ctl" "page_order (PagePrecedes ctl)" "slru_reach ctl s0 s" "slru_ok s0"
  shows "slru_ok s"
  using assms(3,4) by induction (blast intro: step_ok[OF assms(1,2)])+

end
