(* ===== verification/Storage_Props.thy ===== *)
theory Storage_Props
  imports Slru_Reach
begin

section \<open>Properties of the page cache and of the commit log\<close>

text \<open>
  A concrete cache with two slots that hold the first two pages of the commit log, and the
  properties of \<^verbatim>\<open>slru.c\<close> and \<^verbatim>\<open>clog.c\<close>, each with a witness on it.
\<close>

subsection \<open>Concrete states\<close>

definition xact_ctl :: SlruCtl where
  "xact_ctl = XactCtl False False"

definition slru0 :: SlruShared where
  "slru0 = \<lparr>num_slots = 2, page_buffer = (\<lambda>i. zero_page), page_status = (\<lambda>i. SLRU_PAGE_VALID), page_dirty = (\<lambda>i. True),
     page_number = (\<lambda>i. i), page_lru_count = (\<lambda>i. 0), group_lsn = (\<lambda>i. 0), lsn_groups_per_page = CLOG_LSNS_PER_PAGE,
     cur_lru_count = 0, latest_page_number = 1, slru_errcause = SLRU_OPEN_FAILED, files = [], flushed = 0, io_results = []\<rparr>"

definition proc0 :: PGPROC where
  "proc0 = \<lparr>proc_xid = 32767, subxids = [32768], overflowed = False, clogGroupMember = False, clogGroupMemberXid = 0,
     clogGroupMemberXidStatus = TRANSACTION_STATUS_IN_PROGRESS, clogGroupMemberPage = 0, clogGroupMemberLsn = 0\<rparr>"

definition variables0 :: VariableCacheData where
  "variables0 = \<lparr>nextOid = 16384, oidCount = 0, nextXid = 32770, oldestXid = 3, xidVacLimit = 200000003,
     xidWarnLimit = 2107483650, xidStopLimit = 2144483650, xidWrapLimit = 2147483650, oldestXidDB = 1, oldestCommitTsXid = 0,
     newestCommitTsXid = 0, latestCompletedXid = 32766, xactCompletionCount = 1, oldestClogXid = 3\<rparr>"

definition shmem0 :: Shmem where
  "shmem0 = \<lparr>XactSlru = slru0, SubTransSlru = slru0, CommitTsSlru = slru0, commitTsActive = False,
     ShmemVariableCache = variables0, allProcs = (\<lambda>p. proc0), MyProc = 0,
     clogGroup = [], lock_results = [], joining = [], xlog = [], xlog_end = 0, notices = []\<rparr>"

lemma ctl0 [simp]: "\<not> InRecovery xact_ctl" "PagePrecedes xact_ctl = CLOGPagePrecedes" "page_order (PagePrecedes xact_ctl)"
  using clog_pages.page_order_axioms by (simp_all add: xact_ctl_def XactCtl_def)

lemma page_of0: "page_of slru0 p = (if p < 2 then Some zero_page else None)"
proof -
  have "[0..<2] = [0, 1 :: nat]" by (simp add: upt_rec)
  then show ?thesis
    by (auto simp: page_of_def slru0_def loaded_def disk_page_def segment_pages_def)
qed

lemma slru0_ok [simp]: "slru_ok slru0" "clog_slru_ok slru0" "io_results slru0 = []" "num_slots slru0 = 2"
  by (auto simp: slru_ok_def clog_slru_ok_def slru0_def unique_pages_def disk_ok_def disk_page_def segment_pages_def slot_ok_def
      loaded_def zero_page_def)

lemma disk0 [simp]: "disk_ok slru0"
  by (simp add: disk_ok_def slru0_def disk_page_def segment_pages_def)

lemma shmem0_slru [simp]: "XactSlru shmem0 = slru0" "clog_ok shmem0" "queue shmem0 = []" "joining shmem0 = []" "clogGroup shmem0 = []"
  "ShmemVariableCache shmem0 = variables0" "MyProc shmem0 = 0"
  by (simp_all add: shmem0_def clog_ok_def)

lemma view0 [simp]: "xact_view slru0 x = TRANSACTION_STATUS_IN_PROGRESS"
  by (simp add: xact_view_def page_of0 page_bits_zero)

lemma pages0 [simp]: "TransactionIdToPage 32767 = 0" "TransactionIdToPage 32768 = 1" "TransactionIdToPage 32770 = 1"
  by (simp_all add: TransactionIdToPage_def clog_consts)

lemma tree0 [simp]: "tree_ok 32767 [32768] TRANSACTION_STATUS_COMMITTED shmem0" "group_ok [32767, 32768] shmem0"
  by (simp_all add: tree_ok_def xid_consts open_status_def group_ok_def group_xids_def Let_def)

lemma init0 [simp]: "slru_reach ctl s s"
  by (rule slru_reach.start)

lemma calm0 [simp]: "calm {32767, 32768} slru0"
  by (simp add: calm_def page_of0)


subsection \<open>The page cache\<close>



text \<open>
  C18. Choosing a slot for a page ends: it returns the slot that holds the page or one whose contents
  can be dropped, or reports an I/O error, which it does only if a system call failed. No page
  loses its contents.
\<close>

theorem slot_selection_ends:
  assumes "slru_ok s"
  shows "case SlruSelectLRUPage ctl p s of
      Inl (e, s') \<Rightarrow> io_error e \<and> slru_ok s' \<and> keeps_pages s s' \<and> io_results s \<noteq> []
    | Inr (i, s') \<Rightarrow> slru_ok s' \<and> keeps_pages s s' \<and> (case slot_of p s of Some j \<Rightarrow> i = j \<and> s' = s
        | None \<Rightarrow> i < num_slots s' \<and> (page_status s' i = SLRU_PAGE_EMPTY \<or> page_status s' i = SLRU_PAGE_VALID \<and> \<not> page_dirty s' i))"
  using SlruSelectLRUPage_ok[OF assms, of p ctl] quiet_SelectLRU[of s ctl p]
  by (auto simp: outcome_ok_def selected_def reusable_def split: sum.splits option.splits)

theorem slot_selection_ends_witness:
  "\<exists>i s'. SlruSelectLRUPage xact_ctl 7 slru0 = Inr (i, s') \<and> slru_ok s' \<and> keeps_pages slru0 s'"
  using slot_selection_ends[OF slru0_ok(1), where ctl = xact_ctl and p = 7] by (auto split: sum.splits)

text \<open>
  C17. Reading a page returns a slot with the contents the page has, in the cache or on disk, and
  changes no page; it fails only if a system call failed or the page does not exist.
\<close>

theorem read_returns_the_page:
  assumes "\<not> InRecovery ctl" "slru_ok s"
  shows "case SimpleLruReadPage ctl p w s of
      Inl (e, s') \<Rightarrow> io_error e \<and> slru_ok s' \<and> keeps_pages s s' \<and> (io_results s \<noteq> [] \<or> page_of s p = None)
    | Inr (i, s') \<Rightarrow> slru_ok s' \<and> keeps_pages s s' \<and> i < num_slots s' \<and> page_number s' i = p \<and>
        page_of s' p = Some (page_buffer s' i) \<and> (page_of s p \<noteq> None \<longrightarrow> page_of s p = Some (page_buffer s' i))"
proof -
  note o = SimpleLruReadPage_ok[OF assms, of p w]
  show ?thesis
  proof (cases "SimpleLruReadPage ctl p w s")
    case (Inl a)
    have "io_results s \<noteq> [] \<or> page_of s p = None"
    proof (rule ccontr)
      assume "\<not> ?thesis"
      then have "quiet (SimpleLruReadPage ctl p w s)" by (intro quiet_read[OF assms(2)]) simp_all
      then show False using o Inl by (cases a) (simp add: outcome_ok_def)
    qed
    then show ?thesis using o Inl by (cases a) (simp add: outcome_ok_def)
  next
    case (Inr a)
    obtain i s' where a: "a = (i, s')" by (cases a)
    have f: "slru_ok s'" "found p w s i s'" using o Inr a by (auto simp: outcome_ok_def)
    have "grown (page_of s p) (page_of s' p)" using f(2) by (simp add: found_def keeps_pages_def)
    then show ?thesis using Inr a f found_page[OF f] by (auto simp: found_def grown_def)
  qed
qed

theorem read_returns_the_page_witness:
  "\<exists>i s'. SimpleLruReadPage xact_ctl 1 True slru0 = Inr (i, s') \<and> page_buffer s' i = zero_page"
  using read_returns_the_page[OF ctl0(1) slru0_ok(1), where p = 1 and w = True] by (auto simp: page_of0 split: sum.splits)

text \<open>
  C12. A checkpoint of the cache that returns has made every page durable: what the cache shows is on
  disk, no page has changed, and the WAL of every loaded page is flushed (WAL before data). It
  reports an error only if a system call failed.
\<close>

theorem checkpoint_makes_pages_durable:
  assumes "slru_ok s"
  shows "case SimpleLruWriteAll ctl True s of
      Inl (e, s') \<Rightarrow> io_error e \<and> slru_ok s' \<and> keeps_pages s s' \<and> io_results s \<noteq> []
    | Inr s' \<Rightarrow> slru_ok s' \<and> keeps_pages s s' \<and> (\<forall>p x. page_of s p = Some x \<longrightarrow> disk_page s' p = Some x) \<and>
        (\<forall>i < num_slots s'. loaded s' i \<longrightarrow> lsns_flushed s' i)"
  using assms
proof (cases rule: SimpleLruWriteAll_ok[where ctl = ctl])
  case (1 e t)
  then show ?thesis using quiet_write_all[of s ctl] by auto
next
  case (2 t)
  have "disk_page t p = Some x" if "page_of s p = Some x" for p x
  proof -
    have "grown (page_of s p) (page_of t p)" using 2(3) by (simp add: keeps_pages_def)
    then have "page_of t p = Some x" using that by (simp add: grown_def)
    then show ?thesis by (rule settled_disk[OF 2(2,4)])
  qed
  moreover have "lsns_flushed t i" if "i < num_slots t" "loaded t i" for i
    using slru_okD(3)[OF 2(2) that(1)] 2(4) that by (auto simp: slot_ok_def settled_def loaded_def)
  ultimately show ?thesis using 2 by simp
qed

theorem checkpoint_makes_pages_durable_witness:
  "\<exists>s'. SimpleLruWriteAll xact_ctl True slru0 = Inr s' \<and> disk_page s' 1 = Some zero_page"
  using checkpoint_makes_pages_durable[OF slru0_ok(1), where ctl = xact_ctl] by (auto simp: page_of0 split: sum.splits)


subsection \<open>The commit log\<close>



text \<open>
  C6. On the status map the commit log refines the abstract operation \<open>set_tree_status\<close> its callers use: when
  \<^verbatim>\<open>TransactionIdSetTreeStatus\<close> returns, the main id and the given children have the status and
  every other id is unchanged, apart from the ids of transactions whose update was done together with it in a group.
\<close>

theorem tree_status_refines_the_map:
  assumes "\<not> InRecovery ctl" "clog_ok s" "group_ok (xid # subs) s" "tree_ok xid subs st s"
    "TransactionIdSetTreeStatus ctl xid subs st lsn s = Inr s'"
  shows "clog_ok s' \<and> (\<forall>x. x \<notin> set (group_xids (allProcs s) (queue s)) \<longrightarrow>
    shm_clog s' x = set_tree_status st xid subs (shm_clog s) x)"
  using SetTreeStatus_map[OF assms] by blast

theorem tree_status_refines_the_map_witness:
  "\<exists>s'. TransactionIdSetTreeStatus xact_ctl 32767 [32768] TRANSACTION_STATUS_COMMITTED 0 shmem0 = Inr s' \<and>
     shm_clog s' 32768 = TRANSACTION_STATUS_COMMITTED"
proof -
  obtain s' where s': "TransactionIdSetTreeStatus xact_ctl 32767 [32768] TRANSACTION_STATUS_COMMITTED 0 shmem0 = Inr s'"
    using SetTreeStatus_returns[OF ctl0(1) shmem0_slru(2) tree0(2,1), of 0] by (auto simp: group_xids_def)
  then show ?thesis
    using tree_status_refines_the_map[OF ctl0(1) shmem0_slru(2) tree0(2,1) s'] by (simp add: group_xids_def set_tree_status_def)
qed

text \<open>
  C14. With a healthy disk a transaction's status does get recorded: if no system call fails and the
  pages exist, \<^verbatim>\<open>TransactionIdSetTreeStatus\<close> returns.
\<close>

theorem tree_status_gets_recorded:
  assumes "\<not> InRecovery ctl" "clog_ok s" "group_ok (xid # subs) s" "tree_ok xid subs st s"
    "calm (set (xid # subs) \<union> set (group_xids (allProcs s) (queue s))) (XactSlru s)"
  shows "\<exists>s'. TransactionIdSetTreeStatus ctl xid subs st lsn s = Inr s'"
  using assms by (rule SetTreeStatus_returns)

theorem tree_status_gets_recorded_witness:
  "\<exists>s'. TransactionIdSetTreeStatus xact_ctl 32767 [32768] TRANSACTION_STATUS_COMMITTED 5 shmem0 = Inr s'"
  by (rule tree_status_gets_recorded) (simp_all add: group_xids_def)

text \<open>
  C15. Reading back what was set: after \<^verbatim>\<open>TransactionIdSetTreeStatus\<close> has returned, on a healthy disk
  \<^verbatim>\<open>TransactionIdGetStatus\<close> returns the status for the main id and for every child, and changes
  no status.
\<close>

theorem status_round_trip:
  assumes "\<not> InRecovery ctl" "clog_ok s" "group_ok (xid # subs) s" "tree_ok xid subs st s"
    "TransactionIdSetTreeStatus ctl xid subs st lsn s = Inr s'" "calm (set (xid # subs)) (XactSlru s)" "x \<in> set (xid # subs)"
  shows "\<exists>l s''. TransactionIdGetStatus ctl x s' = Inr ((st, l), s'') \<and> clog_ok s'' \<and> shm_clog s'' = shm_clog s'"
proof -
  note m = SetTreeStatus_map[OF assms(1-5)]
  have "x \<notin> set (group_xids (allProcs s) (queue s))" using assms(3,7) by (auto simp: group_ok_def Let_def)
  then have v: "shm_clog s' x = st" using m(2)[of x] assms(7) by (auto simp: set_tree_status_def)
  have "calm {x} (XactSlru s')" using m(3)[OF assms(6)] calm_mono[of _ _ "{x}"] assms(7) by auto
  then show ?thesis using GetStatus_ok[OF assms(1) m(1), of x] v by (auto split: sum.splits)
qed

theorem status_round_trip_witness:
  "\<exists>s' l s''. TransactionIdSetTreeStatus xact_ctl 32767 [32768] TRANSACTION_STATUS_COMMITTED 0 shmem0 = Inr s' \<and>
     TransactionIdGetStatus xact_ctl 32768 s' = Inr ((TRANSACTION_STATUS_COMMITTED, l), s'')"
proof -
  obtain s' where s': "TransactionIdSetTreeStatus xact_ctl 32767 [32768] TRANSACTION_STATUS_COMMITTED 0 shmem0 = Inr s'"
    using SetTreeStatus_returns[OF ctl0(1) shmem0_slru(2) tree0(2,1), of 0] by (auto simp: group_xids_def)
  then show ?thesis using status_round_trip[OF ctl0(1) shmem0_slru(2) tree0(2,1) s', of 32768] by auto
qed

text \<open>
  C16. The LSN of an asynchronous commit is kept with the page: after the entries of a page have been
  set with an LSN, \<^verbatim>\<open>TransactionIdGetStatus\<close> reports for each of them the new status together with an
  LSN that is at least as late, without any I/O.
\<close>

theorem async_commit_reports_its_lsn:
  assumes "\<not> InRecovery ctl" "clog_ok s" "one_page xid subs st p s"
    "do_xact (TransactionIdSetPageStatusInternal ctl xid subs st lsn p) s = Inr s'" "x \<in> set (xid # subs)"
  shows "\<exists>l s''. TransactionIdGetStatus ctl x s' = Inr ((st, l), s'') \<and> lsn \<le> l"
proof -
  note o = assms(3)[unfolded one_page_def]
  have f: "fst ` set (page_writes xid subs st) = set (xid # subs)" using o by (simp add: fst_page)
  have "clog_slru_ok (XactSlru s)" using assms(2) by (simp add: clog_ok_def)
  then have i: "clog_ok s' \<and> shm_clog s' = apply_writes (page_writes xid subs st) (shm_clog s) \<and> lsn_noted lsn x (XactSlru s')"
    using SetPageStatusInternal_ok[of ctl "XactSlru s" xid p subs st lsn] assms(1,4,5) o legal_one_page[OF assms(3)] f
    by (auto simp: do_xact_def clog_ok_def split: sum.splits)
  then have "shm_clog s' x = st" using o assms(5) by (auto simp: apply_page set_tree_status_def)
  then show ?thesis using GetStatus_lsn[of s' lsn x ctl] i by auto
qed

theorem async_commit_reports_its_lsn_witness:
  "\<exists>s' l s''. do_xact (TransactionIdSetPageStatusInternal xact_ctl 32767 [] TRANSACTION_STATUS_COMMITTED 99 0) shmem0 = Inr s' \<and>
     TransactionIdGetStatus xact_ctl 32767 s' = Inr ((TRANSACTION_STATUS_COMMITTED, l), s'') \<and> 99 \<le> l"
proof -
  have o: "one_page 32767 [] TRANSACTION_STATUS_COMMITTED 0 shmem0" by (simp add: one_page_def xid_consts open_status_def)
  have "calm {32767} slru0" by (simp add: calm_def page_of0)
  then obtain s' where s': "do_xact (TransactionIdSetPageStatusInternal xact_ctl 32767 [] TRANSACTION_STATUS_COMMITTED 99 0) shmem0 = Inr s'"
    using alone_one_page[OF ctl0(1) shmem0_slru(2) o refl, of 99] by (auto simp: performs_def fst_page xid_consts split: sum.splits)
  from async_commit_reports_its_lsn[OF ctl0(1) shmem0_slru(2) o this, of 32767] show ?thesis using s' by simp
qed

text \<open>
  C13. Truncating the commit log at \<open>oldestXact\<close> keeps the status of every normal transaction id that
  does not precede \<open>oldestXact\<close> in the circular order, at every position of the wraparound; an I/O error leaves all
  statuses in place.
\<close>

theorem truncation_keeps_live_statuses:
  assumes "clog_ok s" "PagePrecedes ctl = CLOGPagePrecedes" "TransactionIdIsNormal old"
  shows "case TruncateCLOG ctl old db s of
      Inl (e, s') \<Rightarrow> io_error e \<and> clog_ok s' \<and> shm_clog s' = shm_clog s
    | Inr s' \<Rightarrow> clog_ok s' \<and>
        (\<forall>x. TransactionIdIsNormal x \<longrightarrow> \<not> TransactionIdPrecedes x old \<longrightarrow> shm_clog s' x = shm_clog s x)"
  using assms by (rule TruncateCLOG_ok)

theorem truncation_keeps_live_statuses_witness:
  "case TruncateCLOG xact_ctl 32768 1 shmem0 of
      Inl (e, s') \<Rightarrow> io_error e
    | Inr s' \<Rightarrow> shm_clog s' 32768 = TRANSACTION_STATUS_IN_PROGRESS"
proof -
  have n: "TransactionIdIsNormal 32768" "\<not> TransactionIdPrecedes 32768 32768" by (simp_all add: xid_consts TransactionIdPrecedes_def)
  show ?thesis using truncation_keeps_live_statuses[OF shmem0_slru(2) ctl0(2) n(1), of 1] n by (auto split: sum.splits)
qed

text \<open>
  C19. Before the first id of a page is used, \<^verbatim>\<open>ExtendCLOG\<close> makes the page exist with all its entries
  in progress and logs that it did; for other ids it does nothing. It fails only if a system
  call failed, and then no status has changed.
\<close>

theorem extension_clears_the_page:
  assumes "clog_ok s"
  shows "case ExtendCLOG ctl x s of
      Inl (e, s') \<Rightarrow> io_error e \<and> clog_ok s' \<and> shm_clog s' = shm_clog s \<and> io_results (XactSlru s) \<noteq> []
    | Inr s' \<Rightarrow> clog_ok s' \<and> (if first_of_page x
        then shm_clog s' = clear_page (TransactionIdToPage x) (shm_clog s) \<and> page_of (XactSlru s') (TransactionIdToPage x) \<noteq> None \<and>
          xlog s' = xlog s @ [CLOG_ZEROPAGE (TransactionIdToPage x)]
        else s' = s)"
  using assms by (rule ExtendCLOG_ok)

theorem extension_clears_the_page_witness:
  "\<exists>s'. ExtendCLOG xact_ctl 32768 shmem0 = Inr s' \<and> xlog s' = [CLOG_ZEROPAGE 1]"
proof -
  have f: "first_of_page 32768" by (simp add: first_of_page_def TransactionIdToPgIndex_def clog_consts)
  have "xlog shmem0 = []" by (simp add: shmem0_def)
  then show ?thesis using extension_clears_the_page[OF shmem0_slru(2), where ctl = xact_ctl and x = 32768] f by (auto split: sum.splits)
qed

text \<open>
  C20. At the end of recovery \<^verbatim>\<open>TrimCLOG\<close> resets exactly the entries of the current page from the next id
  on, and keeps every entry before it.
\<close>

theorem trimming_resets_future_entries:
  assumes "\<not> InRecovery ctl" "clog_ok s" "xid = XidFromFullTransactionId (nextXid (ShmemVariableCache s))"
  shows "case TrimCLOG ctl s of
      Inl (e, s') \<Rightarrow> io_error e \<and> clog_ok s' \<and> shm_clog s' = shm_clog s \<and> \<not> calm {xid} (XactSlru s)
    | Inr s' \<Rightarrow> clog_ok s' \<and> shm_clog s' = (if TransactionIdToPgIndex xid = 0 then shm_clog s else trimmed xid (shm_clog s))"
  using assms by (rule TrimCLOG_ok)

theorem trimming_resets_future_entries_witness:
  "\<exists>s'. TrimCLOG xact_ctl shmem0 = Inr s' \<and> clog_ok s'"
proof -
  have x: "32770 = XidFromFullTransactionId (nextXid (ShmemVariableCache shmem0))"
    by (simp add: variables0_def XidFromFullTransactionId_def)
  have "calm {32770} slru0" by (simp add: calm_def page_of0)
  then show ?thesis using trimming_resets_future_entries[OF ctl0(1) shmem0_slru(2) x] by (auto split: sum.splits)
qed

end
