(* ===== verification/Subtrans.thy ===== *)
theory Subtrans
  imports Clog_Maint
begin

section \<open>The parents of subtransactions (subtrans.c)\<close>

text \<open>
  Four bytes per transaction id in the pages of the \<^verbatim>\<open>pg_subtrans\<close> cache, the parent of the id or zero.
  The pages are arrays of \<^verbatim>\<open>TransactionId\<close> in the memory of a little-endian machine.
\<close>

definition SUBTRANS_XACTS_PER_PAGE :: nat where "SUBTRANS_XACTS_PER_PAGE = BLCKSZ div 4"
definition NUM_SUBTRANS_BUFFERS :: nat where "NUM_SUBTRANS_BUFFERS = 32"
definition MaxTransactionId :: TransactionId where "MaxTransactionId = 0xFFFFFFFF"

definition SubTransIdToPage :: "TransactionId \<Rightarrow> nat" where
  "SubTransIdToPage xid = unat xid div SUBTRANS_XACTS_PER_PAGE"

definition SubTransIdToEntry :: "TransactionId \<Rightarrow> nat" where
  "SubTransIdToEntry xid = unat xid mod SUBTRANS_XACTS_PER_PAGE"

text \<open>Reading and storing an element of the array.\<close>

definition read_xid :: "page \<Rightarrow> nat \<Rightarrow> TransactionId" where
  "read_xid b e = or (ucast (b ! (4 * e))) (or (push_bit 8 (ucast (b ! (4 * e + 1))))
     (or (push_bit 16 (ucast (b ! (4 * e + 2)))) (push_bit 24 (ucast (b ! (4 * e + 3))))))"

definition write_xid :: "nat \<Rightarrow> TransactionId \<Rightarrow> page \<Rightarrow> page" where
  "write_xid e x b = b[4 * e := ucast x, 4 * e + 1 := ucast (drop_bit 8 x), 4 * e + 2 := ucast (drop_bit 16 x),
     4 * e + 3 := ucast (drop_bit 24 x)]"

definition SubTransPagePrecedes :: "nat \<Rightarrow> nat \<Rightarrow> bool" where
  "SubTransPagePrecedes page1 page2 =
     (let xid1 = (of_nat page1 :: TransactionId) * of_nat SUBTRANS_XACTS_PER_PAGE + (FirstNormalTransactionId + 1);
          xid2 = (of_nat page2 :: TransactionId) * of_nat SUBTRANS_XACTS_PER_PAGE + (FirstNormalTransactionId + 1) in
      TransactionIdPrecedes xid1 xid2 \<and> TransactionIdPrecedes xid1 (xid2 + of_nat SUBTRANS_XACTS_PER_PAGE - 1))"

definition SubTransCtl :: "bool \<Rightarrow> bool \<Rightarrow> SlruCtl" where
  "SubTransCtl in_recovery retry =
     \<lparr>PagePrecedes = SubTransPagePrecedes, syncs = False, InRecovery = in_recovery, data_sync_retry = retry\<rparr>"

definition SUBTRANSShmemInit :: "Shmem \<Rightarrow> Shmem" where
  "SUBTRANSShmemInit s = s\<lparr>SubTransSlru := SimpleLruInit NUM_SUBTRANS_BUFFERS 0 (SubTransSlru s)\<rparr>"

subsection \<open>Recording and following parents\<close>

definition store_parent :: "TransactionId \<Rightarrow> TransactionId \<Rightarrow> nat \<Rightarrow> SlruShared stmt" where
  "store_parent xid parent slotno s =
     (let entryno = SubTransIdToEntry xid; old = read_xid (page_buffer s slotno) entryno in
      if old \<noteq> parent
      then if old \<noteq> InvalidTransactionId then Inl (AssertFail ''no parent yet'', s)
        else Inr (s\<lparr>page_buffer := (page_buffer s)(slotno := write_xid entryno parent (page_buffer s slotno)),
                    page_dirty := (page_dirty s)(slotno := True)\<rparr>)
      else Inr s)"

definition SubTransSetParent :: "SlruCtl \<Rightarrow> TransactionId \<Rightarrow> TransactionId \<Rightarrow> Shmem stmt" where
  "SubTransSetParent ctl xid parent =
     seq [assert_that ''parent valid'' (\<lambda>s. TransactionIdIsValid parent),
          assert_that ''xid follows parent'' (\<lambda>s. TransactionIdFollows xid parent),
          let_do (on_subtrans (SimpleLruReadPage ctl (SubTransIdToPage xid) True))
            (\<lambda>slotno. do_subtrans (store_parent xid parent slotno))]"

definition SubTransGetParent :: "SlruCtl \<Rightarrow> TransactionId \<Rightarrow> TransactionId \<Rightarrow> Shmem \<Rightarrow> (Shmem, TransactionId) vres" where
  "SubTransGetParent ctl TransactionXmin xid s =
     (if \<not> TransactionIdFollowsOrEquals xid TransactionXmin then Inl (AssertFail ''xid not before TransactionXmin'', s)
      else if \<not> TransactionIdIsNormal xid then Inr (InvalidTransactionId, s)
      else (case on_subtrans (SimpleLruReadPage_ReadOnly ctl (SubTransIdToPage xid)) s of
          Inl e \<Rightarrow> Inl e
        | Inr (slotno, s1) \<Rightarrow> Inr (read_xid (page_buffer (SubTransSlru s1) slotno) (SubTransIdToEntry xid), s1)))"

text \<open>The loop over the ancestors; not returning is \<open>None\<close>.\<close>

partial_function (option) topmost_loop ::
    "SlruCtl \<Rightarrow> TransactionId \<Rightarrow> TransactionId \<Rightarrow> TransactionId \<Rightarrow> Shmem \<Rightarrow> (Shmem, TransactionId) vres option" where
  "topmost_loop ctl TransactionXmin parentXid previousXid s =
     (if TransactionIdIsValid parentXid then
        if TransactionIdPrecedes parentXid TransactionXmin then Some (Inr (parentXid, s))
        else (case SubTransGetParent ctl TransactionXmin parentXid s of
            Inl e \<Rightarrow> Some (Inl e)
          | Inr (p, s1) \<Rightarrow>
              if \<not> TransactionIdPrecedes p parentXid then Some (Inl (ERROR ''pg_subtrans contains invalid entry'', s1))
              else topmost_loop ctl TransactionXmin p parentXid s1)
      else Some (Inr (previousXid, s)))"

definition SubTransGetTopmostTransaction ::
    "SlruCtl \<Rightarrow> TransactionId \<Rightarrow> TransactionId \<Rightarrow> Shmem \<Rightarrow> (Shmem, TransactionId) vres option" where
  "SubTransGetTopmostTransaction ctl TransactionXmin xid s =
     (if \<not> TransactionIdFollowsOrEquals xid TransactionXmin
      then Some (Inl (AssertFail ''xid not before TransactionXmin'', s))
      else (case topmost_loop ctl TransactionXmin xid xid s of
          None \<Rightarrow> None
        | Some (Inl e) \<Rightarrow> Some (Inl e)
        | Some (Inr (previousXid, s1)) \<Rightarrow>
            if \<not> TransactionIdIsValid previousXid then Some (Inl (AssertFail ''topmost valid'', s1))
            else Some (Inr (previousXid, s1))))"

subsection \<open>Start-up, extension and truncation\<close>

definition ZeroSUBTRANSPage :: "SlruCtl \<Rightarrow> nat \<Rightarrow> Shmem \<Rightarrow> (Shmem, nat) vres" where
  "ZeroSUBTRANSPage ctl pageno = on_subtrans (SimpleLruZeroPage ctl pageno)"

definition BootStrapSUBTRANS :: "SlruCtl \<Rightarrow> Shmem stmt" where
  "BootStrapSUBTRANS ctl =
     let_do (ZeroSUBTRANSPage ctl 0)
       (\<lambda>slotno. seq [do_subtrans (SimpleLruWritePage ctl slotno),
                      assert_that ''page written'' (\<lambda>s. \<not> page_dirty (SubTransSlru s) slotno)])"

text \<open>
  The loop of \<^verbatim>\<open>StartupSUBTRANS\<close>, from a page to the page of \<open>endXid\<close>, around the end of the id space.
\<close>

definition next_subtrans_page :: "nat \<Rightarrow> nat" where
  "next_subtrans_page p = (if p + 1 > SubTransIdToPage MaxTransactionId then 0 else p + 1)"

definition pages_ahead :: "nat \<Rightarrow> TransactionId \<Rightarrow> nat" where
  "pages_ahead p endXid = (let m = SubTransIdToPage MaxTransactionId; q = SubTransIdToPage endXid in
     if m < p then m + 2 else if p \<le> q then q - p else m + 1 - p + q)"

lemma subtrans_page_le: "SubTransIdToPage x \<le> SubTransIdToPage MaxTransactionId"
proof -
  have "unat x \<le> unat MaxTransactionId" using unat_less_32[of x] by (simp add: MaxTransactionId_def)
  then show ?thesis unfolding SubTransIdToPage_def by (rule div_le_mono)
qed

lemma pages_ahead_next: "p \<noteq> SubTransIdToPage x \<Longrightarrow> pages_ahead (next_subtrans_page p) x < pages_ahead p x"
  using subtrans_page_le[of x] by (auto simp: pages_ahead_def next_subtrans_page_def Let_def)

function zero_pages_loop :: "SlruCtl \<Rightarrow> nat \<Rightarrow> TransactionId \<Rightarrow> Shmem stmt" where
  "zero_pages_loop ctl startPage endXid s =
     (if startPage \<noteq> SubTransIdToPage endXid
      then (case ZeroSUBTRANSPage ctl startPage s of
          Inl e \<Rightarrow> Inl e
        | Inr (slotno, s1) \<Rightarrow> zero_pages_loop ctl (next_subtrans_page startPage) endXid s1)
      else (case ZeroSUBTRANSPage ctl startPage s of Inl e \<Rightarrow> Inl e | Inr (slotno, s1) \<Rightarrow> Inr s1))"
  by pat_completeness auto
termination
  by (relation "measure (\<lambda>(ctl, p, x, s). pages_ahead p x)") (auto simp: pages_ahead_next)

declare zero_pages_loop.simps [simp del]

definition StartupSUBTRANS :: "SlruCtl \<Rightarrow> TransactionId \<Rightarrow> Shmem stmt" where
  "StartupSUBTRANS ctl oldestActiveXID s =
     zero_pages_loop ctl (SubTransIdToPage oldestActiveXID) (XidFromFullTransactionId (nextXid (ShmemVariableCache s))) s"

definition CheckPointSUBTRANS :: "SlruCtl \<Rightarrow> Shmem stmt" where
  "CheckPointSUBTRANS ctl = do_subtrans (SimpleLruWriteAll ctl True)"

definition ExtendSUBTRANS :: "SlruCtl \<Rightarrow> TransactionId \<Rightarrow> Shmem stmt" where
  "ExtendSUBTRANS ctl newestXact s =
     (if SubTransIdToEntry newestXact \<noteq> 0 \<and> newestXact \<noteq> FirstNormalTransactionId then Inr s
      else let_do (ZeroSUBTRANSPage ctl (SubTransIdToPage newestXact)) (\<lambda>slotno. upd id) s)"

text \<open>\<^verbatim>\<open>TransactionIdRetreat\<close> (transam.h): below the first normal id the decrement wraps around.\<close>

function skip_special_down :: "TransactionId \<Rightarrow> TransactionId" where
  "skip_special_down x = (if x < FirstNormalTransactionId then skip_special_down (x - 1) else x)"
  by pat_completeness auto
termination
proof (relation "measure (\<lambda>x. if x < FirstNormalTransactionId then unat x + 1 else 0)", goal_cases)
  case (2 x)
  have m: "unat (- 1 :: 32 word) = 4294967295" by (simp add: unsigned_minus_1_eq_mask mask_eq_exp_minus_1)
  have "x \<noteq> 0 \<Longrightarrow> 0 < unat x" by (simp add: unat_gt_0)
  then show ?case using 2 m
    by (cases "x = 0") (auto simp: FirstNormalTransactionId_def word_less_nat_alt unat_minus_one)
qed simp

declare skip_special_down.simps [simp del]

definition TransactionIdRetreat :: "TransactionId \<Rightarrow> TransactionId" where
  "TransactionIdRetreat dest = skip_special_down (dest - 1)"

definition TruncateSUBTRANS :: "SlruCtl \<Rightarrow> TransactionId \<Rightarrow> Shmem stmt" where
  "TruncateSUBTRANS ctl oldestXact =
     do_subtrans (SimpleLruTruncate ctl (SubTransIdToPage (TransactionIdRetreat oldestXact)))"

end
