(* ===== verification/Subtrans_Inv.thy ===== *)
theory Subtrans_Inv
  imports Subtrans
begin

section \<open>The parent map\<close>

text \<open>
  What the pages of \<^verbatim>\<open>pg_subtrans\<close> say about each transaction id, the effect of every routine on
  that map, and the termination of the walk to the topmost transaction.
\<close>

lemmas subtrans_consts = SUBTRANS_XACTS_PER_PAGE_def BLCKSZ_def

subsection \<open>Four bytes of a page\<close>

lemma join_bytes:
  "or (ucast (ucast x :: 8 word)) (or (push_bit 8 (ucast (ucast (drop_bit 8 x) :: 8 word)))
     (or (push_bit 16 (ucast (ucast (drop_bit 16 x) :: 8 word))) (push_bit 24 (ucast (ucast (drop_bit 24 x) :: 8 word))))) = x"
  for x :: "32 word"
proof (rule bit_word_eqI)
  fix n assume "n < LENGTH(32)"
  then consider "n < 8" | "8 \<le> n \<and> n < 16" | "16 \<le> n \<and> n < 24" | "24 \<le> n \<and> n < 32" by fastforce
  then show "bit (or (ucast (ucast x :: 8 word)) (or (push_bit 8 (ucast (ucast (drop_bit 8 x) :: 8 word)))
     (or (push_bit 16 (ucast (ucast (drop_bit 16 x) :: 8 word))) (push_bit 24 (ucast (ucast (drop_bit 24 x) :: 8 word))))) :: 32 word) n = bit x n"
    by cases (auto simp: bit_simps)
qed

lemma entry_bound [simp]: "SubTransIdToEntry x < SUBTRANS_XACTS_PER_PAGE"
  by (simp add: SubTransIdToEntry_def subtrans_consts)

lemma write_xid_length [simp]: "length (write_xid e x b) = length b"
  by (simp add: write_xid_def)

lemma read_write_xid:
  assumes "length b = BLCKSZ" "e < SUBTRANS_XACTS_PER_PAGE"
  shows "read_xid (write_xid e x b) e' = (if e' = e then x else read_xid b e')"
proof (cases "e' = e")
  case True
  have "4 * e + 3 < length b" using assms by (simp add: subtrans_consts)
  then show ?thesis using True by (simp add: read_xid_def write_xid_def nth_list_update join_bytes)
next
  case False
  then have "4 * e' + i \<noteq> 4 * e + j" if "i < 4" "j < 4" for i j using that by presburger
  note n = this[of 0 0, simplified] this[of 0] this[of _ 0] this
  show ?thesis using False n by (simp add: read_xid_def write_xid_def nth_list_update_neq)
qed

lemma read_zero: "e < SUBTRANS_XACTS_PER_PAGE \<Longrightarrow> read_xid zero_page e = InvalidTransactionId"
  by (simp add: read_xid_def zero_page_def subtrans_consts InvalidTransactionId_def)

lemma page_entry_eq: "SubTransIdToPage x = SubTransIdToPage y \<Longrightarrow> SubTransIdToEntry x = SubTransIdToEntry y \<Longrightarrow> x = y"
  unfolding SubTransIdToPage_def SubTransIdToEntry_def by (metis div_mult_mod_eq unat_eqD)

subsection \<open>The map\<close>

definition sub_view :: "SlruShared \<Rightarrow> TransactionId \<Rightarrow> TransactionId" where
  "sub_view s x = (case page_of s (SubTransIdToPage x) of None \<Rightarrow> InvalidTransactionId | Some b \<Rightarrow> read_xid b (SubTransIdToEntry x))"

abbreviation parent_map :: "Shmem \<Rightarrow> TransactionId \<Rightarrow> TransactionId" where
  "parent_map s \<equiv> sub_view (SubTransSlru s)"

text \<open>No system call will fail and the page of the id exists.\<close>

definition sub_calm :: "TransactionId \<Rightarrow> SlruShared \<Rightarrow> bool" where
  "sub_calm x s \<longleftrightarrow> io_results s = [] \<and> page_of s (SubTransIdToPage x) \<noteq> None"

definition only_subtrans :: "Shmem \<Rightarrow> Shmem \<Rightarrow> bool" where
  "only_subtrans s s' \<longleftrightarrow> s' = s\<lparr>SubTransSlru := SubTransSlru s'\<rparr>"

lemma only_subtrans_simps [simp]: "only_subtrans s s" "only_subtrans s (s\<lparr>SubTransSlru := x\<rparr>)"
  by (simp_all add: only_subtrans_def)

lemma only_subtrans_trans: "only_subtrans s s' \<Longrightarrow> only_subtrans s' s'' \<Longrightarrow> only_subtrans s s''"
  by (cases s; cases s'; cases s'') (simp add: only_subtrans_def)

lemma sub_view_grown: "grown (page_of s (SubTransIdToPage x)) (page_of s' (SubTransIdToPage x)) \<Longrightarrow> sub_view s' x = sub_view s x"
  by (auto simp: grown_def sub_view_def read_zero)

lemma sub_view_keeps: "keeps_pages s s' \<Longrightarrow> sub_view s' = sub_view s"
  by (rule ext) (simp add: keeps_pages_def sub_view_grown)

lemma stored_view:
  assumes "slru_ok s" "i < num_slots s" "loaded s i" "page_number s i = SubTransIdToPage x"
    "stored i (write_xid (SubTransIdToEntry x) p (page_buffer s i)) s s'"
  shows "sub_view s' = (sub_view s)(x := p)"
proof
  fix y
  have len: "length (page_buffer s i) = BLCKSZ" using slru_okD(3)[OF assms(1,2)] assms(3) by (simp add: slot_ok_def)
  have u: "unique_pages s" using assms(1) by (simp add: slru_ok_def)
  have "page_of s (SubTransIdToPage x) = Some (page_buffer s i)" using page_of_slot[OF u assms(2,3)] assms(4) by simp
  then show "sub_view s' y = ((sub_view s)(x := p)) y"
    using stored_page_of[OF u assms(2,3,5)] assms(4) read_write_xid[OF len entry_bound[of x]] page_entry_eq[of y x]
    by (auto simp: sub_view_def)
qed

lemma store_parent_ok:
  assumes "slru_ok s" "i < num_slots s" "loaded s i" "page_number s i = SubTransIdToPage x"
    "sub_view s x = InvalidTransactionId \<or> sub_view s x = p"
  shows "\<exists>s'. store_parent x p i s = Inr s' \<and> slru_ok s' \<and> sub_view s' = (sub_view s)(x := p) \<and> io_results s' = io_results s"
proof -
  have len: "length (page_buffer s i) = BLCKSZ" using slru_okD(3)[OF assms(1,2)] assms(3) by (simp add: slot_ok_def)
  have u: "unique_pages s" using assms(1) by (simp add: slru_ok_def)
  have v: "sub_view s x = read_xid (page_buffer s i) (SubTransIdToEntry x)"
    using page_of_slot[OF u assms(2,3)] assms(4) by (simp add: sub_view_def)
  show ?thesis
  proof (cases "sub_view s x = p")
    case True
    then show ?thesis using v assms(1) by (auto simp: store_parent_def Let_def)
  next
    case False
    let ?b = "write_xid (SubTransIdToEntry x) p (page_buffer s i)"
    let ?s = "s\<lparr>page_buffer := (page_buffer s)(i := ?b), page_dirty := (page_dirty s)(i := True)\<rparr>"
    have st: "stored i ?b s ?s" by (simp add: stored_def lsns_flushed_def)
    have "store_parent x p i s = Inr ?s" using False assms(5) v by (simp add: store_parent_def Let_def)
    then show ?thesis using stored_ok[OF assms(1-3) st] len stored_view[OF assms(1-4) st] by simp
  qed
qed

subsection \<open>Recording and reading a parent\<close>

lemma SubTransSetParent_ok:
  assumes "\<not> InRecovery ctl" "slru_ok (SubTransSlru s)" "TransactionIdIsValid p" "TransactionIdFollows x p"
    "parent_map s x = InvalidTransactionId \<or> parent_map s x = p"
  shows "case SubTransSetParent ctl x p s of
      Inl (e, s') \<Rightarrow> io_error e \<and> only_subtrans s s' \<and> slru_ok (SubTransSlru s') \<and> parent_map s' = parent_map s \<and>
        \<not> sub_calm x (SubTransSlru s)
    | Inr s' \<Rightarrow> only_subtrans s s' \<and> slru_ok (SubTransSlru s') \<and> parent_map s' = (parent_map s)(x := p)"
proof -
  let ?r = "SimpleLruReadPage ctl (SubTransIdToPage x) True (SubTransSlru s)"
  note o = SimpleLruReadPage_ok[OF assms(1,2), of "SubTransIdToPage x" True]
  have q: "sub_calm x (SubTransSlru s) \<Longrightarrow> quiet ?r" using assms(2) by (intro quiet_read) (auto simp: sub_calm_def)
  show ?thesis
  proof (cases ?r)
    case (Inl a)
    obtain e y where a: "a = (e, y)" by (cases a)
    then have k: "io_error e" "slru_ok y" "keeps_pages (SubTransSlru s) y" using o Inl by (auto simp: outcome_ok_def)
    have "\<not> sub_calm x (SubTransSlru s)" using q Inl a k(1) by auto
    then show ?thesis using Inl a k assms(3,4) sub_view_keeps[OF k(3)]
      by (simp add: SubTransSetParent_def stmt_simps on_subtrans_def)
  next
    case (Inr a)
    obtain i y where a: "a = (i, y)" by (cases a)
    then have k: "slru_ok y" "found (SubTransIdToPage x) True (SubTransSlru s) i y" using o Inr by (auto simp: outcome_ok_def)
    then have f: "i < num_slots y" "loaded y i" "page_number y i = SubTransIdToPage x" "keeps_pages (SubTransSlru s) y"
      by (auto simp: found_def loaded_def)
    note v = sub_view_keeps[OF f(4)]
    obtain z where "store_parent x p i y = Inr z" "slru_ok z" "sub_view z = (sub_view y)(x := p)"
      using store_parent_ok[OF k(1) f(1-3), of p] assms(5) v by auto
    then show ?thesis using Inr a assms(3,4) v
      by (simp add: SubTransSetParent_def stmt_simps on_subtrans_def do_subtrans_def)
  qed
qed

lemma SubTransGetParent_ok:
  assumes "\<not> InRecovery ctl" "slru_ok (SubTransSlru s)" "TransactionIdFollowsOrEquals x xmin"
  shows "case SubTransGetParent ctl xmin x s of
      Inl (e, s') \<Rightarrow> io_error e \<and> only_subtrans s s' \<and> slru_ok (SubTransSlru s') \<and> parent_map s' = parent_map s \<and>
        \<not> sub_calm x (SubTransSlru s)
    | Inr (p, s') \<Rightarrow> p = (if TransactionIdIsNormal x then parent_map s x else InvalidTransactionId) \<and>
        only_subtrans s s' \<and> slru_ok (SubTransSlru s') \<and> parent_map s' = parent_map s \<and> keeps_pages (SubTransSlru s) (SubTransSlru s') \<and>
        (sub_calm x (SubTransSlru s) \<longrightarrow> io_results (SubTransSlru s') = [])"
proof (cases "TransactionIdIsNormal x")
  case False
  then show ?thesis using assms by (simp add: SubTransGetParent_def keeps_pages_refl sub_calm_def)
next
  case True
  let ?r = "SimpleLruReadPage_ReadOnly ctl (SubTransIdToPage x) (SubTransSlru s)"
  note o = SimpleLruReadPage_ReadOnly_ok[OF assms(1,2), of "SubTransIdToPage x"]
  have q: "sub_calm x (SubTransSlru s) \<Longrightarrow> quiet ?r" using assms(2) by (intro quiet_read_only) (auto simp: sub_calm_def)
  show ?thesis
  proof (cases ?r)
    case (Inl a)
    obtain e y where a: "a = (e, y)" by (cases a)
    then have k: "io_error e" "slru_ok y" "keeps_pages (SubTransSlru s) y" using o Inl by (auto simp: outcome_ok_def)
    have "\<not> sub_calm x (SubTransSlru s)" using q Inl a k(1) by auto
    then show ?thesis using Inl a k assms(3) True sub_view_keeps[OF k(3)] by (simp add: SubTransGetParent_def on_subtrans_def)
  next
    case (Inr a)
    obtain i y where a: "a = (i, y)" by (cases a)
    then have k: "slru_ok y" "found (SubTransIdToPage x) True (SubTransSlru s) i y" using o Inr by (auto simp: outcome_ok_def)
    have kp: "keeps_pages (SubTransSlru s) y" using k(2) by (simp add: found_def)
    have "sub_view y x = read_xid (page_buffer y i) (SubTransIdToEntry x)" using found_page[OF k] by (simp add: sub_view_def)
    moreover have "sub_calm x (SubTransSlru s) \<longrightarrow> io_results y = []" using q Inr a by auto
    ultimately show ?thesis using Inr a k(1) assms(3) True kp sub_view_keeps[OF kp] by (simp add: SubTransGetParent_def on_subtrans_def)
  qed
qed

subsection \<open>The topmost transaction\<close>

text \<open>
  The result of the walk: an id before the horizon or one without a parent, reached over parents
  that precede their children.
\<close>

inductive topmost :: "(TransactionId \<Rightarrow> TransactionId) \<Rightarrow> TransactionId \<Rightarrow> TransactionId \<Rightarrow> TransactionId \<Rightarrow> bool" for m xmin where
  before_horizon: "TransactionIdPrecedes x xmin \<Longrightarrow> topmost m xmin x x"
| no_parent: "m x = InvalidTransactionId \<Longrightarrow> topmost m xmin x x"
| to_parent: "\<not> TransactionIdPrecedes x xmin \<Longrightarrow> m x \<noteq> InvalidTransactionId \<Longrightarrow> TransactionIdPrecedes (m x) x \<Longrightarrow>
    topmost m xmin (m x) t \<Longrightarrow> topmost m xmin x t"

definition parents_precede :: "(TransactionId \<Rightarrow> TransactionId) \<Rightarrow> bool" where
  "parents_precede m \<longleftrightarrow> (\<forall>x. TransactionIdIsNormal x \<longrightarrow> TransactionIdPrecedes (m x) x)"

lemma in_window:
  assumes "TransactionIdIsNormal xmin" "TransactionIdIsValid x" "\<not> TransactionIdPrecedes x xmin"
  shows "x \<in> xid_window xmin" "TransactionIdFollowsOrEquals x xmin"
proof -
  have n: "TransactionIdIsNormal x"
  proof (rule ccontr)
    assume "\<not> TransactionIdIsNormal x"
    then have "x < xmin" using assms(1) by (simp add: TransactionIdIsNormal_def)
    then show False using assms(3) \<open>\<not> TransactionIdIsNormal x\<close> by (simp add: TransactionIdPrecedes_def)
  qed
  then have "\<not> sint (x - xmin) < 0" using assms(1,3) by (simp add: TransactionIdPrecedes_def)
  then show "x \<in> xid_window xmin" "TransactionIdFollowsOrEquals x xmin"
    using n assms(1) sint_neg[of "x - xmin"] by (simp_all add: xid_window_def TransactionIdFollowsOrEquals_def)
qed

lemma invalid_precedes: "TransactionIdIsNormal x \<Longrightarrow> TransactionIdPrecedes InvalidTransactionId x"
  by (auto simp: TransactionIdPrecedes_def xid_consts word_less_nat_alt word_le_nat_alt)

definition calm_between :: "TransactionId \<Rightarrow> TransactionId \<Rightarrow> SlruShared \<Rightarrow> bool" where
  "calm_between xmin x s \<longleftrightarrow> (\<forall>y \<in> xid_window xmin. xid_rank xmin y \<le> xid_rank xmin x \<longrightarrow> sub_calm y s)"

lemma calm_between_step:
  assumes "calm_between xmin x s" "keeps_pages s s'" "io_results s' = []" "xid_rank xmin y \<le> xid_rank xmin x"
  shows "calm_between xmin y s'"
  using assms keeps_page[OF assms(2)] unfolding calm_between_def sub_calm_def by (meson order_trans)

text \<open>What the loop delivers, started at \<open>x\<close>: an error leaves the map alone and has a cause.\<close>

definition walked :: "TransactionId \<Rightarrow> TransactionId \<Rightarrow> Shmem \<Rightarrow> (Shmem, TransactionId) vres \<Rightarrow> bool" where
  "walked xmin x s r \<longleftrightarrow> (case r of
      Inl (e, s') \<Rightarrow> io_error e \<and> only_subtrans s s' \<and> slru_ok (SubTransSlru s') \<and> parent_map s' = parent_map s \<and>
        (parents_precede (parent_map s) \<longrightarrow> \<not> calm_between xmin x (SubTransSlru s))
    | Inr (t, s') \<Rightarrow> TransactionIdIsValid t \<and> topmost (parent_map s) xmin x t \<and> only_subtrans s s' \<and>
        slru_ok (SubTransSlru s') \<and> parent_map s' = parent_map s)"

lemma walked_up:
  assumes "walked xmin (parent_map s x) s1 r" "only_subtrans s s1" "parent_map s1 = parent_map s"
    "\<not> TransactionIdPrecedes x xmin" "parent_map s x \<noteq> InvalidTransactionId" "TransactionIdPrecedes (parent_map s x) x"
    "calm_between xmin x (SubTransSlru s) \<Longrightarrow> calm_between xmin (parent_map s x) (SubTransSlru s1)"
  shows "walked xmin x s r"
proof (cases r)
  case (Inl a)
  then show ?thesis using assms only_subtrans_trans[OF assms(2)] by (cases a) (auto simp: walked_def)
next
  case (Inr a)
  then show ?thesis using assms only_subtrans_trans[OF assms(2)] topmost.to_parent[of x xmin "parent_map s"]
    by (cases a) (simp add: walked_def)
qed

lemma topmost_loop_ok:
  assumes xm: "TransactionIdIsNormal xmin" and rec: "\<not> InRecovery ctl"
  shows "slru_ok (SubTransSlru s) \<Longrightarrow> TransactionIdIsValid x \<Longrightarrow>
    \<exists>r. topmost_loop ctl xmin x prev s = Some r \<and> walked xmin x s r"
proof (induction "xid_rank xmin x" arbitrary: x prev s rule: less_induct)
  case less
  show ?case
  proof (cases "TransactionIdPrecedes x xmin")
    case True
    then show ?thesis using less.prems by (subst topmost_loop.simps) (simp add: topmost.before_horizon walked_def)
  next
    case False
    note w = in_window[OF xm less.prems(2) False]
    have n: "TransactionIdIsNormal x" using w(1) by (simp add: xid_window_def)
    note g = SubTransGetParent_ok[OF rec less.prems(1) w(2)]
    have self: "calm_between xmin x (SubTransSlru s) \<Longrightarrow> sub_calm x (SubTransSlru s)" using w(1) by (auto simp: calm_between_def)
    show ?thesis
    proof (cases "SubTransGetParent ctl xmin x s")
      case (Inl a)
      obtain e s1 where a: "a = (e, s1)" by (cases a)
      have "\<not> calm_between xmin x (SubTransSlru s)" using g Inl a self by auto
      then show ?thesis using g Inl a less.prems(2) False by (subst topmost_loop.simps) (simp add: walked_def)
    next
      case (Inr a)
      obtain p s1 where a: "a = (p, s1)" by (cases a)
      then have p: "p = parent_map s x" "only_subtrans s s1" "slru_ok (SubTransSlru s1)" "parent_map s1 = parent_map s"
          "keeps_pages (SubTransSlru s) (SubTransSlru s1)" "sub_calm x (SubTransSlru s) \<longrightarrow> io_results (SubTransSlru s1) = []"
        using g Inr n by simp_all
      have unf: "topmost_loop ctl xmin x prev s =
          (if \<not> TransactionIdPrecedes p x then Some (Inl (ERROR ''pg_subtrans contains invalid entry'', s1))
           else topmost_loop ctl xmin p x s1)"
        using Inr a less.prems(2) False by (subst topmost_loop.simps) simp
      consider (bad) "\<not> TransactionIdPrecedes p x" | (root) "TransactionIdPrecedes p x" "p = InvalidTransactionId"
        | (old) "TransactionIdPrecedes p x" "TransactionIdIsValid p" "TransactionIdPrecedes p xmin"
        | (up) "TransactionIdPrecedes p x" "TransactionIdIsValid p" "\<not> TransactionIdPrecedes p xmin"
        by (auto simp: TransactionIdIsValid_def)
      then show ?thesis
      proof cases
        case bad
        then have "\<not> parents_precede (parent_map s)" using n p(1) by (auto simp: parents_precede_def)
        then show ?thesis using unf bad p by (simp add: io_error_def walked_def)
      next
        case root
        have "topmost_loop ctl xmin p x s1 = Some (Inr (x, s1))"
          using root(2) by (subst topmost_loop.simps) (simp add: TransactionIdIsValid_def)
        then show ?thesis using unf root p less.prems(2) by (simp add: topmost.no_parent walked_def)
      next
        case old
        have l: "topmost_loop ctl xmin p x s1 = Some (Inr (p, s1))" using old by (subst topmost_loop.simps) simp
        have "topmost (parent_map s) xmin x p"
          using topmost.to_parent[of x xmin "parent_map s" p] topmost.before_horizon[OF old(3)] old(1,2) False p(1)
          by (simp add: TransactionIdIsValid_def)
        then show ?thesis using unf l old(1,2) p by (simp add: walked_def)
      next
        case up
        have r: "xid_rank xmin p < xid_rank xmin x"
          using TransactionIdPrecedes_window[OF in_window(1)[OF xm up(2,3)] w(1)] up(1) by simp
        obtain r where r': "topmost_loop ctl xmin p x s1 = Some r" "walked xmin p s1 r" using less.hyps[OF r p(3) up(2)] by blast
        have "calm_between xmin x (SubTransSlru s) \<Longrightarrow> calm_between xmin p (SubTransSlru s1)"
          using calm_between_step[OF _ p(5)] self p(6) r by simp
        then show ?thesis using unf r' up walked_up[of xmin s x s1 r] p(1,2,4) False by (simp add: TransactionIdIsValid_def)
      qed
    qed
  qed
qed

lemma SubTransGetTopmostTransaction_ok:
  assumes "TransactionIdIsNormal xmin" "\<not> InRecovery ctl" "slru_ok (SubTransSlru s)" "TransactionIdFollowsOrEquals x xmin"
  shows "\<exists>r. SubTransGetTopmostTransaction ctl xmin x s = Some r \<and> walked xmin x s r"
proof -
  have "TransactionIdIsValid x" using assms(1,4) by (auto simp: TransactionIdFollowsOrEquals_def xid_consts)
  then obtain r where "topmost_loop ctl xmin x x s = Some r" "walked xmin x s r"
    using topmost_loop_ok[OF assms(1,2,3)] by blast
  then show ?thesis using assms(4)
    by (auto simp: SubTransGetTopmostTransaction_def walked_def split: sum.splits)
qed

subsection \<open>Extension and start-up\<close>

definition clear_parents :: "nat \<Rightarrow> (TransactionId \<Rightarrow> TransactionId) \<Rightarrow> TransactionId \<Rightarrow> TransactionId" where
  "clear_parents p m = (\<lambda>x. if SubTransIdToPage x = p then InvalidTransactionId else m x)"

lemma zeroed_parents:
  assumes "zeroed p s i s'"
  shows "sub_view s' = clear_parents p (sub_view s)"
proof
  fix x
  show "sub_view s' x = clear_parents p (sub_view s) x"
    using assms sub_view_grown[of s x s'] by (auto simp: zeroed_def clear_parents_def sub_view_def read_zero)
qed

lemma ZeroSUBTRANSPage_ok:
  assumes "slru_ok (SubTransSlru s)"
  shows "case ZeroSUBTRANSPage ctl p s of
      Inl (e, s') \<Rightarrow> io_error e \<and> only_subtrans s s' \<and> slru_ok (SubTransSlru s') \<and> keeps_pages (SubTransSlru s) (SubTransSlru s') \<and>
        io_results (SubTransSlru s) \<noteq> []
    | Inr (i, s') \<Rightarrow> only_subtrans s s' \<and> slru_ok (SubTransSlru s') \<and> zeroed p (SubTransSlru s) i (SubTransSlru s') \<and>
        (io_results (SubTransSlru s) = [] \<longrightarrow> io_results (SubTransSlru s') = [])"
proof -
  have q: "io_results (SubTransSlru s) = [] \<Longrightarrow> quiet (SimpleLruZeroPage ctl p (SubTransSlru s))" by (rule quiet_zero)
  show ?thesis using SimpleLruZeroPage_ok[OF assms, of p ctl] q
    by (cases "SimpleLruZeroPage ctl p (SubTransSlru s)") (auto simp: ZeroSUBTRANSPage_def on_subtrans_def outcome_ok_def)
qed

lemma ExtendSUBTRANS_ok:
  assumes "slru_ok (SubTransSlru s)"
  shows "case ExtendSUBTRANS ctl x s of
      Inl (e, s') \<Rightarrow> io_error e \<and> only_subtrans s s' \<and> slru_ok (SubTransSlru s') \<and> keeps_pages (SubTransSlru s) (SubTransSlru s') \<and>
        io_results (SubTransSlru s) \<noteq> []
    | Inr s' \<Rightarrow> only_subtrans s s' \<and> slru_ok (SubTransSlru s') \<and>
        (if SubTransIdToEntry x = 0 \<or> x = FirstNormalTransactionId
         then parent_map s' = clear_parents (SubTransIdToPage x) (parent_map s) \<and> page_of (SubTransSlru s') (SubTransIdToPage x) \<noteq> None
         else s' = s)"
proof (cases "SubTransIdToEntry x = 0 \<or> x = FirstNormalTransactionId")
  case False
  then show ?thesis using assms by (simp add: ExtendSUBTRANS_def)
next
  case True
  note z = ZeroSUBTRANSPage_ok[OF assms, where ctl = ctl and p = "SubTransIdToPage x"]
  show ?thesis
  proof (cases "ZeroSUBTRANSPage ctl (SubTransIdToPage x) s")
    case (Inl a)
    then show ?thesis using z True by (cases a) (auto simp: ExtendSUBTRANS_def stmt_simps)
  next
    case (Inr a)
    obtain i s' where a: "a = (i, s')" by (cases a)
    then have "zeroed (SubTransIdToPage x) (SubTransSlru s) i (SubTransSlru s')" using z Inr by simp
    then have "parent_map s' = clear_parents (SubTransIdToPage x) (parent_map s)" "page_of (SubTransSlru s') (SubTransIdToPage x) \<noteq> None"
      by (simp_all add: zeroed_parents) (simp add: zeroed_def)
    then show ?thesis using z True Inr a by (auto simp: ExtendSUBTRANS_def stmt_simps)
  qed
qed

text \<open>The pages from one to another, around the end of the id space.\<close>

definition on_path :: "nat \<Rightarrow> nat \<Rightarrow> nat \<Rightarrow> bool" where
  "on_path p q r \<longleftrightarrow> (if p \<le> q then p \<le> r \<and> r \<le> q else p \<le> r \<or> r \<le> q)"

lemma on_path_next:
  assumes "p \<le> SubTransIdToPage MaxTransactionId" "q \<le> SubTransIdToPage MaxTransactionId" "r \<le> SubTransIdToPage MaxTransactionId"
  shows "on_path p q r \<longleftrightarrow> r = p \<or> p \<noteq> q \<and> on_path (next_subtrans_page p) q r"
  using assms by (auto simp: on_path_def next_subtrans_page_def)

lemma next_page_le: "next_subtrans_page p \<le> SubTransIdToPage MaxTransactionId"
  by (simp add: next_subtrans_page_def)

lemma zero_pages_loop_ok:
  assumes "slru_ok (SubTransSlru s)" "p \<le> SubTransIdToPage MaxTransactionId"
  shows "case zero_pages_loop ctl p x s of
      Inl (e, s') \<Rightarrow> io_error e \<and> only_subtrans s s' \<and> slru_ok (SubTransSlru s') \<and> io_results (SubTransSlru s) \<noteq> []
    | Inr s' \<Rightarrow> only_subtrans s s' \<and> slru_ok (SubTransSlru s') \<and> (\<forall>r \<le> SubTransIdToPage MaxTransactionId.
        if on_path p (SubTransIdToPage x) r then page_of (SubTransSlru s') r = Some zero_page
        else grown (page_of (SubTransSlru s) r) (page_of (SubTransSlru s') r))"
  using assms
proof (induction ctl p x s rule: zero_pages_loop.induct)
  case (1 ctl p x s)
  note z = ZeroSUBTRANSPage_ok[OF 1(2), where ctl = ctl and p = p]
  show ?case
  proof (cases "ZeroSUBTRANSPage ctl p s")
    case (Inl a)
    then have "zero_pages_loop ctl p x s = Inl a" by (subst zero_pages_loop.simps) (cases "p = SubTransIdToPage x"; simp)
    then show ?thesis using z Inl by (cases a) simp
  next
    case (Inr a)
    obtain i s1 where a: "a = (i, s1)" by (cases a)
    have s1: "only_subtrans s s1" "slru_ok (SubTransSlru s1)" "zeroed p (SubTransSlru s) i (SubTransSlru s1)"
        "io_results (SubTransSlru s) = [] \<longrightarrow> io_results (SubTransSlru s1) = []" using z Inr a by simp_all
    have z1: "page_of (SubTransSlru s1) p = Some zero_page"
        "r \<noteq> p \<Longrightarrow> grown (page_of (SubTransSlru s) r) (page_of (SubTransSlru s1) r)" for r using s1(3) by (simp_all add: zeroed_def)
    note path = on_path_next[OF 1(3) subtrans_page_le[of x]]
    show ?thesis
    proof (cases "p = SubTransIdToPage x")
      case True
      then have "zero_pages_loop ctl p x s = Inr s1" using Inr a by (subst zero_pages_loop.simps) simp
      then show ?thesis using s1 z1 True path by auto
    next
      case False
      then have u: "zero_pages_loop ctl p x s = zero_pages_loop ctl (next_subtrans_page p) x s1"
        using Inr a by (subst zero_pages_loop.simps) simp
      note IH = 1(1)[OF False Inr a[symmetric] s1(2) next_page_le]
      show ?thesis
      proof (cases "zero_pages_loop ctl (next_subtrans_page p) x s1")
        case (Inl b)
        then show ?thesis using IH u s1 only_subtrans_trans[OF s1(1)] by (cases b) auto
      next
        case (Inr s')
        have "if on_path p (SubTransIdToPage x) r then page_of (SubTransSlru s') r = Some zero_page
            else grown (page_of (SubTransSlru s) r) (page_of (SubTransSlru s') r)" if "r \<le> SubTransIdToPage MaxTransactionId" for r
        proof -
          have "if on_path (next_subtrans_page p) (SubTransIdToPage x) r then page_of (SubTransSlru s') r = Some zero_page
              else grown (page_of (SubTransSlru s1) r) (page_of (SubTransSlru s') r)" using IH Inr that by simp
          then show ?thesis using path[OF that] z1(1) z1(2)[of r] False grown_trans[of "page_of (SubTransSlru s) r"]
            by (cases "r = p") (auto split: if_splits)
        qed
        then show ?thesis using IH u Inr only_subtrans_trans[OF s1(1)] by simp
      qed
    qed
  qed
qed

lemma unat_diff_32: "unat (a - b) = (if unat b \<le> unat a then unat a - unat b else unat a + 2 ^ 32 - unat b)" for a b :: "32 word"
proof (cases "unat b \<le> unat a")
  case True
  then show ?thesis using unat_sub_small[of "unat b" a] by simp
next
  case False
  have "(of_nat (2 ^ 32 - unat b) :: 32 word) = of_nat (2 ^ 32) - of_nat (unat b)"
    using unat_less_32[of b] by (intro of_nat_diff) simp
  also have "\<dots> = - b" by simp
  finally have "a - b = a + of_nat (2 ^ 32 - unat b)" by simp
  moreover have "unat a + (2 ^ 32 - unat b) < 2 ^ 32" using False unat_less_32[of b] by linarith
  ultimately have "unat (a - b) = unat a + (2 ^ 32 - unat b)" using unat_add_small by metis
  then show ?thesis using False unat_less_32[of b] by simp
qed

lemma id_on_path:
  assumes "unat (nxt - old) < 2 ^ 31" "unat (y - old) \<le> unat (nxt - old)"
  shows "on_path (SubTransIdToPage old) (SubTransIdToPage nxt) (SubTransIdToPage y)"
proof -
  have mono: "unat a \<le> unat b \<Longrightarrow> SubTransIdToPage a \<le> SubTransIdToPage b" for a b unfolding SubTransIdToPage_def by (rule div_le_mono)
  show ?thesis
  proof (cases "unat old \<le> unat nxt")
    case True
    then have "unat old \<le> unat y" "unat y \<le> unat nxt"
      using assms unat_less_32[of y] unat_less_32[of nxt] by (auto simp: unat_diff_32 split: if_splits)
    then show ?thesis using mono True by (simp add: on_path_def)
  next
    case False
    have "SubTransIdToPage nxt \<noteq> SubTransIdToPage old"
    proof
      assume "SubTransIdToPage nxt = SubTransIdToPage old"
      then have "unat old < unat nxt + SUBTRANS_XACTS_PER_PAGE"
        using div_mult_mod_eq[of "unat old" 2048] div_mult_mod_eq[of "unat nxt" 2048] pos_mod_bound[of 2048 "int (unat old)"]
        by (simp add: SubTransIdToPage_def subtrans_consts)
      then show False using assms(1) False by (simp add: unat_diff_32 subtrans_consts)
    qed
    then have p: "SubTransIdToPage nxt < SubTransIdToPage old" using mono[of nxt old] False by simp
    have "unat old \<le> unat y \<or> unat y \<le> unat nxt" using assms(2) False unat_less_32[of old] by (auto simp: unat_diff_32 split: if_splits)
    then show ?thesis using mono[of old y] mono[of y nxt] p by (auto simp: on_path_def)
  qed
qed

lemma StartupSUBTRANS_ok:
  assumes "slru_ok (SubTransSlru s)"
  defines "nxt \<equiv> XidFromFullTransactionId (nextXid (ShmemVariableCache s))"
  assumes "unat (nxt - old) < 2 ^ 31"
  shows "case StartupSUBTRANS ctl old s of
      Inl (e, s') \<Rightarrow> io_error e \<and> only_subtrans s s' \<and> slru_ok (SubTransSlru s') \<and> io_results (SubTransSlru s) \<noteq> []
    | Inr s' \<Rightarrow> only_subtrans s s' \<and> slru_ok (SubTransSlru s') \<and> (\<forall>y. unat (y - old) \<le> unat (nxt - old) \<longrightarrow>
        parent_map s' y = InvalidTransactionId \<and> page_of (SubTransSlru s') (SubTransIdToPage y) \<noteq> None)"
proof -
  note z = zero_pages_loop_ok[OF assms(1) subtrans_page_le[of old], where ctl = ctl and x = nxt]
  show ?thesis
  proof (cases "zero_pages_loop ctl (SubTransIdToPage old) nxt s")
    case (Inl a)
    then show ?thesis using z by (cases a) (simp add: StartupSUBTRANS_def nxt_def)
  next
    case (Inr s')
    have "page_of (SubTransSlru s') (SubTransIdToPage y) = Some zero_page" if "unat (y - old) \<le> unat (nxt - old)" for y
      using z Inr id_on_path[OF assms(3) that] subtrans_page_le[of y] by simp
    then show ?thesis using z Inr by (simp add: StartupSUBTRANS_def nxt_def sub_view_def read_zero)
  qed
qed

subsection \<open>Truncation\<close>

lemma subtrans_prec: "SubTransPagePrecedes p q = page_prec SUBTRANS_XACTS_PER_PAGE p q"
proof -
  let ?K = SUBTRANS_XACTS_PER_PAGE
  let ?x1 = "of_nat p * of_nat ?K + (FirstNormalTransactionId + 1) :: 32 word"
  let ?x2 = "of_nat q * of_nat ?K + (FirstNormalTransactionId + 1) :: 32 word"
  have K: "?K dvd 2 ^ 32" "1 < ?K - 3" by (simp_all add: subtrans_consts)
  have n: "TransactionIdIsNormal ?x1" "TransactionIdIsNormal ?x2" "TransactionIdIsNormal (?x2 + of_nat ?K - 1)"
    using multiple_normal[OF K, of p] multiple_normal[OF K, of q] multiple_normal[OF K(1), of 0 "q + 1"]
    by (simp_all add: FirstNormalTransactionId_def algebra_simps subtrans_consts)
  have d: "?x1 - ?x2 = (of_nat p - of_nat q) * of_nat ?K"
    "?x1 - (?x2 + of_nat ?K - 1) = (of_nat p - of_nat q) * of_nat ?K - of_nat (?K - 1)"
    by (simp_all add: algebra_simps subtrans_consts)
  show ?thesis unfolding SubTransPagePrecedes_def page_prec_def Let_def TransactionIdPrecedes_def using n d by simp
qed

interpretation subtrans_pages: page_order SubTransPagePrecedes
proof
  fix seg c r
  let ?a = "seg * SLRU_PAGES_PER_SEGMENT"
  assume a: "SubTransPagePrecedes ?a c" "SubTransPagePrecedes (?a + SLRU_PAGES_PER_SEGMENT - 1) c" "r < SLRU_PAGES_PER_SEGMENT"
  have e: "?a + SLRU_PAGES_PER_SEGMENT - 1 = ?a + (SLRU_PAGES_PER_SEGMENT - 1)" by (simp add: SLRU_PAGES_PER_SEGMENT_def)
  have "(SLRU_PAGES_PER_SEGMENT - 1) * SUBTRANS_XACTS_PER_PAGE < 2 ^ 31" by (simp add: subtrans_consts SLRU_PAGES_PER_SEGMENT_def)
  then show "SubTransPagePrecedes (?a + r) c"
    using a page_prec_convex[of SUBTRANS_XACTS_PER_PAGE ?a c "SLRU_PAGES_PER_SEGMENT - 1" r] unfolding subtrans_prec e by simp
qed

lemma retreat_distance:
  assumes "TransactionIdIsNormal old"
  shows "old - TransactionIdRetreat old = 1 \<or> old - TransactionIdRetreat old = 4"
proof (cases "old = FirstNormalTransactionId")
  case True
  have "skip_special_down 2 = 0xFFFFFFFF"
    by (simp add: skip_special_down.simps FirstNormalTransactionId_def)
  then show ?thesis using True by (simp add: TransactionIdRetreat_def FirstNormalTransactionId_def)
next
  case False
  then have "3 < unat old" using assms by (auto simp: xid_consts word_le_nat_alt word_unat_eq_iff)
  then have "\<not> old - 1 < FirstNormalTransactionId"
    using unat_sub_small[of 1 old] by (simp add: FirstNormalTransactionId_def word_less_nat_alt)
  then show ?thesis by (simp add: TransactionIdRetreat_def skip_special_down.simps)
qed

lemma page_not_old:
  assumes "TransactionIdIsNormal old" "unat (x - old) < 2 ^ 31 - 4"
  shows "\<not> SubTransPagePrecedes (SubTransIdToPage x) (SubTransIdToPage (TransactionIdRetreat old))"
proof
  let ?o = "TransactionIdRetreat old"
  assume "SubTransPagePrecedes (SubTransIdToPage x) (SubTransIdToPage ?o)"
  then have n: "sint (x - ?o) < 0" using page_prec_xids[of SUBTRANS_XACTS_PER_PAGE x ?o]
    by (simp add: subtrans_prec SubTransIdToPage_def subtrans_consts)
  have "x - ?o = (x - old) + of_nat (unat (old - ?o))" by simp
  moreover have "unat (old - ?o) \<le> 4" using retreat_distance[OF assms(1)] by auto
  ultimately have "unat (x - ?o) < 2 ^ 31" using assms(2) unat_add_small[of "x - old" "unat (old - ?o)"] by simp
  then show False using n by (simp add: sint_neg)
qed

lemma TruncateSUBTRANS_ok:
  assumes "slru_ok (SubTransSlru s)" "PagePrecedes ctl = SubTransPagePrecedes" "TransactionIdIsNormal old"
  shows "case TruncateSUBTRANS ctl old s of
      Inl (e, s') \<Rightarrow> io_error e \<and> only_subtrans s s' \<and> slru_ok (SubTransSlru s') \<and> parent_map s' = parent_map s
    | Inr s' \<Rightarrow> only_subtrans s s' \<and> slru_ok (SubTransSlru s') \<and>
        (\<forall>x. unat (x - old) < 2 ^ 31 - 4 \<longrightarrow> parent_map s' x = parent_map s x)"
proof -
  let ?c = "SubTransIdToPage (TransactionIdRetreat old)"
  have po: "page_order (PagePrecedes ctl)" using subtrans_pages.page_order_axioms assms(2) by simp
  note t = SimpleLruTruncate_ok[OF assms(1) po, of ?c]
  show ?thesis
  proof (cases "SimpleLruTruncate ctl ?c (SubTransSlru s)")
    case (Inl a)
    then show ?thesis using t sub_view_keeps by (cases a) (auto simp: TruncateSUBTRANS_def do_subtrans_def)
  next
    case (Inr y)
    have "sub_view y x = parent_map s x" if "unat (x - old) < 2 ^ 31 - 4" for x
    proof -
      have "\<forall>p. grown (page_of (SubTransSlru s) p) (page_of y p) \<or> page_of y p = None \<and> SubTransPagePrecedes p ?c"
        using t Inr assms(2) by simp
      then have "grown (page_of (SubTransSlru s) (SubTransIdToPage x)) (page_of y (SubTransIdToPage x))"
        using page_not_old[OF assms(3) that] by blast
      then show ?thesis by (rule sub_view_grown)
    qed
    then show ?thesis using t Inr by (simp add: TruncateSUBTRANS_def do_subtrans_def)
  qed
qed

end
