(* ===== verification/Varsup.thy ===== *)
theory Varsup
  imports Subtrans_Inv
begin

section \<open>Allocation of transaction and object ids (varsup.c)\<close>

text \<open>
  The counters of \<^verbatim>\<open>ShmemVariableCache\<close>, their wraparound limits, and the extension of the commit log,
  the commit timestamps and \<^verbatim>\<open>pg_subtrans\<close> when a new id is the first of a page. The names that other
  theories use for the view of one backend carry the prefix \<open>varsup_\<close> here.
\<close>

text \<open>
  What the routines read from elsewhere. \<open>meanwhile\<close> is what other processes do to shared memory while
  \<^verbatim>\<open>GetNewTransactionId\<close> has released its lock. \<^verbatim>\<open>get_database_name\<close> only decides the wording of
  messages and is left out.
\<close>

record VarsupEnv =
  in_parallel_mode :: bool
  bootstrap_mode :: bool
  recovery_in_progress :: bool
  under_postmaster :: bool
  postmaster_environment :: bool
  am_startup_process :: bool
  autovacuum_freeze_max_age :: "32 word"
  database_exists :: "Oid \<Rightarrow> bool"
  meanwhile :: "Shmem \<Rightarrow> Shmem"
  ctl_xact :: SlruCtl
  ctl_commit_ts :: SlruCtl
  ctl_subtrans :: SlruCtl

definition VAR_OID_PREFETCH :: "32 word" where "VAR_OID_PREFETCH = 8192"
definition FirstBootstrapObjectId :: Oid where "FirstBootstrapObjectId = 12000"
definition FirstNormalObjectId :: Oid where "FirstNormalObjectId = 16384"
definition MAX_CACHED_SUBXIDS :: nat where "MAX_CACHED_SUBXIDS = 64"

abbreviation next_xid :: "Shmem \<Rightarrow> TransactionId" where
  "next_xid s \<equiv> XidFromFullTransactionId (nextXid (ShmemVariableCache s))"

definition send_notice :: "notice \<Rightarrow> Shmem \<Rightarrow> Shmem" where
  "send_notice n s = s\<lparr>notices := notices s @ [n]\<rparr>"

subsection \<open>Room for commit timestamps (commit_ts.c)\<close>

definition COMMIT_TS_XACTS_PER_PAGE :: nat where "COMMIT_TS_XACTS_PER_PAGE = BLCKSZ div 10"

definition TransactionIdToCTsPage :: "TransactionId \<Rightarrow> nat" where
  "TransactionIdToCTsPage xid = unat xid div COMMIT_TS_XACTS_PER_PAGE"

definition TransactionIdToCTsEntry :: "TransactionId \<Rightarrow> nat" where
  "TransactionIdToCTsEntry xid = unat xid mod COMMIT_TS_XACTS_PER_PAGE"

definition ZeroCommitTsPage :: "SlruCtl \<Rightarrow> nat \<Rightarrow> bool \<Rightarrow> Shmem \<Rightarrow> (Shmem, nat) vres" where
  "ZeroCommitTsPage ctl pageno writeXlog s =
     (case on_commit_ts (SimpleLruZeroPage ctl pageno) s of
        Inl e \<Rightarrow> Inl e
      | Inr (slotno, s1) \<Rightarrow> Inr (slotno, if writeXlog then XLogInsert_record (COMMIT_TS_ZEROPAGE pageno) s1 else s1))"

definition ExtendCommitTs :: "SlruCtl \<Rightarrow> TransactionId \<Rightarrow> Shmem stmt" where
  "ExtendCommitTs ctl newestXact s =
     (if InRecovery ctl then Inl (AssertFail ''not in recovery'', s)
      else if \<not> commitTsActive s then Inr s
      else if TransactionIdToCTsEntry newestXact \<noteq> 0 \<and> newestXact \<noteq> FirstNormalTransactionId then Inr s
      else let_do (ZeroCommitTsPage ctl (TransactionIdToCTsPage newestXact) (\<not> InRecovery ctl)) (\<lambda>slotno. upd id) s)"

subsection \<open>Transaction ids\<close>

text \<open>
  The limits, tested before an id is taken. The id that is taken is read again when the lock is held
  again, whatever \<open>meanwhile\<close> did.
\<close>

definition check_wraparound :: "VarsupEnv \<Rightarrow> Shmem stmt" where
  "check_wraparound env s =
     (let v = ShmemVariableCache s; xid = XidFromFullTransactionId (nextXid v) in
      if TransactionIdFollowsOrEquals xid (xidVacLimit v) then
        let s1 = (if under_postmaster env \<and> xid mod 65536 = 0 then send_notice PMSIGNAL_START_AUTOVAC_LAUNCHER s else s) in
        if under_postmaster env \<and> TransactionIdFollowsOrEquals xid (xidStopLimit v)
        then Inl (ERROR ''database is not accepting commands to avoid wraparound data loss'', s1)
        else
          let s2 = (if TransactionIdFollowsOrEquals xid (xidWarnLimit v)
                    then send_notice (WARN_VACUUM_WITHIN (oldestXidDB v) (xidWrapLimit v - xid)) s1 else s1) in
          Inr (meanwhile env s2)
      else Inr s)"

definition upd_my_proc :: "(PGPROC \<Rightarrow> PGPROC) \<Rightarrow> Shmem \<Rightarrow> Shmem" where
  "upd_my_proc f s = s\<lparr>allProcs := (allProcs s)(MyProc s := f (allProcs s (MyProc s)))\<rparr>"

text \<open>
  Announcing the id in the process array. \<^verbatim>\<open>ProcGlobal->xids\<close> and \<^verbatim>\<open>ProcGlobal->subxidStates\<close> mirror
  the fields of \<^verbatim>\<open>MyProc\<close> and are not kept twice.
\<close>

definition announce_xid :: "bool \<Rightarrow> TransactionId \<Rightarrow> Shmem stmt" where
  "announce_xid isSubXact xid =
     if_do (\<lambda>s. \<not> isSubXact)
       (seq [assert_that ''subxid count zero'' (\<lambda>s. subxids (allProcs s (MyProc s)) = []),
             assert_that ''subxids not overflowed'' (\<lambda>s. \<not> overflowed (allProcs s (MyProc s))),
             upd (upd_my_proc (\<lambda>p. p\<lparr>proc_xid := xid\<rparr>))])
       (if_do (\<lambda>s. length (subxids (allProcs s (MyProc s))) < MAX_CACHED_SUBXIDS)
          (upd (upd_my_proc (\<lambda>p. p\<lparr>subxids := subxids p @ [xid]\<rparr>)))
          (upd (upd_my_proc (\<lambda>p. p\<lparr>overflowed := True\<rparr>))))"

definition advance_next_xid :: "Shmem \<Rightarrow> Shmem" where
  "advance_next_xid s = s\<lparr>ShmemVariableCache :=
     (ShmemVariableCache s)\<lparr>nextXid := FullTransactionIdAdvance (nextXid (ShmemVariableCache s))\<rparr>\<rparr>"

definition take_xid :: "VarsupEnv \<Rightarrow> bool \<Rightarrow> TransactionId \<Rightarrow> Shmem stmt" where
  "take_xid env isSubXact xid =
     seq [ExtendCLOG (ctl_xact env) xid, ExtendCommitTs (ctl_commit_ts env) xid, ExtendSUBTRANS (ctl_subtrans env) xid,
          upd advance_next_xid, announce_xid isSubXact xid]"

definition varsup_GetNewTransactionId :: "VarsupEnv \<Rightarrow> bool \<Rightarrow> Shmem \<Rightarrow> (Shmem, FullTransactionId) vres" where
  "varsup_GetNewTransactionId env isSubXact s =
     (if in_parallel_mode env then Inl (ERROR ''cannot assign TransactionIds during a parallel operation'', s)
      else if bootstrap_mode env then
        if isSubXact then Inl (AssertFail ''not a subtransaction'', s)
        else Inr (FullTransactionIdFromEpochAndXid 0 BootstrapTransactionId,
                  upd_my_proc (\<lambda>p. p\<lparr>proc_xid := BootstrapTransactionId\<rparr>) s)
      else if recovery_in_progress env then Inl (ERROR ''cannot assign TransactionIds during recovery'', s)
      else (case check_wraparound env s of
          Inl e \<Rightarrow> Inl e
        | Inr s1 \<Rightarrow>
            let full_xid = nextXid (ShmemVariableCache s1) in
            (case take_xid env isSubXact (XidFromFullTransactionId full_xid) s1 of
               Inl e \<Rightarrow> Inl e | Inr s2 \<Rightarrow> Inr (full_xid, s2))))"

definition ReadNextFullTransactionId :: "Shmem \<Rightarrow> FullTransactionId" where
  "ReadNextFullTransactionId s = nextXid (ShmemVariableCache s)"

definition AdvanceNextFullTransactionIdPastXid :: "VarsupEnv \<Rightarrow> TransactionId \<Rightarrow> Shmem stmt" where
  "AdvanceNextFullTransactionIdPastXid env xid s =
     (if \<not> (am_startup_process env \<or> \<not> under_postmaster env) then Inl (AssertFail ''startup process or standalone'', s)
      else if \<not> TransactionIdFollowsOrEquals xid (next_xid s) then Inr s
      else
        let xid' = TransactionIdAdvance xid;
            epoch = EpochFromFullTransactionId (nextXid (ShmemVariableCache s));
            epoch' = (if xid' < next_xid s then epoch + 1 else epoch) in
        Inr (s\<lparr>ShmemVariableCache := (ShmemVariableCache s)\<lparr>nextXid := FullTransactionIdFromEpochAndXid epoch' xid'\<rparr>\<rparr>))"

subsection \<open>Wraparound limits\<close>

definition wrap_limit :: "TransactionId \<Rightarrow> TransactionId" where
  "wrap_limit oldest = (let x = oldest + drop_bit 1 MaxTransactionId in
     if x < FirstNormalTransactionId then x + FirstNormalTransactionId else x)"

definition limit_before :: "TransactionId \<Rightarrow> 32 word \<Rightarrow> TransactionId" where
  "limit_before wrap n = (let x = wrap - n in if x < FirstNormalTransactionId then x - FirstNormalTransactionId else x)"

definition vac_limit :: "32 word \<Rightarrow> TransactionId \<Rightarrow> TransactionId" where
  "vac_limit max_age oldest = (let x = oldest + max_age in
     if x < FirstNormalTransactionId then x + FirstNormalTransactionId else x)"

definition with_limits :: "32 word \<Rightarrow> TransactionId \<Rightarrow> Oid \<Rightarrow> VariableCacheData \<Rightarrow> VariableCacheData" where
  "with_limits max_age oldest_datfrozenxid oldest_datoid v =
     v\<lparr>oldestXid := oldest_datfrozenxid, xidVacLimit := vac_limit max_age oldest_datfrozenxid,
       xidWarnLimit := limit_before (wrap_limit oldest_datfrozenxid) 40000000,
       xidStopLimit := limit_before (wrap_limit oldest_datfrozenxid) 3000000,
       xidWrapLimit := wrap_limit oldest_datfrozenxid, oldestXidDB := oldest_datoid\<rparr>"

definition SetTransactionIdLimit :: "VarsupEnv \<Rightarrow> TransactionId \<Rightarrow> Oid \<Rightarrow> Shmem stmt" where
  "SetTransactionIdLimit env oldest_datfrozenxid oldest_datoid =
     seq [assert_that ''oldest_datfrozenxid normal'' (\<lambda>s. TransactionIdIsNormal oldest_datfrozenxid),
          upd (\<lambda>s. s\<lparr>ShmemVariableCache :=
            with_limits (autovacuum_freeze_max_age env) oldest_datfrozenxid oldest_datoid (ShmemVariableCache s)\<rparr>),
          when_do (\<lambda>s. TransactionIdFollowsOrEquals (next_xid s) (xidVacLimit (ShmemVariableCache s)) \<and>
                       under_postmaster env \<and> \<not> InRecovery (ctl_xact env))
            (upd (send_notice PMSIGNAL_START_AUTOVAC_LAUNCHER)),
          when_do (\<lambda>s. TransactionIdFollowsOrEquals (next_xid s) (xidWarnLimit (ShmemVariableCache s)) \<and>
                       \<not> InRecovery (ctl_xact env))
            (upd (\<lambda>s. send_notice (WARN_VACUUM_WITHIN oldest_datoid (xidWrapLimit (ShmemVariableCache s) - next_xid s)) s))]"

definition ForceTransactionIdLimitUpdate :: "VarsupEnv \<Rightarrow> Shmem \<Rightarrow> bool" where
  "ForceTransactionIdLimitUpdate env s =
     (let v = ShmemVariableCache s in
      if \<not> TransactionIdIsNormal (oldestXid v) then True
      else if \<not> TransactionIdIsValid (xidVacLimit v) then True
      else if TransactionIdFollowsOrEquals (next_xid s) (xidVacLimit v) then True
      else if \<not> database_exists env (oldestXidDB v) then True
      else False)"

definition AssertTransactionIdInAllowableRange :: "TransactionId \<Rightarrow> Shmem stmt" where
  "AssertTransactionIdInAllowableRange xid s =
     (if \<not> TransactionIdIsValid xid then Inl (AssertFail ''xid valid'', s)
      else if \<not> TransactionIdIsNormal xid then Inr s
      else if \<not> (TransactionIdFollowsOrEquals xid (oldestXid (ShmemVariableCache s)) \<or>
                 TransactionIdPrecedesOrEquals xid (next_xid s))
      then Inl (AssertFail ''xid in range'', s)
      else Inr s)"

subsection \<open>Object ids\<close>

definition XLogPutNextOid :: "Oid \<Rightarrow> Shmem \<Rightarrow> Shmem" where
  "XLogPutNextOid oid s = XLogInsert_record (XLOG_NEXTOID oid) s"

definition wrapped_oids :: "VarsupEnv \<Rightarrow> VariableCacheData \<Rightarrow> VariableCacheData" where
  "wrapped_oids env v =
     (if nextOid v < FirstNormalObjectId then
        if postmaster_environment env then v\<lparr>nextOid := FirstNormalObjectId, oidCount := 0\<rparr>
        else if nextOid v < FirstBootstrapObjectId then v\<lparr>nextOid := FirstNormalObjectId, oidCount := 0\<rparr>
        else v
      else v)"

definition GetNewObjectId :: "VarsupEnv \<Rightarrow> Shmem \<Rightarrow> (Shmem, Oid) vres" where
  "GetNewObjectId env s =
     (if recovery_in_progress env then Inl (ERROR ''cannot assign OIDs during recovery'', s)
      else
        let v = wrapped_oids env (ShmemVariableCache s);
            s1 = s\<lparr>ShmemVariableCache := v\<rparr>;
            s2 = (if oidCount v = 0
                  then (XLogPutNextOid (nextOid v + VAR_OID_PREFETCH) s1)\<lparr>ShmemVariableCache := v\<lparr>oidCount := VAR_OID_PREFETCH\<rparr>\<rparr>
                  else s1);
            v2 = ShmemVariableCache s2 in
        Inr (nextOid v2, s2\<lparr>ShmemVariableCache := v2\<lparr>nextOid := nextOid v2 + 1, oidCount := oidCount v2 - 1\<rparr>\<rparr>))"

end
