(* ===== verification/Spec2Isabelle.thy ===== *)
theory Spec2Isabelle
  imports Scenarios Commands Query_Atomic Xact_Queries Xact_Order Storage_Props Varsup
begin

text \<open>
  \<^bold>\<open>Transactions of a PostgreSQL 14 fork with functional-dependency declarations.\<close>
  The sources are under \<^verbatim>\<open>src/postgresql/src/\<close>; file names below are relative to it.

  \<^bold>\<open>The program.\<close> A backend reads simple-query messages (\<^verbatim>\<open>backend/tcop/postgres.c\<close>), which the fork first
  searches for a functional-dependency declaration (\<^verbatim>\<open>exec_simple_query\<close>, \<^verbatim>\<open>add_trigger\<close>). It executes the statements of
  a message, handing transaction control (\<^verbatim>\<open>backend/tcop/utility.c\<close>) to the transaction state machine
  (\<^verbatim>\<open>backend/access/transam/xact.c\<close>). Transaction ends are recorded through \<^verbatim>\<open>transam.c\<close> in the commit log
  (\<^verbatim>\<open>clog.c\<close>), two bits per transaction id, kept in the page cache of \<^verbatim>\<open>slru.c\<close>.

  \<^bold>\<open>Theories and what they model.\<close>
  \<^item> \<open>Pg_Prelude\<close>: results of C routines (\<open>Inl\<close> an error and the state at that point), statement
    sequences, total-correctness triples, orders that are total in a window only, binary search.
  \<^item> \<open>Xid\<close>: ids of 32 and 64 bits and their comparison (\<^verbatim>\<open>transam.h\<close>, \<^verbatim>\<open>transam.c\<close>); \<open>Transam\<close>: status lookup with
    its cache and the walk up \<^verbatim>\<open>pg_subtrans\<close>, over the commit log as a map.
  \<^item> \<open>Xact_State\<close>, \<open>Xact_Core\<close>, \<open>Xact_Block\<close>: \<^verbatim>\<open>xact.c\<close>. The record \<open>backend\<close> holds the state stack and the
    file-level variables; calls to other modules are recorded in \<open>trace\<close>, and may raise where \<open>raises\<close> says so.
    \<open>Xact_Effects\<close>, \<open>Xact_Inv\<close>, \<open>Xact_Assign\<close>, \<open>Xact_Block_Inv\<close>, \<open>Frames\<close>, \<open>Commands\<close>, \<open>Xact_Queries\<close>, \<open>Xact_Order\<close>
    prove the effect of every routine, the invariant \<open>wf_backend\<close>, the commands SQL users issue, the queries on
    the state, and the order of the calls of a commit.
  \<^item> \<open>Session\<close>: the message loop with error recovery and \<^verbatim>\<open>standard_ProcessUtility\<close>; \<open>Session_Inv\<close>, \<open>Utility_Inv\<close>,
    \<open>Query_Atomic\<close>: the invariant of sessions and the atomicity of messages. Statements other than transaction
    control are the parameter \<open>run\<close> with the contract of the locale \<open>statement_runner\<close>, parsing is \<open>parse\<close>.
  \<^item> \<open>FD_Trigger\<close>, \<open>FD_Proofs\<close>, \<open>Messages\<close>: the declaration at the level of bytes and fixed buffers, the generated
    trigger, and SPI (\<^verbatim>\<open>backend/executor/spi.c\<close>) as far as \<^verbatim>\<open>add_trigger\<close> uses it.
  \<^item> \<open>Slru\<close>: \<^verbatim>\<open>slru.c\<close> with its slots and segment files. Each system call takes its outcome from \<open>io_results\<close>
    (success when used up). \<open>Slru_Disk\<close>, \<open>Slru_Select\<close>, \<open>Slru_Inv\<close>, \<open>Slru_Truncate\<close>: \<open>page_of\<close>, the contents of a page
    wherever they are, the invariant \<open>slru_ok\<close>, and that every routine keeps both or reports an I/O error; the
    locale \<open>page_order\<close> is what truncation needs of a client's page order. \<open>Slru_Live\<close>: no error without a
    failing system call. \<open>Slru_Reach\<close>: the reachable states.
  \<^item> \<open>Xid_Shmem\<close>: the shared memory of the id modules; \<open>Clog\<close>: \<^verbatim>\<open>clog.c\<close>. \<open>Clog_Bits\<close>, \<open>Clog_Tree\<close>, \<open>Clog_Inv\<close>,
    \<open>Clog_Atomic\<close>, \<open>Clog_Maint\<close>: the pages as a status map, a status update as a sequence of entry
    writes, what readers see at each prefix, page order under wraparound, extension, trimming and truncation.
  \<^item> \<open>Scenarios\<close>: concrete states for the witnesses. \<open>Storage_Props\<close> and this theory: the properties.

  \<^bold>\<open>What is shown.\<close> Sessions never leave the state machine's invariant and never fail an assertion; COMMIT and
  ROLLBACK at any savepoint depth, messages of several statements, PREPARE, RELEASE, ROLLBACK TO and error recovery have
  their documented effect on the commit log as a map. The commit log and page cache refine that map: a status
  update changes exactly the ids it should, is atomic to concurrent readers at every single write, survives
  checkpoints and truncation, and is recorded whenever the disk works. Every functional-dependency declaration fails,
  and its trigger would miss the first violation; these are the findings about the fork.

  \<^bold>\<open>Loops and fuel.\<close> The block state machine's loops carry fuel equal to the depth of the stack. The slot selection
  runs at most twice per slot plus once, each round settling a slot; truncation and deletion three times per slot; reading a
  page twice. The theorems show that the fuel is not used up. \<^verbatim>\<open>TransactionIdDidCommit\<close> follows shared data and is a partial function.

  \<^bold>\<open>Not modelled.\<close> Locks and memory barriers: routines are executed by one process, with the actions of others as inputs
  where they matter (ids taken by other backends between messages, the outcome of a conditional lock, processes that join a
  commit group). Memory contexts, timestamps, statistics. The page cache in recovery mode, where missing files read as zeroes, is
  modelled but the invariants are proved for normal operation. XID allocation (\<^verbatim>\<open>varsup.c\<close>) is seen through the
  list of ids it hands out, \<^verbatim>\<open>pg_subtrans\<close> as a map; parallel workers, WAL, parser, planner, executor, catalogs, access methods, replication
  and client programs are outside this development; what transaction processing needs of them is a
  recorded call or a parameter with named hypotheses.
\<close>

section \<open>Properties\<close>




text \<open>
  C2. COMMIT in a live block, at any savepoint depth: either every xid of the transaction and of its live
  subtransactions becomes committed at once and the block is left, or the command fails before any status
  changed, and error recovery then leaves the block with all of them aborted.
\<close>

theorem COMMIT_all_or_nothing:
  assumes "wf_backend base b" "live_block (blocks b)"
  shows "\<exists>c. EndTransactionBlock ch b = Inr (True, c) \<and>
    ((\<exists>d. CommitTransactionCommand c = Inr d \<and> wf_backend base d \<and> length (blocks d) = 1 \<and> live_xids (stack d) = [] \<and>
        pg_xact d = commit_xids (live_xids (stack b)) (pg_xact b)) \<or>
     (\<exists>m d e. CommitTransactionCommand c = Inl (ERROR m, d) \<and> pg_xact d = pg_xact b \<and>
        AbortCurrentTransaction d = Inr e \<and> wf_backend base e \<and> blocks e = [TBLOCK_DEFAULT] \<and>
        pg_xact e = abort_xids (live_xids (stack b)) (pg_xact b)))"
  using assms
proof (cases rule: COMMIT_block[where ch = ch])
  case (committed c d)
  then show ?thesis by blast
next
  case (failed c m d e)
  then show ?thesis by auto
qed

theorem COMMIT_all_or_nothing_witness:
  "\<exists>c. EndTransactionBlock False nested0 = Inr (True, c) \<and>
    ((\<exists>d. CommitTransactionCommand c = Inr d \<and> wf_backend 900 d \<and> length (blocks d) = 1 \<and> live_xids (stack d) = [] \<and>
        pg_xact d = commit_xids [1000, 1001] (pg_xact nested0)) \<or>
     (\<exists>m d e. CommitTransactionCommand c = Inl (ERROR m, d) \<and> pg_xact d = pg_xact nested0 \<and>
        AbortCurrentTransaction d = Inr e \<and> wf_backend 900 e \<and> blocks e = [TBLOCK_DEFAULT] \<and>
        pg_xact e = abort_xids [1000, 1001] (pg_xact nested0)))"
  using COMMIT_all_or_nothing[OF wf_nested0 nested0_live(1), of False] unfolding nested0_xids .

text \<open>
  C7. ROLLBACK succeeds in every state a command can be issued in (AND CHAIN only in a live block), leaves the
  block and marks exactly the live xids of the whole stack aborted.
\<close>

theorem ROLLBACK_aborts_everything:
  assumes "wf_backend base b" "ready_ok (blocks b)" "live_block (blocks b) \<or> \<not> ch"
  shows "\<exists>c d. UserAbortTransactionBlock ch b = Inr c \<and> CommitTransactionCommand c = Inr d \<and>
    wf_backend base d \<and> length (blocks d) = 1 \<and> live_xids (stack d) = [] \<and>
    pg_xact d = abort_xids (live_xids (stack b)) (pg_xact b)"
  by (rule ROLLBACK_block[OF assms]) blast

theorem ROLLBACK_aborts_everything_witness:
  "\<exists>c d. UserAbortTransactionBlock False nested0 = Inr c \<and> CommitTransactionCommand c = Inr d \<and>
    wf_backend 900 d \<and> length (blocks d) = 1 \<and> live_xids (stack d) = [] \<and>
    pg_xact d = abort_xids [1000, 1001] (pg_xact nested0)"
  using ROLLBACK_aborts_everything[OF wf_nested0 nested0_live(2), of False] unfolding nested0_xids by simp

text \<open>
  C21. COMMIT of a failed block reports the ROLLBACK tag and has the effect of a rollback of the whole
  transaction.
\<close>

theorem COMMIT_of_failed_block_rolls_back:
  assumes "wf_backend base b" "ready_ok (blocks b)" "IsAbortedTransactionBlockState b"
  shows "\<exists>c d. standard_ProcessUtility True (TRANS_STMT_COMMIT ch) b = Inr (True, c) \<and>
    CommitTransactionCommand c = Inr d \<and> wf_backend base d \<and> length (blocks d) = 1 \<and> live_xids (stack d) = [] \<and>
    pg_xact d = abort_xids (live_xids (stack b)) (pg_xact b)"
  by (rule COMMIT_failed_block[OF assms, where ch = ch])
     (simp add: standard_ProcessUtility_def utility_read_only_checks_def when_do_def commit_tag_def)

theorem COMMIT_of_failed_block_rolls_back_witness:
  "\<exists>c d. standard_ProcessUtility True (TRANS_STMT_COMMIT False) failed0 = Inr (True, c) \<and>
    CommitTransactionCommand c = Inr d \<and> wf_backend 900 d \<and> length (blocks d) = 1 \<and> live_xids (stack d) = [] \<and>
    pg_xact d = abort_xids [1000, 1001] (pg_xact failed0)"
  using COMMIT_of_failed_block_rolls_back[OF wf_failed0 failed0_ready, of False] unfolding failed0_xids .

text \<open>
  C9. ROLLBACK TO a savepoint, in a live or failed subtransaction: the entries outside the savepoint are
  untouched, exactly the xids at or inside it are aborted, and a fresh subtransaction with the name of the
  savepoint and no xid is running; if redefining the savepoint fails, only that last step is missing.
\<close>

theorem ROLLBACK_TO_restarts_the_savepoint:
  assumes "wf_backend base b" "blocks b = x # ts" "x \<in> {TBLOCK_SUBINPROGRESS, TBLOCK_SUBABORT}" "live_block ts"
    "find_savepoint sp (stack b) = Some t" "savepointLevel (stack b ! t) = savepointLevel (cur b)"
  shows "\<exists>c. RollbackToSavepoint sp b = Inr c \<and>
    ((\<exists>d. CommitTransactionCommand c = Inr d \<and> wf_backend base d \<and> parents d = drop (Suc t) (stack b) \<and>
        blockState (cur d) = TBLOCK_SUBINPROGRESS \<and> name (cur d) = Some sp \<and> own_xids (cur d) = [] \<and>
        pg_xact d = abort_xids (live_xids (take (Suc t) (stack b))) (pg_xact b)) \<or>
     (\<exists>m d. CommitTransactionCommand c = Inl (ERROR m, d) \<and> wf_err base d \<and> stack d = drop (Suc t) (stack b) \<and>
        pg_xact d = abort_xids (live_xids (take (Suc t) (stack b))) (pg_xact b)))"
  using assms
proof (cases rule: ROLLBACK_TO_savepoint)
  case (restarted c d)
  then show ?thesis by blast
next
  case (failed c m d)
  then show ?thesis by blast
qed

theorem ROLLBACK_TO_restarts_the_savepoint_witness:
  "\<exists>c. RollbackToSavepoint ''s1'' failed0 = Inr c \<and>
    ((\<exists>d. CommitTransactionCommand c = Inr d \<and> wf_backend 900 d \<and> parents d = [top0] \<and>
        blockState (cur d) = TBLOCK_SUBINPROGRESS \<and> name (cur d) = Some ''s1'' \<and> own_xids (cur d) = [] \<and>
        pg_xact d = abort_xids [1001] (pg_xact failed0)) \<or>
     (\<exists>m d. CommitTransactionCommand c = Inl (ERROR m, d) \<and> wf_err 900 d \<and> stack d = [top0] \<and>
        pg_xact d = abort_xids [1001] (pg_xact failed0)))"
proof -
  have f: "blocks failed0 = [TBLOCK_SUBABORT, TBLOCK_INPROGRESS]" "find_savepoint ''s1'' (stack failed0) = Some 0"
    "savepointLevel (stack failed0 ! 0) = savepointLevel (cur failed0)"
    "drop (Suc 0) (stack failed0) = [top0]" "live_xids (take (Suc 0) (stack failed0)) = [1001]"
    by (simp_all add: failed0_def stack_def scenario_defs live_xids_Cons own_xids_def xid_facts)
  show ?thesis
    using ROLLBACK_TO_restarts_the_savepoint[OF wf_failed0 f(1) _ _ f(2,3)] unfolding f(4,5) by simp
qed

text \<open>
  C10. RELEASE of a savepoint pops the entries down to and including it, without touching the commit log: the
  xids of the released subtransactions are now owned by the enclosing entry, in the same order.
\<close>

theorem RELEASE_merges_into_the_parent:
  assumes "wf_backend base b" "live_block (blocks b)" "find_savepoint sp (stack b) = Some t"
    "savepointLevel (stack b ! t) = savepointLevel (cur b)"
  shows "\<exists>c. ReleaseSavepoint sp b = Inr c \<and>
    ((\<exists>d. CommitTransactionCommand c = Inr d \<and> wf_backend base d \<and>
        map skel (stack d) = map skel (drop (Suc t) (stack b)) \<and>
        live_xids (stack d) = live_xids (stack b) \<and> pg_xact d = pg_xact b) \<or>
     (\<exists>m d. CommitTransactionCommand c = Inl (ERROR m, d) \<and> wf_err base d \<and> pg_xact d = pg_xact b))"
  using assms
proof (cases rule: RELEASE_savepoint)
  case (released c d)
  then show ?thesis by blast
next
  case (failed c m d)
  then show ?thesis by blast
qed

theorem RELEASE_merges_into_the_parent_witness:
  "\<exists>c. ReleaseSavepoint ''s1'' nested0 = Inr c \<and>
    ((\<exists>d. CommitTransactionCommand c = Inr d \<and> wf_backend 900 d \<and> map skel (stack d) = [skel top0] \<and>
        live_xids (stack d) = [1000, 1001] \<and> pg_xact d = pg_xact nested0) \<or>
     (\<exists>m d. CommitTransactionCommand c = Inl (ERROR m, d) \<and> wf_err 900 d \<and> pg_xact d = pg_xact nested0))"
proof -
  have f: "find_savepoint ''s1'' (stack nested0) = Some 0"
    "savepointLevel (stack nested0 ! 0) = savepointLevel (cur nested0)" "drop (Suc 0) (stack nested0) = [top0]"
    by (simp_all add: stack_def scenario_defs)
  show ?thesis
    using RELEASE_merges_into_the_parent[OF wf_nested0 nested0_live(1) f(1,2)] unfolding f(3) nested0_xids by simp
qed





text \<open>
  C27. Every well-formed functional-dependency declaration is answered with an error before its insertion is
  looked at: the trigger is created with a read-only SPI call, which refuses utility statements. The session
  recovers.
\<close>

theorem fd_declaration_always_fails:
  assumes "good_session base s" "fd_names_ok fd_id relation lhs rhs"
    "plans_utility x (trigger_command fd_id (join_with '','' rhs) relation (trigger_cond lhs))"
  shows "\<exists>s1 s2. exec_simple_query x run parse (fd_insert fd_id relation lhs rhs) s =
      Inl (ERROR ''command is not allowed in a non-volatile function'', s1) \<and>
    live_xids (stack (sess s1)) = live_xids (stack (sess s)) \<and> pg_xact (sess s1) = pg_xact (sess s) \<and>
    PostgresMain_query x run parse (fd_insert fd_id relation lhs rhs) s = Inr s2 \<and> good_session base s2"
  by (rule fd_declaration_refused[OF assms, of run parse]) blast

theorem fd_declaration_always_fails_witness:
  "\<exists>s1 s2. exec_simple_query spi0 run_acts (\<lambda>_. Inr []) (fd_insert ''fd1'' ''emp'' [''a''] [''b'']) session0 =
      Inl (ERROR ''command is not allowed in a non-volatile function'', s1) \<and>
    live_xids (stack (sess s1)) = live_xids (stack (sess session0)) \<and> pg_xact (sess s1) = pg_xact (sess session0) \<and>
    PostgresMain_query spi0 run_acts (\<lambda>_. Inr []) (fd_insert ''fd1'' ''emp'' [''a''] [''b'']) session0 = Inr s2 \<and>
    good_session 900 s2"
  by (rule fd_declaration_always_fails[OF good_session0 _ plans_utility0])
     (simp add: fd_names_ok_def fd_insert_def fd_query_prefix_def quoted_names_def)

text \<open>
  C28. A functional-dependency declaration in the documented format is recognised, and the four parsing loops
  recover exactly the identifier, the relation and the two column lists it was printed from.
\<close>

theorem fd_parse_roundtrip:
  assumes "fd_names_ok fd_id relation lhs rhs"
  shows "is_fd_query (fd_insert fd_id relation lhs rhs) = Inr True \<and>
    parse_fd_query (fd_insert fd_id relation lhs rhs) = Inr (fd_id, relation, lhs, rhs)"
  using parse_fd_insert[OF assms] is_fd_insert assms by (simp add: fd_names_ok_def)

theorem fd_parse_roundtrip_witness:
  "is_fd_query (fd_insert ''fd1'' ''emp'' [''a'', ''b''] [''c'']) = Inr True \<and>
   parse_fd_query (fd_insert ''fd1'' ''emp'' [''a'', ''b''] [''c'']) = Inr (''fd1'', ''emp'', [''a'', ''b''], [''c''])"
  by (rule fd_parse_roundtrip) (simp add: fd_names_ok_def fd_insert_def fd_query_prefix_def quoted_names_def)



definition fd_row :: "nat \<Rightarrow> nat \<Rightarrow> nat row" where
  "fd_row a b = (\<lambda>c. if c = ''a'' then Some a else if c = ''b'' then Some b else None)"

text \<open>
  C30. If the stored rows satisfy the dependency, the generated trigger does not report the first row that
  violates it: its count only sees the stored rows and never exceeds one.
\<close>

theorem trigger_misses_first_violation:
  assumes "fd_holds lhs c rows" "r \<in> set rows" "row_matches lhs new r" "r c \<noteq> None" "new c \<noteq> None" "new c \<noteq> r c"
  shows "\<not> fd_holds lhs c (new # rows) \<and> trigger_count lhs c rows new \<le> 1 \<and>
    trigger_body lhs c rows new \<noteq> Inl ''Functional dependency fd1 failed''"
proof -
  have "\<not> fd_holds lhs c (new # rows)"
    using assms(2-6) unfolding fd_holds_def by (metis list.set_intros)
  then show ?thesis using trigger_count_blind[OF assms(1), of new] by (simp add: trigger_body_def)
qed

theorem trigger_misses_first_violation_witness:
  "\<not> fd_holds [''a''] ''b'' [fd_row 1 3, fd_row 1 2] \<and> trigger_count [''a''] ''b'' [fd_row 1 2] (fd_row 1 3) \<le> 1 \<and>
    trigger_body [''a''] ''b'' [fd_row 1 2] (fd_row 1 3) \<noteq> Inl ''Functional dependency fd1 failed''"
  by (rule trigger_misses_first_violation[of _ _ _ "fd_row 1 2"]) (simp_all add: fd_holds_def row_matches_def fd_row_def)



text \<open>
  C22. PREPARE TRANSACTION in a live block, at any savepoint depth: either the block is left with no status
  changed, since the prepared transaction now owns the ids, or the command fails and error recovery leaves the
  block with all ids of the stack aborted, those assigned by the command itself included.
\<close>

theorem PREPARE_detaches_the_transaction:
  assumes "wf_backend base b" "live_block (blocks b)"
  shows "\<exists>c. PrepareTransactionBlock gid b = Inr (True, c) \<and>
    ((\<exists>d. CommitTransactionCommand c = Inr d \<and> wf_backend base d \<and> blocks d = [TBLOCK_DEFAULT] \<and>
        live_xids (stack d) = [] \<and> pg_xact d = pg_xact b) \<or>
     (\<exists>m d e xs. CommitTransactionCommand c = Inl (ERROR m, d) \<and> AbortCurrentTransaction d = Inr e \<and>
        wf_backend base e \<and> blocks e = [TBLOCK_DEFAULT] \<and> live_xids (stack d) = live_xids (stack b) @ xs \<and>
        pg_xact e = abort_xids (live_xids (stack b) @ xs) (pg_xact b)))"
  using assms
proof (cases rule: PREPARE_block[where gid = gid])
  case (prepared c d)
  then show ?thesis using wf_default_xids[of base d] by auto
next
  case (failed c m d e)
  then show ?thesis by (auto simp: more_xids_def)
qed

theorem PREPARE_detaches_the_transaction_witness:
  "\<exists>c. PrepareTransactionBlock ''g'' nested0 = Inr (True, c) \<and>
    ((\<exists>d. CommitTransactionCommand c = Inr d \<and> wf_backend 900 d \<and> blocks d = [TBLOCK_DEFAULT] \<and>
        live_xids (stack d) = [] \<and> pg_xact d = pg_xact nested0) \<or>
     (\<exists>m d e xs. CommitTransactionCommand c = Inl (ERROR m, d) \<and> AbortCurrentTransaction d = Inr e \<and>
        wf_backend 900 e \<and> blocks e = [TBLOCK_DEFAULT] \<and> live_xids (stack d) = [1000, 1001] @ xs \<and>
        pg_xact e = abort_xids ([1000, 1001] @ xs) (pg_xact nested0)))"
  using PREPARE_detaches_the_transaction[OF wf_nested0 nested0_live(1), of "''g''"] unfolding nested0_xids .

text \<open>
  C26. COMMIT AND CHAIN starts the next transaction block. Issued at the top level of the block, the new block
  has the isolation level, access mode and deferrability of the committed one; issued inside a savepoint, it
  has those a previous chained command left in the save variables.
\<close>

theorem COMMIT_AND_CHAIN_characteristics:
  assumes "wf_backend base b" "live_block (blocks b)" "\<not> chain (cur b)"
  shows "\<exists>c. EndTransactionBlock True b = Inr (True, c) \<and>
    ((\<exists>d. CommitTransactionCommand c = Inr d \<and> wf_backend base d \<and> blocks d = [TBLOCK_INPROGRESS] \<and>
        (if parents b = [] then same_chars b d
         else XactReadOnly d = save_XactReadOnly b \<and> XactIsoLevel d = save_XactIsoLevel b \<and>
           XactDeferrable d = save_XactDeferrable b)) \<or>
     (\<exists>m d. CommitTransactionCommand c = Inl (ERROR m, d) \<and> pg_xact d = pg_xact b))"
  using assms(1,2)
proof (cases rule: COMMIT_block[where ch = True])
  case (committed c d)
  then show ?thesis using commit_chain_characteristics[OF assms committed(1,2)] by auto
next
  case (failed c m d e)
  then show ?thesis by auto
qed

theorem COMMIT_AND_CHAIN_characteristics_witness:
  "\<exists>c. EndTransactionBlock True (nested0\<lparr>XactReadOnly := True\<rparr>) = Inr (True, c) \<and>
    ((\<exists>d. CommitTransactionCommand c = Inr d \<and> wf_backend 900 d \<and> blocks d = [TBLOCK_INPROGRESS] \<and>
        \<not> XactReadOnly d \<and> XactIsoLevel d = 0) \<or>
     (\<exists>m d. CommitTransactionCommand c = Inl (ERROR m, d) \<and> pg_xact d = pg_xact nested0))"
proof -
  let ?b = "nested0\<lparr>XactReadOnly := True\<rparr>"
  have w: "wf_backend 900 ?b" by (rule wf_same_stack[OF wf_nested0]) (simp_all add: frame_defs)
  have f: "live_block (blocks ?b)" "\<not> chain (cur ?b)" "parents ?b \<noteq> []" "save_XactReadOnly ?b = False" "save_XactIsoLevel ?b = 0"
    by (simp_all add: stack_def scenario_defs)
  from COMMIT_AND_CHAIN_characteristics[OF w f(1,2)] show ?thesis using f(3,4,5) by auto
qed

text \<open>
  C4. The order of a top-level commit with an id: the commit record is written, and flushed unless the commit
  is asynchronous, before the status of the transaction and its children is set; only then does the
  transaction leave the set of running ones, and only then are its locks released. Between the status change
  and the departure from the running set nothing of this kind happens.
\<close>

theorem commit_is_ordered:
  assumes "wf_backend base b" "trans_of (blockState (cur b)) = TRANS_INPROGRESS" "parents b = []" "has_xid (cur b)"
  shows "(\<exists>b' t1 t2 t3 t4 t5 lsn x. CommitTransaction b = Inr b' \<and>
      trace b' = trace b @ t1 @ [XactLogCommitRecord (xid_of (cur b)) (childXids (cur b))] @ t2 @
        [SetTreeStatus TRANSACTION_STATUS_COMMITTED (xid_of (cur b)) (childXids (cur b)) lsn] @ t3 @
        [ProcArrayEndTransaction x] @ t4 @
        [ResourceOwnerRelease (TopTransactionResourceOwner b) RESOURCE_RELEASE_LOCKS True True] @ t5 \<and>
      list_all quiet_call t1 \<and> list_all quiet_call t3 \<and>
      (if flushes (XactLastRecEnd b \<noteq> 0) (nrels (env b)) b then XLogFlush (wal_pos b + 1) \<in> set t2 \<and> lsn = None
       else lsn = Some (wal_pos b + 1))) \<or>
    (\<exists>m b'. CommitTransaction b = Inl (ERROR m, b') \<and> pg_xact b' = pg_xact b)"
  using assms(1-3)
proof (cases rule: wf_commit)
  case (1 b')
  have g: "XactTopFullTransactionId b = fullTransactionId (cur b)" "blockState (cur b) \<noteq> TBLOCK_PARALLEL_INPROGRESS"
    using assms(1,3) by (auto simp: wf_backend_def wf_defs entry_ok_def)
  show ?thesis by (rule CommitTransaction_order[OF assms(4) g(1) assms(3) g(2) 1(1)]) (use 1(1) in blast)
next
  case (2 m b')
  then show ?thesis by (auto simp: same_log_def)
qed

theorem commit_is_ordered_witness:
  "(\<exists>b' t1 t2 t3 t4 t5 lsn x. CommitTransaction block0 = Inr b' \<and>
      trace b' = trace block0 @ t1 @ [XactLogCommitRecord 1000 []] @ t2 @
        [SetTreeStatus TRANSACTION_STATUS_COMMITTED 1000 [] lsn] @ t3 @
        [ProcArrayEndTransaction x] @ t4 @
        [ResourceOwnerRelease (TopTransactionResourceOwner block0) RESOURCE_RELEASE_LOCKS True True] @ t5 \<and>
      list_all quiet_call t1 \<and> list_all quiet_call t3 \<and>
      (if flushes (XactLastRecEnd block0 \<noteq> 0) (nrels (env block0)) block0 then XLogFlush (wal_pos block0 + 1) \<in> set t2 \<and> lsn = None
       else lsn = Some (wal_pos block0 + 1))) \<or>
    (\<exists>m b'. CommitTransaction block0 = Inl (ERROR m, b') \<and> pg_xact b' = pg_xact block0)"
proof -
  have f: "trans_of (blockState (cur block0)) = TRANS_INPROGRESS" "parents block0 = []" "has_xid (cur block0)"
    "xid_of (cur block0) = 1000" "childXids (cur block0) = []"
    by (simp_all add: block0_def scenario_defs xid_facts)
  show ?thesis using commit_is_ordered[OF wf_block0 f(1-3)] unfolding f(4,5) .
qed



text \<open>
  C23. Asking for the id of the current subtransaction assigns ids to it and to every enclosing entry that
  has none, outermost first: the ids are the next ones of the counter, in the order of the stack, all of them
  are in progress, and nothing else of the stack changes. If it fails on the way, the entries that got an id
  are a prefix of the stack in this sense.
\<close>

theorem xid_assignment:
  assumes "wf_backend base b" "state (cur b) = TRANS_INPROGRESS"
  shows "\<exists>b' xs. (GetCurrentTransactionId b = Inr (xid_of (cur b'), b') \<and> list_all has_xid (stack b') \<and>
        TransactionIdIsCurrentTransactionId (xid_of (cur b')) b' \<or>
      (\<exists>m. GetCurrentTransactionId b = Inl (ERROR m, b'))) \<and>
    wf_backend base b' \<and> map shape (stack b') = map shape (stack b) \<and> pg_xact b' = pg_xact b \<and>
    live_xids (stack b') = live_xids (stack b) @ xs \<and> future_xids b = xs @ future_xids b' \<and>
    sorted_wrt TransactionIdPrecedes (live_xids (stack b'))"
  using assms
proof (cases rule: wf_GetCurrentTransactionId)
  case (1 m b')
  then show ?thesis using assigned_sorted[OF 1(2)] by (auto simp: assigned_more_def assigned_ids_def)
next
  case (2 b')
  then show ?thesis using assigned_stack[OF 2(2,3)] by (auto simp: assigned_more_def assigned_ids_def)
qed

theorem xid_assignment_witness:
  "\<exists>b' xs. (GetCurrentTransactionId fresh0 = Inr (xid_of (cur b'), b') \<and> list_all has_xid (stack b') \<and>
        TransactionIdIsCurrentTransactionId (xid_of (cur b')) b' \<or>
      (\<exists>m. GetCurrentTransactionId fresh0 = Inl (ERROR m, b'))) \<and>
    wf_backend 900 b' \<and> map shape (stack b') = map shape (stack fresh0) \<and> pg_xact b' = pg_xact fresh0 \<and>
    live_xids (stack b') = live_xids (stack fresh0) @ xs \<and> future_xids fresh0 = xs @ future_xids b' \<and>
    sorted_wrt TransactionIdPrecedes (live_xids (stack b'))"
  by (rule xid_assignment[OF wf_fresh0]) (simp add: fresh0_def scenario_defs)

end
